(* ===== verification/Prelude.thy ===== *)
theory Prelude
  imports Main "HOL-Library.AList" "HOL-Library.Char_ord" "HOL-Library.List_Lexorder"
    "HOL-Library.Sublist" "HOL-Library.Multiset"
begin

text \<open>
  The vocabulary shared by the component theories: results of fallible Go functions, loops that
  stop at the first error, Go maps as association lists, strict orders on the keys of a list, and
  the generic facts the component proofs rely on.

  \<^item> A Go function that returns \<open>(T, error)\<close> is a function into \<open>('e, 'a) result\<close>, the error on
    the left. A function that collects its errors with \<open>errors.Join\<close> returns the list of them,
    and the empty list is Go's \<open>nil\<close>.
  \<^item> A \<open>for range\<close> loop whose body may return early is \<open>for_result\<close>; a loop that builds a slice
    is \<open>map_result\<close>.
  \<^item> A Go map is an association list with distinct keys, written with \<open>mput\<close> and read with
    \<open>mget\<close>. Go leaves the order of a range over a map open: a definition whose loop ranges over a
    map takes that order as an argument where the order can be observed.
  \<^item> Go strings are byte strings, so they are \<open>char list\<close>; \<open>strings.Compare\<close> and \<open><\<close> on them are
    the lexicographic order of \<open>List_Lexorder\<close> over the byte order of \<open>Char_ord\<close>.
\<close>

named_theorems result_simps \<open>results and loops that stop at the first error\<close>
named_theorems gomap_simps \<open>Go maps as association lists\<close>
named_theorems gostr_simps \<open>splitting, joining and trimming Go strings\<close>

type_synonym ('e, 'a) result = "'e + 'a"
type_synonym ('k, 'v) gomap = "('k \<times> 'v) list"

abbreviation mget :: "('k, 'v) gomap \<Rightarrow> 'k \<Rightarrow> 'v option" where
  "mget m k \<equiv> map_of m k"

abbreviation mput :: "'k \<Rightarrow> 'v \<Rightarrow> ('k, 'v) gomap \<Rightarrow> ('k, 'v) gomap" where
  "mput k v m \<equiv> AList.update k v m"

abbreviation mdel :: "'k \<Rightarrow> ('k, 'v) gomap \<Rightarrow> ('k, 'v) gomap" where
  "mdel k m \<equiv> AList.delete k m"

abbreviation mkeys :: "('k, 'v) gomap \<Rightarrow> 'k list" where
  "mkeys m \<equiv> map fst m"

definition mhas :: "('k, 'v) gomap \<Rightarrow> 'k \<Rightarrow> bool" where
  "mhas m k = (map_of m k \<noteq> None)"

definition gomap_ok :: "('k, 'v) gomap \<Rightarrow> bool" where
  "gomap_ok m = distinct (map fst m)"

fun for_result :: "('a \<Rightarrow> 's \<Rightarrow> ('e, 's) result) \<Rightarrow> 'a list \<Rightarrow> 's \<Rightarrow> ('e, 's) result" where
  "for_result f [] s = Inr s"
| "for_result f (x # xs) s =
     (case f x s of Inl e \<Rightarrow> Inl e | Inr s' \<Rightarrow> for_result f xs s')"

fun map_result :: "('a \<Rightarrow> ('e, 'b) result) \<Rightarrow> 'a list \<Rightarrow> ('e, 'b list) result" where
  "map_result f [] = Inr []"
| "map_result f (x # xs) =
     (case f x of Inl e \<Rightarrow> Inl e
      | Inr y \<Rightarrow> (case map_result f xs of Inl e \<Rightarrow> Inl e | Inr ys \<Rightarrow> Inr (y # ys)))"

text \<open>The first error of a list of checks, for loops that only validate.\<close>

fun first_error :: "('a \<Rightarrow> 'e option) \<Rightarrow> 'a list \<Rightarrow> 'e option" where
  "first_error f [] = None"
| "first_error f (x # xs) = (case f x of Some e \<Rightarrow> Some e | None \<Rightarrow> first_error f xs)"

definition is_ok :: "('e, 'a) result \<Rightarrow> bool" where
  "is_ok r = (case r of Inl _ \<Rightarrow> False | Inr _ \<Rightarrow> True)"

section \<open>Results and loops\<close>

lemma is_ok_simps [simp, result_simps]: "\<not> is_ok (Inl e)" "is_ok (Inr x)"
  by (simp_all add: is_ok_def)

lemma is_ok_iff: "is_ok r \<longleftrightarrow> (\<exists>x. r = Inr x)"
  by (cases r) simp_all

lemma sum_case_Inr_iff [result_simps]:
  "(case r of Inl e \<Rightarrow> Inl e | Inr x \<Rightarrow> f x) = Inr y \<longleftrightarrow> (\<exists>x. r = Inr x \<and> f x = Inr y)"
  by (cases r) simp_all

lemma for_result_append:
  "for_result f (xs @ ys) s =
     (case for_result f xs s of Inl e \<Rightarrow> Inl e | Inr s' \<Rightarrow> for_result f ys s')"
  by (induction xs arbitrary: s) (auto split: sum.splits)

lemma for_result_invariant:
  assumes "for_result f xs s = Inr t" and "I s"
    and "\<And>x s s'. x \<in> set xs \<Longrightarrow> I s \<Longrightarrow> f x s = Inr s' \<Longrightarrow> I s'"
  shows "I t"
  using assms
proof (induction xs arbitrary: s)
  case Nil
  then show ?case by simp
next
  case (Cons x xs)
  from Cons.prems(1) obtain s' where s': "f x s = Inr s'" "for_result f xs s' = Inr t"
    by (auto split: sum.splits)
  from Cons.prems(3) [OF _ Cons.prems(2) s'(1)] have "I s'" by simp
  from s'(2) this show ?case
    by (rule Cons.IH) (use Cons.prems(3) in auto)
qed

lemma for_result_each:
  "for_result f xs s = Inr t \<Longrightarrow> x \<in> set xs \<Longrightarrow> \<exists>a b. f x a = Inr b"
  by (induction xs arbitrary: s) (auto split: sum.splits)

lemma map_result_Inr_iff [result_simps]:
  "map_result f xs = Inr ys \<longleftrightarrow> list_all2 (\<lambda>x y. f x = Inr y) xs ys"
proof (induction xs arbitrary: ys)
  case Nil
  then show ?case by auto
next
  case (Cons x xs)
  show ?case
    by (cases "f x"; cases ys) (simp_all add: Cons.IH [symmetric] split: sum.split)
qed

lemma map_result_map:
  assumes "\<And>x y. f x = Inr y \<longleftrightarrow> P x \<and> y = g x"
  shows "map_result f xs = Inr ys \<longleftrightarrow> (\<forall>x \<in> set xs. P x) \<and> ys = map g xs"
  by (induction xs arbitrary: ys) (auto simp: sum_case_Inr_iff assms)

lemma first_error_None_iff [result_simps]:
  "first_error f xs = None \<longleftrightarrow> (\<forall>x \<in> set xs. f x = None)"
  by (induction xs) (auto split: option.splits)

section \<open>Go maps\<close>

lemma mhas_iff [gomap_simps]: "mhas m k \<longleftrightarrow> k \<in> set (mkeys m)"
  by (simp add: mhas_def map_of_eq_None_iff)

lemma mget_mput [simp, gomap_simps]:
  "mget (mput k v m) k' = (if k' = k then Some v else mget m k')"
  by (simp add: update_conv')

lemma gomap_ok_Nil [simp, gomap_simps]: "gomap_ok []"
  by (simp add: gomap_ok_def)

lemma gomap_ok_mput [simp, gomap_simps]: "gomap_ok m \<Longrightarrow> gomap_ok (mput k v m)"
  by (simp add: gomap_ok_def distinct_update)

lemma gomap_ok_mdel [simp, gomap_simps]: "gomap_ok m \<Longrightarrow> gomap_ok (mdel k m)"
  by (simp add: gomap_ok_def distinct_delete)

lemma keys_mput [simp, gomap_simps]: "fst ` set (mput k v m) = insert k (fst ` set m)"
  using dom_update [of k v m] by (simp add: dom_map_of_conv_image_fst)

lemma mkeys_mput_fresh: "k \<notin> set (mkeys m) \<Longrightarrow> mkeys (mput k v m) = mkeys m @ [k]"
  by (induction m) auto

lemma mput_fresh: "k \<notin> set (mkeys m) \<Longrightarrow> mput k v m = m @ [(k, v)]"
  by (induction m) auto

lemma mget_mdel [simp, gomap_simps]:
  "mget (mdel k m) k' = (if k' = k then None else mget m k')"
  by (simp add: delete_conv')

lemma mget_Some_in_keys: "mget m k = Some v \<Longrightarrow> k \<in> set (mkeys m)"
  by (metis map_of_eq_None_iff option.distinct(1) set_map)

lemma in_keys_mget: "k \<in> set (mkeys m) \<Longrightarrow> \<exists>v. mget m k = Some v"
  by (metis map_of_eq_None_iff not_None_eq set_map)

lemma mput_at:
  assumes "mget m k = Some w" and "distinct (mkeys m)"
  shows "mput k (g w) m = map (\<lambda>(n, x). (n, if n = k then g x else x)) m"
  using assms
proof (induction m)
  case (Cons p m)
  obtain n x where p: "p = (n, x)" by (cases p)
  have other: "map (\<lambda>(n, x). (n, if n = k then g x else x)) m = m" if "k \<notin> fst ` set m"
    using that by (intro map_idI) (force split: if_splits)
  from Cons p other show ?case by (cases "n = k") auto
qed simp

lemma mget_map_values: "mget (map (\<lambda>(n, x). (n, g n x)) m) k = map_option (g k) (mget m k)"
  by (induction m) auto

lemma gomap_entry: "gomap_ok m \<Longrightarrow> (k, v) \<in> set m \<longleftrightarrow> mget m k = Some v"
  by (auto simp: gomap_ok_def intro: map_of_is_SomeI dest: map_of_SomeD)

lemma gomap_names: "gomap_ok m \<Longrightarrow> (\<forall>(k, q) \<in> set m. P k q) \<longleftrightarrow> (\<forall>k q. mget m k = Some q \<longrightarrow> P k q)"
  by (auto simp: gomap_entry)

section \<open>Lists with sorted, distinct keys\<close>

lemma Nil_less_iff [simp]: "([] < xs) = (xs \<noteq> [])"
  by (cases xs) simp_all

text \<open>
  \<open>strictly_sorted\<close> is what Go code checks with \<open>i > 0 && x[i] <= x[i-1]\<close>: ascending order
  without duplicates.
\<close>

definition strictly_sorted :: "'a::linorder list \<Rightarrow> bool" where
  "strictly_sorted xs = sorted_wrt (<) xs"

lemma strictly_sorted_iff: "strictly_sorted xs \<longleftrightarrow> sorted xs \<and> distinct xs"
  by (simp add: strictly_sorted_def strict_sorted_iff)

lemma sort_distinct_strict: "distinct xs \<Longrightarrow> strictly_sorted (sort xs)"
  by (simp add: strictly_sorted_iff)

lemma sort_key_map: "sort_key f (map g xs) = map g (sort_key (f \<circ> g) xs)"
proof -
  have "insort_key f (g x) (map g ys) = map g (insort_key (f \<circ> g) x ys)" for x ys by (induction ys) auto
  then show ?thesis by (induction xs) auto
qed

lemma sort_perm_eq: "mset xs = mset ys \<Longrightarrow> sort xs = sort (ys :: 'a::linorder list)"
  by (metis mset_sort properties_for_sort sorted_sort)

lemma sort_key_perm_eq:
  assumes "mset xs = mset ys" and "inj_on f (set xs)"
  shows "sort_key f xs = sort_key f ys"
  using assms by (intro sort_key_inj_key_eq) simp_all

end
