(* ===== verification/GoStd.thy ===== *)
theory GoStd
  imports Prelude
begin

text \<open>
  The part of Go's standard library the modelled code calls, on byte strings: \<open>strings\<close>
  (\<open>Split\<close>, \<open>Join\<close>, \<open>Cut\<close>, \<open>TrimPrefix\<close>, \<open>TrimSpace\<close>, \<open>Contains\<close>), \<open>unicode/utf8\<close> (how
  \<open>range\<close> reads a string as runes), \<open>strconv\<close> (\<open>Itoa\<close>, \<open>Atoi\<close>), \<open>path\<close> (\<open>Base\<close>, \<open>Clean\<close>,
  \<open>Dir\<close>, \<open>Join\<close>) and \<open>encoding/hex\<close>'s test for hexadecimal text.

  The Unicode tables behind \<open>unicode.IsDigit\<close>, \<open>unicode.IsLetter\<close> and \<open>unicode.ToLower\<close> are a
  record that the functions which consult them take as an argument; \<open>ascii_tables\<close> is that record
  on ASCII. \<open>unicode.IsSpace\<close> and \<open>unicode.IsControl\<close> are finite sets and written out.
\<close>

section \<open>Bytes and characters\<close>

type_synonym rune = nat

abbreviation byte :: "char \<Rightarrow> nat" where
  "byte c \<equiv> of_char c"

definition isLowerAlphaNumeric :: "char \<Rightarrow> bool" where
  "isLowerAlphaNumeric c =
     (CHR ''a'' \<le> c \<and> c \<le> CHR ''z'' \<or> CHR ''0'' \<le> c \<and> c \<le> CHR ''9'')"

definition ascii_digit :: "char \<Rightarrow> bool" where
  "ascii_digit c = (CHR ''0'' \<le> c \<and> c \<le> CHR ''9'')"

definition hex_char :: "char \<Rightarrow> bool" where
  "hex_char c = (ascii_digit c \<or> CHR ''a'' \<le> c \<and> c \<le> CHR ''f'' \<or> CHR ''A'' \<le> c \<and> c \<le> CHR ''F'')"

definition lower_hex_char :: "char \<Rightarrow> bool" where
  "lower_hex_char c = (ascii_digit c \<or> CHR ''a'' \<le> c \<and> c \<le> CHR ''f'')"

text \<open>\<open>hex.DecodeString\<close> succeeds on an even number of hexadecimal digits.\<close>

definition hex_ok :: "string \<Rightarrow> bool" where
  "hex_ok s = (even (length s) \<and> list_all hex_char s)"

definition lower_char :: "char \<Rightarrow> char" where
  "lower_char c = (if CHR ''A'' \<le> c \<and> c \<le> CHR ''Z'' then char_of (byte c + 32) else c)"

section \<open>Package strings\<close>

fun split_on :: "char \<Rightarrow> string \<Rightarrow> string list" where
  "split_on c [] = [[]]"
| "split_on c (x # xs) =
     (if x = c then [] # split_on c xs
      else (x # hd (split_on c xs)) # tl (split_on c xs))"

fun join_with :: "char \<Rightarrow> string list \<Rightarrow> string" where
  "join_with c [] = []"
| "join_with c [x] = x"
| "join_with c (x # y # ys) = x @ c # join_with c (y # ys)"

definition cut_at :: "char \<Rightarrow> string \<Rightarrow> string \<times> string" where
  "cut_at c s = (takeWhile (\<lambda>x. x \<noteq> c) s, drop 1 (dropWhile (\<lambda>x. x \<noteq> c) s))"

definition trim_prefix :: "string \<Rightarrow> string \<Rightarrow> string" where
  "trim_prefix p s = (if prefix p s then drop (length p) s else s)"

definition trim_suffix :: "string \<Rightarrow> string \<Rightarrow> string" where
  "trim_suffix p s = (if suffix p s then take (length s - length p) s else s)"

text \<open>\<open>strings.EqualFold\<close> with a word whose letters have no folding outside ASCII.\<close>

definition equal_fold :: "string \<Rightarrow> string \<Rightarrow> bool" where
  "equal_fold s lowered = (map lower_char s = lowered)"

definition strings_Compare :: "string \<Rightarrow> string \<Rightarrow> int" where
  "strings_Compare a b = (if a = b then 0 else if a < b then -1 else 1)"

text \<open>\<open>strings.Contains\<close> and \<open>bytes.Contains\<close>.\<close>

fun contains :: "'a list \<Rightarrow> 'a list \<Rightarrow> bool" where
  "contains [] sub = (sub = [])"
| "contains (x # xs) sub = (prefix sub (x # xs) \<or> contains xs sub)"

text \<open>\<open>strings.ContainsAny\<close> for a set of ASCII characters.\<close>

definition contains_any :: "string \<Rightarrow> string \<Rightarrow> bool" where
  "contains_any s chars = list_ex (\<lambda>c. c \<in> set chars) s"

section \<open>Runes\<close>

definition RuneError :: rune where
  "RuneError = 65533"

definition utf8_cont :: "char \<Rightarrow> bool" where
  "utf8_cont c = (128 \<le> byte c \<and> byte c \<le> 191)"

text \<open>The length of the well-formed encoding a string starts with, 0 where there is none.\<close>

definition rune_len :: "string \<Rightarrow> nat" where
  "rune_len s =
     (case s of
        [] \<Rightarrow> 0
      | a # r \<Rightarrow>
          (if byte a < 128 then 1
           else if 194 \<le> byte a \<and> byte a \<le> 223 then
             (case r of b # _ \<Rightarrow> (if utf8_cont b then 2 else 0) | _ \<Rightarrow> 0)
           else if 224 \<le> byte a \<and> byte a \<le> 239 then
             (case r of
                b # c # _ \<Rightarrow>
                  (if utf8_cont b \<and> utf8_cont c \<and> (byte a = 224 \<longrightarrow> 160 \<le> byte b)
                      \<and> (byte a = 237 \<longrightarrow> byte b \<le> 159)
                   then 3 else 0)
              | _ \<Rightarrow> 0)
           else if 240 \<le> byte a \<and> byte a \<le> 244 then
             (case r of
                b # c # d # _ \<Rightarrow>
                  (if utf8_cont b \<and> utf8_cont c \<and> utf8_cont d \<and> (byte a = 240 \<longrightarrow> 144 \<le> byte b)
                      \<and> (byte a = 244 \<longrightarrow> byte b \<le> 143)
                   then 4 else 0)
              | _ \<Rightarrow> 0)
           else 0))"

definition rune_val :: "string \<Rightarrow> rune" where
  "rune_val s =
     (case s of
        [a] \<Rightarrow> byte a
      | [a, b] \<Rightarrow> (byte a - 192) * 64 + (byte b - 128)
      | [a, b, c] \<Rightarrow> (byte a - 224) * 4096 + (byte b - 128) * 64 + (byte c - 128)
      | [a, b, c, d] \<Rightarrow>
          (byte a - 240) * 262144 + (byte b - 128) * 4096 + (byte c - 128) * 64 + (byte d - 128)
      | _ \<Rightarrow> RuneError)"

text \<open>
  A \<open>range\<close> over a string cuts it into encodings; a byte that starts none is one piece, read as
  \<open>RuneError\<close>.
\<close>

function rune_chunks :: "string \<Rightarrow> string list" where
  "rune_chunks [] = []"
| "rune_chunks (a # s) =
     (if rune_len (a # s) = 0 then [a] # rune_chunks s
      else take (rune_len (a # s)) (a # s) # rune_chunks (drop (rune_len (a # s)) (a # s)))"
  by pat_completeness auto
termination
  by (relation "measure length") auto

definition chunk_rune :: "string \<Rightarrow> rune" where
  "chunk_rune ch = (if rune_len ch = 0 then RuneError else rune_val ch)"

definition runes :: "string \<Rightarrow> rune list" where
  "runes s = map chunk_rune (rune_chunks s)"

definition valid_utf8 :: "string \<Rightarrow> bool" where
  "valid_utf8 s = list_all (\<lambda>ch. rune_len ch \<noteq> 0) (rune_chunks s)"

definition encode_rune :: "rune \<Rightarrow> string" where
  "encode_rune r =
     (if r < 128 then [char_of r]
      else if r < 2048 then [char_of (192 + r div 64), char_of (128 + r mod 64)]
      else if 55296 \<le> r \<and> r \<le> 57343 \<or> 1114111 < r then
        [char_of (239::nat), char_of (191::nat), char_of (189::nat)]
      else if r < 65536 then
        [char_of (224 + r div 4096), char_of (128 + r div 64 mod 64), char_of (128 + r mod 64)]
      else [char_of (240 + r div 262144), char_of (128 + r div 4096 mod 64),
            char_of (128 + r div 64 mod 64), char_of (128 + r mod 64)])"

text \<open>\<open>encoding/json\<close> writes a byte that starts no encoding as the replacement character.\<close>

definition json_chunk :: "string \<Rightarrow> string" where
  "json_chunk ch = (if rune_len ch = 0 then encode_rune RuneError else ch)"

definition json_text :: "string \<Rightarrow> string" where
  "json_text s = concat (map json_chunk (rune_chunks s))"

definition unicode_IsSpace :: "rune \<Rightarrow> bool" where
  "unicode_IsSpace r =
     (9 \<le> r \<and> r \<le> 13 \<or> r = 32 \<or> r = 133 \<or> r = 160 \<or> r = 5760 \<or> 8192 \<le> r \<and> r \<le> 8202
      \<or> r = 8232 \<or> r = 8233 \<or> r = 8239 \<or> r = 8287 \<or> r = 12288)"

definition unicode_IsControl :: "rune \<Rightarrow> bool" where
  "unicode_IsControl r = (r < 32 \<or> 127 \<le> r \<and> r < 160)"

definition trim_space :: "string \<Rightarrow> string" where
  "trim_space s =
     concat (rev (dropWhile (\<lambda>ch. unicode_IsSpace (chunk_rune ch))
       (rev (dropWhile (\<lambda>ch. unicode_IsSpace (chunk_rune ch)) (rune_chunks s)))))"

record unicode_tables =
  isDigit :: "rune \<Rightarrow> bool"
  isLetter :: "rune \<Rightarrow> bool"
  toLower :: "rune \<Rightarrow> rune"

definition ascii_tables :: unicode_tables where
  "ascii_tables =
     \<lparr>isDigit = (\<lambda>r. 48 \<le> r \<and> r \<le> 57),
      isLetter = (\<lambda>r. 65 \<le> r \<and> r \<le> 90 \<or> 97 \<le> r \<and> r \<le> 122),
      toLower = (\<lambda>r. if 65 \<le> r \<and> r \<le> 90 then r + 32 else r)\<rparr>"

text \<open>What every version of the Unicode tables says about ASCII.\<close>

definition ascii_conform :: "unicode_tables \<Rightarrow> bool" where
  "ascii_conform U = (\<forall>r < 128. isDigit U r = isDigit ascii_tables r
     \<and> isLetter U r = isLetter ascii_tables r \<and> toLower U r = toLower ascii_tables r)"

definition to_lower :: "unicode_tables \<Rightarrow> string \<Rightarrow> string" where
  "to_lower U s = concat (map (encode_rune \<circ> toLower U) (runes s))"

section \<open>Package strconv\<close>

definition digit_char :: "nat \<Rightarrow> char" where
  "digit_char d = char_of (48 + d)"

fun itoa_nat :: "nat \<Rightarrow> string" where
  "itoa_nat n = (if n < 10 then [digit_char n] else itoa_nat (n div 10) @ [digit_char (n mod 10)])"

declare itoa_nat.simps [simp del]

definition itoa :: "int \<Rightarrow> string" where
  "itoa i = (if i < 0 then CHR ''-'' # itoa_nat (nat (- i)) else itoa_nat (nat i))"

definition digits_val :: "string \<Rightarrow> nat" where
  "digits_val s = foldl (\<lambda>n c. 10 * n + (byte c - 48)) 0 s"

definition max_int64 :: int where
  "max_int64 = 9223372036854775807"

definition min_int64 :: int where
  "min_int64 = -9223372036854775808"

text \<open>\<open>strconv.Atoi\<close>: an optional sign, at least one digit, and a value that fits an \<open>int\<close>.\<close>

definition atoi :: "string \<Rightarrow> int option" where
  "atoi s =
     (let neg = (case s of c # _ \<Rightarrow> c = CHR ''-'' | [] \<Rightarrow> False);
          ds = (case s of c # r \<Rightarrow> if c = CHR ''-'' \<or> c = CHR ''+'' then r else s | [] \<Rightarrow> s);
          v = (if neg then - int (digits_val ds) else int (digits_val ds))
      in if ds \<noteq> [] \<and> list_all ascii_digit ds \<and> min_int64 \<le> v \<and> v \<le> max_int64
         then Some v else None)"

section \<open>Package net/url\<close>

text \<open>
  The parts of a parsed URL that the components look at; the last is the value of \<open>URL.EscapedPath\<close>.
  The parser is an argument of the definitions that parse a URL, and \<open>None\<close> is its error.
\<close>

record url_parts =
  url_Scheme :: string
  url_Opaque :: string
  url_HasUser :: bool
  url_Host :: string
  url_Path :: string
  url_RawQuery :: string
  url_ForceQuery :: bool
  url_Fragment :: string
  url_RawFragment :: string
  url_EscapedPath :: string

type_synonym url_parser = "string \<Rightarrow> url_parts option"

text \<open>\<open>URL.Hostname\<close>: the host without a numeric port and without brackets.\<close>

definition url_Hostname :: "url_parts \<Rightarrow> string" where
  "url_Hostname u =
     (let parts = split_on CHR '':'' (url_Host u);
          h = (if 2 \<le> length parts \<and> list_all ascii_digit (last parts)
               then join_with CHR '':'' (butlast parts) else url_Host u)
      in if prefix ''['' h \<and> suffix '']'' h then tl (butlast h) else h)"

text \<open>\<open>URL.Port\<close>: the numeric port, or nothing.\<close>

definition url_Port :: "url_parts \<Rightarrow> string" where
  "url_Port u =
     (let parts = split_on CHR '':'' (url_Host u)
      in if 2 \<le> length parts \<and> list_all ascii_digit (last parts) then last parts else [])"

definition hex_value :: "char \<Rightarrow> nat" where
  "hex_value c = (if ascii_digit c then byte c - 48 else if CHR ''a'' \<le> c then byte c - 87 else byte c - 55)"

text \<open>\<open>url.PathUnescape\<close>.\<close>

fun path_unescape :: "string \<Rightarrow> string option" where
  "path_unescape [] = Some []"
| "path_unescape (c # cs) =
     (if c = CHR ''%'' then
        (case cs of
           a # b # rest \<Rightarrow>
             if hex_char a \<and> hex_char b
             then map_option ((#) (char_of (16 * hex_value a + hex_value b))) (path_unescape rest)
             else None
         | _ \<Rightarrow> None)
      else map_option ((#) c) (path_unescape cs))"

section \<open>Package encoding/base64\<close>

text \<open>\<open>RawURLEncoding\<close>, and the strict decoders with and without padding.\<close>

definition b64_char :: "nat \<Rightarrow> char" where
  "b64_char n = (if n < 26 then char_of (65 + n) else if n < 52 then char_of (71 + n)
     else if n < 62 then char_of (n - 4) else if n = 62 then CHR ''-'' else CHR ''_'')"

definition b64_value :: "char \<Rightarrow> nat option" where
  "b64_value c =
     (if CHR ''A'' \<le> c \<and> c \<le> CHR ''Z'' then Some (byte c - 65)
      else if CHR ''a'' \<le> c \<and> c \<le> CHR ''z'' then Some (byte c - 71)
      else if CHR ''0'' \<le> c \<and> c \<le> CHR ''9'' then Some (byte c + 4)
      else if c = CHR ''-'' then Some 62 else if c = CHR ''_'' then Some 63 else None)"

fun b64_encode :: "string \<Rightarrow> string" where
  "b64_encode [] = []"
| "b64_encode [a] = [b64_char (byte a div 4), b64_char (byte a mod 4 * 16)]"
| "b64_encode [a, b] =
     [b64_char (byte a div 4), b64_char (byte a mod 4 * 16 + byte b div 16), b64_char (byte b mod 16 * 4)]"
| "b64_encode (a # b # c # rest) =
     b64_char (byte a div 4) # b64_char (byte a mod 4 * 16 + byte b div 16)
       # b64_char (byte b mod 16 * 4 + byte c div 64) # b64_char (byte c mod 64) # b64_encode rest"

fun b64_bytes :: "nat list \<Rightarrow> string option" where
  "b64_bytes [] = Some []"
| "b64_bytes [x] = None"
| "b64_bytes [x, y] = (if y mod 16 = 0 then Some [char_of (x * 4 + y div 16)] else None)"
| "b64_bytes [x, y, z] =
     (if z mod 4 = 0 then Some [char_of (x * 4 + y div 16), char_of (y mod 16 * 16 + z div 4)] else None)"
| "b64_bytes (x # y # z # w # rest) =
     map_option (\<lambda>bs. char_of (x * 4 + y div 16) # char_of (y mod 16 * 16 + z div 4) # char_of (z mod 4 * 64 + w) # bs)
       (b64_bytes rest)"

fun b64_values :: "string \<Rightarrow> nat list option" where
  "b64_values [] = Some []"
| "b64_values (c # cs) =
     (case (b64_value c, b64_values cs) of (Some v, Some vs) \<Rightarrow> Some (v # vs) | _ \<Rightarrow> None)"

definition b64_decode :: "string \<Rightarrow> string option" where
  "b64_decode s = (case b64_values s of None \<Rightarrow> None | Some vs \<Rightarrow> b64_bytes vs)"

definition b64_decode_padded :: "string \<Rightarrow> string option" where
  "b64_decode_padded s =
     (let padding = takeWhile (\<lambda>c. c = CHR ''='') (rev s)
      in if length s mod 4 \<noteq> 0 \<or> 2 < length padding then None
         else b64_decode (take (length s - length padding) s))"

section \<open>Package encoding/json\<close>

text \<open>
  A decoded value. An object keeps every member it is written with, so that a check for repeated names
  is meaningful; a text of several values is the list of them.
\<close>

datatype json =
    JNull
  | JBool bool
  | JNumber string
  | JString string
  | JArray "json list"
  | JObject "(string \<times> json) list"

fun json_unique :: "json \<Rightarrow> bool" where
  "json_unique (JObject ms) = (distinct (map fst ms) \<and> (\<forall>m \<in> set ms. json_unique (snd m)))"
| "json_unique (JArray vs) = (\<forall>v \<in> set vs. json_unique v)"
| "json_unique _ = True"

fun json_depth :: "json \<Rightarrow> nat" where
  "json_depth (JObject ms) = fold max (map (\<lambda>m. Suc (json_depth (snd m))) ms) 0"
| "json_depth (JArray vs) = fold max (map (\<lambda>v. Suc (json_depth v)) vs) 0"
| "json_depth _ = 0"

lemma fold_max_le: "fold max xs (a :: nat) \<le> n \<longleftrightarrow> a \<le> n \<and> (\<forall>x \<in> set xs. x \<le> n)"
  by (induction xs arbitrary: a) auto

lemma json_depth_le:
  "json_depth (JObject ms) \<le> n \<longleftrightarrow> (\<forall>m \<in> set ms. Suc (json_depth (snd m)) \<le> n)"
  "json_depth (JArray vs) \<le> n \<longleftrightarrow> (\<forall>v \<in> set vs. Suc (json_depth v) \<le> n)"
  by (simp_all add: fold_max_le)

section \<open>Package path\<close>

definition path_base :: "string \<Rightarrow> string" where
  "path_base p =
     (if p = [] then ''.''
      else let q = rev (dropWhile (\<lambda>c. c = CHR ''/'') (rev p));
               b = rev (takeWhile (\<lambda>c. c \<noteq> CHR ''/'') (rev q))
           in if b = [] then ''/'' else b)"

text \<open>\<open>path.Clean\<close> on the components: \<open>out\<close> is the cleaned prefix, last component first.\<close>

fun clean_comps :: "bool \<Rightarrow> string list \<Rightarrow> string list \<Rightarrow> string list" where
  "clean_comps rooted out [] = rev out"
| "clean_comps rooted out (x # xs) =
     (if x = [] \<or> x = ''.'' then clean_comps rooted out xs
      else if x = ''..'' then
        (case out of
           [] \<Rightarrow> clean_comps rooted (if rooted then [] else [''..'']) xs
         | y # ys \<Rightarrow>
             if y = ''..'' then clean_comps rooted (''..'' # out) xs
             else clean_comps rooted ys xs)
      else clean_comps rooted (x # out) xs)"

definition path_clean :: "string \<Rightarrow> string" where
  "path_clean p =
     (let rooted = prefix ''/'' p;
          body = join_with CHR ''/'' (clean_comps rooted [] (split_on CHR ''/'' p))
      in if rooted then CHR ''/'' # body else if body = [] then ''.'' else body)"

definition path_dir :: "string \<Rightarrow> string" where
  "path_dir p = path_clean (rev (dropWhile (\<lambda>c. c \<noteq> CHR ''/'') (rev p)))"

definition path_join :: "string list \<Rightarrow> string" where
  "path_join es =
     (let ne = filter (\<lambda>e. e \<noteq> []) es
      in if ne = [] then [] else path_clean (join_with CHR ''/'' ne))"

section \<open>Splitting and joining\<close>

lemma split_on_not_Nil [simp]: "split_on c s \<noteq> []"
  by (cases s) auto

lemma join_with_Cons: "ys \<noteq> [] \<Longrightarrow> join_with c (x # ys) = x @ c # join_with c ys"
  by (cases ys) auto

lemma join_split [simp, gostr_simps]: "join_with c (split_on c s) = s"
proof (induction s)
  case Nil
  then show ?case by simp
next
  case (Cons x xs)
  obtain y ys where split: "split_on c xs = y # ys"
    by (meson neq_Nil_conv split_on_not_Nil)
  with Cons show ?case
    by (cases ys) (auto simp: join_with_Cons)
qed

lemma split_on_free: "c \<notin> set p \<Longrightarrow> split_on c p = [p]"
  by (induction p) auto

lemma split_on_append: "c \<notin> set p \<Longrightarrow> split_on c (p @ c # s) = p # split_on c s"
  by (induction p) auto

lemma split_join [gostr_simps]:
  "ps \<noteq> [] \<Longrightarrow> \<forall>p \<in> set ps. c \<notin> set p \<Longrightarrow> split_on c (join_with c ps) = ps"
proof (induction ps rule: join_with.induct)
  case (3 c x y ys)
  then show ?case by (simp add: split_on_append)
qed (simp_all add: split_on_free)

lemma split_on_parts: "p \<in> set (split_on c s) \<Longrightarrow> c \<notin> set p"
proof (induction s arbitrary: p)
  case Nil
  then show ?case by simp
next
  case (Cons x xs)
  obtain y ys where split: "split_on c xs = y # ys"
    by (meson neq_Nil_conv split_on_not_Nil)
  with Cons show ?case by (auto split: if_splits)
qed

lemma split_on_snoc: "c \<notin> set t \<Longrightarrow> split_on c (s @ c # t) = split_on c s @ [t]"
  by (induction s) (auto simp: split_on_free)

lemma join_with_snoc: "ps \<noteq> [] \<Longrightarrow> join_with c (ps @ [t]) = join_with c ps @ c # t"
  by (induction ps rule: join_with.induct) auto

lemma length_split_on: "length (split_on c s) = Suc (count_list s c)"
  by (induction s) auto

lemma cut_at_split:
  "count_list s c = 1 \<Longrightarrow> split_on c s = [fst (cut_at c s), snd (cut_at c s)]"
proof (induction s)
  case Nil
  then show ?case by simp
next
  case (Cons x xs)
  then show ?case
    by (cases "x = c") (auto simp: cut_at_def split_on_free count_list_0_iff)
qed

lemma contains_iff: "contains s sub \<longleftrightarrow> (\<exists>us vs. s = us @ sub @ vs)"
proof (induction s)
  case Nil
  then show ?case by auto
next
  case (Cons x xs)
  then show ?case
    by (auto simp: prefix_def Cons_eq_append_conv)
qed

section \<open>Runes of ASCII text\<close>

definition ascii :: "string \<Rightarrow> bool" where
  "ascii s = list_all (\<lambda>c. byte c < 128) s"

lemma rune_len_ascii: "byte c < 128 \<Longrightarrow> rune_len (c # s) = 1"
  by (simp add: rune_len_def)

lemma rune_chunks_ascii: "ascii s \<Longrightarrow> rune_chunks s = map (\<lambda>c. [c]) s"
  by (induction s) (auto simp: ascii_def rune_len_ascii)

lemma runes_ascii: "ascii s \<Longrightarrow> runes s = map byte s"
  by (auto simp: runes_def rune_chunks_ascii chunk_rune_def rune_val_def ascii_def list_all_iff
      rune_len_ascii)

lemma valid_utf8_ascii: "ascii s \<Longrightarrow> valid_utf8 s"
  by (auto simp: valid_utf8_def rune_chunks_ascii ascii_def list_all_iff rune_len_ascii)

lemma concat_rune_chunks: "concat (rune_chunks s) = s"
  by (induction s rule: rune_chunks.induct) auto

lemma trim_space_ascii:
  assumes "ascii s"
  shows "trim_space s = rev (dropWhile (\<lambda>c. unicode_IsSpace (byte c))
           (rev (dropWhile (\<lambda>c. unicode_IsSpace (byte c)) s)))"
proof -
  have drop: "dropWhile (\<lambda>ch. unicode_IsSpace (chunk_rune ch)) (map (\<lambda>c. [c]) xs)
      = map (\<lambda>c. [c]) (dropWhile (\<lambda>c. unicode_IsSpace (byte c)) xs)" if "ascii xs" for xs
    using that by (induction xs) (auto simp: ascii_def chunk_rune_def rune_len_ascii rune_val_def)
  have "ascii (rev (dropWhile (\<lambda>c. unicode_IsSpace (byte c)) s))"
    using assms by (auto simp: ascii_def list_all_iff dest: set_dropWhileD)
  with assms show ?thesis
    by (simp add: trim_space_def rune_chunks_ascii drop rev_map)
qed

section \<open>Decimal numbers\<close>

lemma to_lower_id:
  assumes "ascii_conform U" and "\<forall>c \<in> set s. byte c < 128 \<and> \<not> (65 \<le> byte c \<and> byte c \<le> 90)"
  shows "to_lower U s = s" and "runes s = map byte s"
proof -
  show r: "runes s = map byte s" using assms(2) by (intro runes_ascii) (simp add: ascii_def list_all_iff)
  have "map (encode_rune \<circ> toLower U) (map byte s) = map (\<lambda>c. [c]) s"
    using assms by (auto simp: ascii_conform_def ascii_tables_def encode_rune_def)
  then show "to_lower U s = s" by (simp add: to_lower_def r del: map_map) 
qed

lemma trim_space_solid:
  assumes "ascii (c # s)" and "\<not> unicode_IsSpace (byte c)"
  shows "trim_space (c # s) \<noteq> []"
  using assms by (simp add: trim_space_ascii)

lemma digit_char_byte: "d < 10 \<Longrightarrow> byte (digit_char d) = 48 + d"
  by (simp add: digit_char_def)

lemma ascii_digit_byte: "ascii_digit c \<longleftrightarrow> 48 \<le> byte c \<and> byte c \<le> 57"
  by (simp add: ascii_digit_def less_eq_char_def)

lemma ascii_digit_digit_char: "d < 10 \<Longrightarrow> ascii_digit (digit_char d)"
  by (simp add: ascii_digit_byte digit_char_byte)

lemma itoa_nat_digits: "list_all ascii_digit (itoa_nat n)"
proof (induction n rule: itoa_nat.induct)
  case (1 n)
  then show ?case by (subst itoa_nat.simps) (auto simp: ascii_digit_digit_char)
qed

lemma itoa_nat_not_Nil [simp]: "itoa_nat n \<noteq> []"
  by (subst itoa_nat.simps) simp

lemma digits_val_snoc: "digits_val (s @ [c]) = 10 * digits_val s + (byte c - 48)"
  by (simp add: digits_val_def)

lemma digits_val_itoa [simp]: "digits_val (itoa_nat n) = n"
proof (induction n rule: itoa_nat.induct)
  case (1 n)
  show ?case
  proof (cases "n < 10")
    case True
    then show ?thesis
      by (subst itoa_nat.simps) (simp add: digits_val_def digit_char_byte)
  next
    case False
    with 1 show ?thesis
      by (subst itoa_nat.simps) (simp add: digits_val_snoc digit_char_byte)
  qed
qed

lemma atoi_digits:
  assumes "ds \<noteq> []" and "list_all ascii_digit ds"
  shows "atoi ds = (if int (digits_val ds) \<le> max_int64 then Some (int (digits_val ds)) else None)"
proof -
  obtain c r where ds: "ds = c # r" using assms(1) by (cases ds) auto
  with assms(2) have "c \<noteq> CHR ''-''" "c \<noteq> CHR ''+''"
    by (auto simp: ascii_digit_byte)
  with assms ds show ?thesis
    by (simp add: atoi_def min_int64_def Let_def)
qed

lemma atoi_itoa: "0 \<le> i \<Longrightarrow> i \<le> max_int64 \<Longrightarrow> atoi (itoa i) = Some i"
  by (simp add: itoa_def atoi_digits itoa_nat_digits)

lemma path_base_plain:
  assumes "s \<noteq> []" and "CHR ''/'' \<notin> set s"
  shows "path_base s = s"
proof -
  have "dropWhile (\<lambda>c. c = CHR ''/'') (rev s) = rev s"
    using assms by (cases "rev s") (auto simp: dropWhile_eq_self_iff)
  moreover have "takeWhile (\<lambda>c. c \<noteq> CHR ''/'') (rev s) = rev s"
    using assms(2) by (auto simp: takeWhile_eq_all_conv)
  ultimately show ?thesis unfolding path_base_def Let_def by (simp only: rev_rev_ident) (simp add: assms(1))
qed

lemma strings_Compare_antisym: "strings_Compare b a = - strings_Compare a b"
  by (auto simp: strings_Compare_def)

lemma strings_Compare_range: "strings_Compare a b \<in> {-1, 0, 1}"
  by (auto simp: strings_Compare_def)

section \<open>Texts in JSON\<close>

lemma rune_len_le: "rune_len s \<le> length s"
  by (auto simp: rune_len_def split: list.splits)

text \<open>The length of an encoding depends on its own bytes only.\<close>

lemma rune_len_local:
  assumes "rune_len s \<noteq> 0"
  shows "rune_len (take (rune_len s) s @ t) = rune_len s"
proof -
  obtain a r where s: "s = a # r" using assms by (cases s) (auto simp: rune_len_def)
  consider "byte a < 128" | "194 \<le> byte a" "byte a \<le> 223" | "224 \<le> byte a" "byte a \<le> 239" | "240 \<le> byte a" "byte a \<le> 244"
    using assms by (simp add: s rune_len_def split: if_splits)
  then show ?thesis
  proof cases
    case 1
    then show ?thesis by (simp add: s rune_len_def)
  next
    case 2
    with assms show ?thesis by (cases r) (simp_all add: s rune_len_def split: if_splits)
  next
    case 3
    obtain b c r' where r: "r = b # c # r'" using assms 3 by (simp add: s rune_len_def split: list.splits if_splits)
    then have "rune_len s = 3" using assms 3 by (simp add: s rune_len_def split: if_splits)
    with assms 3 show ?thesis unfolding s r by (simp add: rune_len_def numeral_3_eq_3)
  next
    case 4
    obtain b c d r' where r: "r = b # c # d # r'" using assms 4 by (simp add: s rune_len_def split: list.splits if_splits)
    then have "rune_len s = 4" using assms 4 by (simp add: s rune_len_def split: if_splits)
    with assms 4 show ?thesis unfolding s r by (simp add: rune_len_def numeral_eq_Suc)
  qed
qed

lemma rune_len_take: "rune_len (take (rune_len s) s) = rune_len s"
  using rune_len_local [of s "[]"] by (cases "rune_len s = 0") (simp_all add: rune_len_def)

lemma rune_len_append: "rune_len ch = length ch \<Longrightarrow> ch \<noteq> [] \<Longrightarrow> rune_len (ch @ s) = length ch"
  using rune_len_local [of ch s] by simp

lemma rune_len_chunk: "ch \<in> set (rune_chunks s) \<Longrightarrow> rune_len ch \<noteq> 0 \<Longrightarrow> rune_len ch = length ch"
proof (induction s rule: rune_chunks.induct)
  case (2 a s)
  show ?case
  proof (cases "rune_len (a # s) = 0")
    case True
    with 2 show ?thesis by (auto simp: rune_len_def split: if_splits)
  next
    case False
    with 2 show ?thesis using rune_len_take [of "a # s"] rune_len_le [of "a # s"]
      by (auto simp del: take_Suc_Cons)
  qed
qed simp

lemma rune_chunks_concat:
  assumes "\<forall>ch \<in> set chs. rune_len ch = length ch \<and> ch \<noteq> []"
  shows "rune_chunks (concat chs) = chs"
  using assms
proof (induction chs)
  case (Cons ch chs)
  then obtain a r where ch: "ch = a # r" "rune_len ch = length ch" by (cases ch) auto
  have "rune_len (ch @ concat chs) = length ch" using rune_len_append [of ch "concat chs"] ch by simp
  with ch Cons show ?case by simp
qed simp

lemma rune_len_replacement: "rune_len (encode_rune RuneError) = 3" "length (encode_rune RuneError) = 3"
  by (simp_all add: RuneError_def encode_rune_def rune_len_def utf8_cont_def)

lemma json_chunk_whole: "ch \<in> set (rune_chunks s) \<Longrightarrow> rune_len (json_chunk ch) = length (json_chunk ch) \<and> json_chunk ch \<noteq> []"
  using rune_len_chunk [of ch s] rune_len_replacement by (auto simp: json_chunk_def)

lemma json_text_chunks: "rune_chunks (json_text s) = map json_chunk (rune_chunks s)"
  unfolding json_text_def by (rule rune_chunks_concat) (auto dest: json_chunk_whole)

lemma json_text_idem [simp]: "json_text (json_text s) = json_text s"
proof -
  have "json_chunk (json_chunk ch) = json_chunk ch" if "ch \<in> set (rune_chunks s)" for ch
    using json_chunk_whole [OF that] by (simp add: json_chunk_def [of "json_chunk ch"])
  then have "map json_chunk (map json_chunk (rune_chunks s)) = map json_chunk (rune_chunks s)" by simp
  then show ?thesis by (simp only: json_text_def [of "json_text s"] json_text_chunks) (simp only: json_text_def)
qed

lemma json_text_empty [simp]: "json_text s = [] \<longleftrightarrow> s = []"
proof
  assume "json_text s = []"
  then have "map json_chunk (rune_chunks s) = []" using json_text_chunks [of s] by simp
  then show "s = []" using concat_rune_chunks [of s] by simp
qed (simp add: json_text_def)

section \<open>Base64\<close>

lemma b64_value_char: "n < 64 \<Longrightarrow> b64_value (b64_char n) = Some n"
  by (auto simp: b64_value_def b64_char_def less_eq_char_def)

lemma byte_less: "byte c < 256"
  by (cases c) (simp add: of_char_def horner_sum_of_bool_2_less)

lemma byte_div_less: "byte c div 4 < 64" "byte c div 16 < 16" "byte c div 64 < 4"
  using byte_less [of c] by linarith+

text \<open>A byte that is cut between two digits is put together again.\<close>

lemma byte_parts:
  "d < 16 \<Longrightarrow> byte c div 4 * 4 + (byte c mod 4 * 16 + d) div 16 = byte c"
  "d < 16 \<Longrightarrow> (byte c mod 4 * 16 + d) mod 16 = d"
  "d < 4 \<Longrightarrow> (byte c mod 16 * 4 + d) div 4 = byte c mod 16"
  "d < 4 \<Longrightarrow> (byte c mod 16 * 4 + d) mod 4 = d"
  by simp_all

lemma b64_decode_encode: "b64_decode (b64_encode s) = Some s"
proof (induction s rule: b64_encode.induct)
  case (2 a)
  have "byte a div 4 < 64" "byte a mod 4 * 16 < 64" using byte_less [of a] by linarith+
  then show ?case by (simp add: b64_decode_def b64_value_char)
next
  case (3 a b)
  have "byte a div 4 < 64" "byte a mod 4 * 16 + byte b div 16 < 64" "byte b mod 16 * 4 < 64"
    using byte_less [of a] byte_less [of b] by linarith+
  then show ?case by (simp add: b64_decode_def b64_value_char byte_parts byte_div_less)
next
  case (4 a b c rest)
  have "byte a div 4 < 64" "byte a mod 4 * 16 + byte b div 16 < 64" "byte b mod 16 * 4 + byte c div 64 < 64" "byte c mod 64 < 64"
    using byte_less [of a] byte_less [of b] byte_less [of c] by linarith+
  then show ?case using 4 by (simp add: b64_decode_def b64_value_char byte_parts byte_div_less split: option.splits)
qed (simp add: b64_decode_def)

lemma b64_values_Some: "b64_values s = Some vs \<Longrightarrow> c \<in> set s \<Longrightarrow> b64_value c \<noteq> None"
  by (induction s arbitrary: vs) (auto split: option.splits)

lemma b64_encode_values: "c \<in> set (b64_encode s) \<Longrightarrow> b64_value c \<noteq> None"
  using b64_decode_encode [of s] b64_values_Some [of "b64_encode s"] by (auto simp: b64_decode_def split: option.splits)

lemma b64_encode_empty [simp]: "b64_encode s = [] \<longleftrightarrow> s = []"
  by (cases s rule: b64_encode.cases) auto

end
