(* ===== verification/Topo.thy ===== *)
theory Topo
  imports Prelude
begin

text \<open>
  The depth-first search that orders a dependency closure. The core resolver
  (\<open>internal/resolver/resolver.go\<close>, \<open>topoOrder\<close>) and the public-tap resolver
  (\<open>internal/catalogresolver/resolver.go\<close>, \<open>topo\<close>) hold the same recursive \<open>visit\<close> closure over a
  map of states (1 on the stack, 2 done), a stack and an order; the metadata catalog
  (\<open>internal/homebrew/metadata/catalog.go\<close>, \<open>validateDependencyCycles\<close>) holds it with a map of
  stack positions. \<open>visits\<close> is the loop \<open>for dep in deps: visit(dep)\<close> with the body of \<open>visit\<close>
  written out, and its error is the cycle the code prints.

  The locale \<open>dependency_order\<close> is what their callers rely on: an order that lists exactly what the
  roots reach, dependencies first, or a cycle that is really there. It is interpreted here for the
  search itself and in the component theories for the orders built with it.
\<close>

section \<open>Graphs and orders\<close>

type_synonym 'a graph = "('a, 'a list) gomap"

definition deps :: "'a graph \<Rightarrow> 'a \<Rightarrow> 'a list" where
  "deps g n = (case mget g n of None \<Rightarrow> [] | Some ds \<Rightarrow> ds)"

definition edge_rel :: "('a \<Rightarrow> 'a list) \<Rightarrow> ('a \<times> 'a) set" where
  "edge_rel succs = {(a, b). b \<in> set (succs a)}"

definition reachable :: "('a \<Rightarrow> 'a list) \<Rightarrow> 'a list \<Rightarrow> 'a set" where
  "reachable succs roots = (edge_rel succs)\<^sup>* `` set roots"

definition deps_first :: "('a \<Rightarrow> 'a list) \<Rightarrow> 'a list \<Rightarrow> bool" where
  "deps_first succs order = (\<forall>i < length order. set (succs (order ! i)) \<subseteq> set (take i order))"

definition is_cycle :: "('a \<Rightarrow> 'a list) \<Rightarrow> 'a list \<Rightarrow> bool" where
  "is_cycle succs cyc =
     (2 \<le> length cyc \<and> hd cyc = last cyc \<and> successively (\<lambda>a b. b \<in> set (succs a)) cyc)"

section \<open>The search\<close>

text \<open>The states 1 and 2 of a node; a node without an entry reads as 0, not visited.\<close>

datatype mark = OnStack | Finished

record 'a dfs =
  dfs_state :: "('a, mark) gomap"
  dfs_stack :: "'a list"
  dfs_order :: "'a list"

definition dfs_empty :: "'a dfs" where
  "dfs_empty = \<lparr>dfs_state = [], dfs_stack = [], dfs_order = []\<rparr>"

text \<open>\<open>slices.Index\<close>, with the result \<open>-1\<close> as \<open>None\<close>.\<close>

fun slices_Index :: "'a list \<Rightarrow> 'a \<Rightarrow> nat option" where
  "slices_Index [] x = None"
| "slices_Index (y # ys) x = (if y = x then Some 0 else map_option Suc (slices_Index ys x))"

definition cycle_path :: "'a list \<Rightarrow> 'a \<Rightarrow> 'a list" where
  "cycle_path stk n = (case slices_Index stk n of None \<Rightarrow> stk | Some i \<Rightarrow> drop i stk) @ [n]"

definition enter :: "'a \<Rightarrow> 'a dfs \<Rightarrow> 'a dfs" where
  "enter n s = s\<lparr>dfs_state := mput n OnStack (dfs_state s), dfs_stack := dfs_stack s @ [n]\<rparr>"

definition leave :: "'a \<Rightarrow> 'a dfs \<Rightarrow> 'a dfs" where
  "leave n s = s\<lparr>dfs_stack := butlast (dfs_stack s), dfs_state := mput n Finished (dfs_state s),
                 dfs_order := dfs_order s @ [n]\<rparr>"

function visits :: "'a graph \<Rightarrow> 'a list \<Rightarrow> 'a dfs \<Rightarrow> ('a list, 'a dfs) result" where
  "visits g [] s = Inr s"
| "visits g (n # ns) s =
     (if mget (dfs_state s) n = Some OnStack then Inl (cycle_path (dfs_stack s) n)
      else if mget (dfs_state s) n = Some Finished then visits g ns s
      else (case visits g (deps g n) (enter n s) of
              Inl e \<Rightarrow> Inl e
            | Inr s' \<Rightarrow> visits g ns (leave n s')))"
  by pat_completeness auto

text \<open>
  The search only ever marks more nodes, which is what its termination needs: every recursive call
  either marks a node of the graph or has a shorter list of nodes to visit.
\<close>

lemma visits_marks:
  "visits_dom (g, ns, s) \<Longrightarrow> visits g ns s = Inr s' \<Longrightarrow>
     fst ` set (dfs_state s) \<subseteq> fst ` set (dfs_state s')"
proof (induction g ns s arbitrary: s' rule: visits.pinduct)
  case (1 g s)
  then show ?case by (simp add: visits.psimps)
next
  case (2 g n ns s)
  show ?case
  proof (cases "mget (dfs_state s) n = Some OnStack \<or> mget (dfs_state s) n = Some Finished")
    case True
    with 2 show ?thesis by (auto simp: visits.psimps split: if_splits)
  next
    case False
    with 2 obtain t where t: "visits g (deps g n) (enter n s) = Inr t"
      and s': "visits g ns (leave n t) = Inr s'"
      by (auto simp: visits.psimps split: sum.splits)
    from 2(3) [OF _ _ t] False have "fst ` set (dfs_state s) \<subseteq> fst ` set (dfs_state t)"
      by (auto simp: enter_def)
    moreover from 2(4) [OF _ _ t s'] False
    have "fst ` set (dfs_state t) \<subseteq> fst ` set (dfs_state s')" by (auto simp: leave_def)
    ultimately show ?thesis by blast
  qed
qed

definition unmarked :: "'a graph \<Rightarrow> ('a, mark) gomap \<Rightarrow> nat" where
  "unmarked g st = card (fst ` set g - fst ` set st)"

lemma unmarked_mono: "fst ` set st \<subseteq> fst ` set st' \<Longrightarrow> unmarked g st' \<le> unmarked g st"
  unfolding unmarked_def by (intro card_mono) auto

text \<open>Marking a new node either uses up a node of the graph or the node has nothing to visit.\<close>

lemma unmarked_mput:
  assumes "mget st n = None"
  shows "unmarked g (mput n m st) < unmarked g st \<or>
    unmarked g (mput n m st) \<le> unmarked g st \<and> deps g n = []"
proof (cases "deps g n = []")
  case True
  moreover have "unmarked g (mput n m st) \<le> unmarked g st" by (rule unmarked_mono) auto
  ultimately show ?thesis by simp
next
  case False
  then have "n \<in> fst ` set g - fst ` set st"
    using assms
    by (auto simp: deps_def map_of_eq_None_iff dest: map_of_SomeD split: option.splits
        intro: rev_image_eqI)
  then have "unmarked g (mput n m st) < unmarked g st"
    unfolding unmarked_def by (intro psubset_card_mono) auto
  then show ?thesis by simp
qed

termination visits
proof (relation "measures [\<lambda>(g, ns, s). unmarked g (dfs_state s), \<lambda>(g, ns, s). length ns]", goal_cases)
  case (3 g n ns s)
  then have "mget (dfs_state s) n = None"
    by (cases "mget (dfs_state s) n") (auto intro: mark.exhaust)
  from unmarked_mput [OF this, of g OnStack] show ?case by (auto simp: enter_def)
next
  case (4 g n ns s t)
  then have "fst ` set (dfs_state (enter n s)) \<subseteq> fst ` set (dfs_state t)" by (intro visits_marks)
  then have "unmarked g (dfs_state (leave n t)) \<le> unmarked g (dfs_state s)"
    by (intro unmarked_mono) (auto simp: enter_def leave_def)
  then show ?case by auto
qed auto

text \<open>Visiting the roots one after another in the outer loop is the same loop from the empty state.\<close>

definition topological :: "'a graph \<Rightarrow> 'a list \<Rightarrow> ('a list, 'a list) result" where
  "topological g roots =
     (case visits g roots dfs_empty of Inl cyc \<Rightarrow> Inl cyc | Inr s \<Rightarrow> Inr (dfs_order s))"

section \<open>Facts about orders, cycles and reachability\<close>

lemma deps_first_Nil [simp]: "deps_first succs []"
  by (simp add: deps_first_def)

lemma deps_first_snoc [simp]:
  "deps_first succs (order @ [n]) \<longleftrightarrow> deps_first succs order \<and> set (succs n) \<subseteq> set order"
  by (auto simp: deps_first_def nth_append less_Suc_eq)

lemma deps_first_closed:
  "deps_first succs order \<Longrightarrow> n \<in> set order \<Longrightarrow> d \<in> set (succs n) \<Longrightarrow> d \<in> set order"
  unfolding deps_first_def by (metis in_set_conv_nth in_set_takeD subsetD)

lemma reachable_root: "n \<in> set roots \<Longrightarrow> n \<in> reachable succs roots"
  by (auto simp: reachable_def)

lemma reachable_step: "n \<in> reachable succs roots \<Longrightarrow> d \<in> set (succs n) \<Longrightarrow> d \<in> reachable succs roots"
  by (auto simp: reachable_def edge_rel_def intro: rtrancl_into_rtrancl)

lemma reachable_least:
  assumes "set roots \<subseteq> S" and "\<And>n d. n \<in> S \<Longrightarrow> d \<in> set (succs n) \<Longrightarrow> d \<in> S"
  shows "reachable succs roots \<subseteq> S"
proof
  fix n assume "n \<in> reachable succs roots"
  then obtain r where r: "r \<in> set roots" "(r, n) \<in> (edge_rel succs)\<^sup>*" by (auto simp: reachable_def)
  from r(2) show "n \<in> S"
  proof (induction rule: rtrancl_induct)
    case base
    then show ?case using r(1) assms(1) by blast
  next
    case (step y z)
    then show ?case using assms(2) [of y z] by (simp add: edge_rel_def)
  qed
qed

lemma reachable_mono: "set roots \<subseteq> reachable succs roots' \<Longrightarrow> reachable succs roots \<subseteq> reachable succs roots'"
  by (rule reachable_least) (auto intro: reachable_step)

lemma reachable_Cons:
  "reachable succs ns \<subseteq> reachable succs (n # ns)"
  "reachable succs (succs n) \<subseteq> reachable succs (n # ns)"
proof -
  show "reachable succs ns \<subseteq> reachable succs (n # ns)"
    by (rule reachable_mono) (auto intro: reachable_root)
  have "n \<in> reachable succs (n # ns)" by (simp add: reachable_root)
  then show "reachable succs (succs n) \<subseteq> reachable succs (n # ns)"
    by (intro reachable_mono) (auto intro: reachable_step)
qed

lemma reachable_cong:
  assumes "\<And>n. n \<in> reachable succs roots \<Longrightarrow> set (succs n) = set (succs' n)"
  shows "reachable succs' roots = reachable succs roots"
proof
  show "reachable succs' roots \<subseteq> reachable succs roots"
    by (rule reachable_least) (auto intro: reachable_root reachable_step simp: assms)
  have "reachable succs roots \<subseteq> reachable succs' roots \<inter> reachable succs roots"
    by (rule reachable_least) (auto intro: reachable_root reachable_step simp: assms)
  then show "reachable succs roots \<subseteq> reachable succs' roots" by blast
qed

lemma deps_first_cong:
  "(\<And>n. n \<in> set order \<Longrightarrow> set (succs n) = set (succs' n)) \<Longrightarrow> deps_first succs order = deps_first succs' order"
  by (simp add: deps_first_def)

lemma is_cycle_mono:
  assumes "is_cycle succs cyc" and "\<And>n. set (succs n) \<subseteq> set (succs' n)"
  shows "is_cycle succs' cyc"
proof -
  have "successively (\<lambda>a b. b \<in> set (succs' a)) cyc"
    using assms by (auto simp: is_cycle_def intro: successively_mono)
  with assms(1) show ?thesis by (simp add: is_cycle_def)
qed

lemma slices_Index_Some: "n \<in> set stk \<Longrightarrow> \<exists>i < length stk. slices_Index stk n = Some i \<and> stk ! i = n"
  by (induction stk) force+

lemma slices_Index_None: "n \<notin> set stk \<Longrightarrow> slices_Index stk n = None"
  by (induction stk) auto

lemma cycle_path_cycle:
  assumes "successively (\<lambda>a b. b \<in> set (succs a)) stk" and "n \<in> set stk"
    and "n \<in> set (succs (last stk))"
  shows "is_cycle succs (cycle_path stk n)" and "set (cycle_path stk n) \<subseteq> set stk"
proof -
  obtain i where i: "i < length stk" "slices_Index stk n = Some i" "stk ! i = n"
    using slices_Index_Some [OF assms(2)] by blast
  then have path: "cycle_path stk n = drop i stk @ [n]" by (simp add: cycle_path_def)
  have "successively (\<lambda>a b. b \<in> set (succs a)) (drop i stk)"
    using assms(1) successively_append_iff [of _ "take i stk" "drop i stk"] by simp
  then have "successively (\<lambda>a b. b \<in> set (succs a)) (drop i stk @ [n])"
    using assms(3) i(1) by (auto simp: successively_append_iff)
  then show "is_cycle succs (cycle_path stk n)"
    unfolding is_cycle_def path using i by (simp add: hd_append hd_drop_conv_nth)
  show "set (cycle_path stk n) \<subseteq> set stk" unfolding path using assms(2) set_drop_subset by fastforce
qed

section \<open>The search invariant\<close>

definition dfs_inv :: "'a graph \<Rightarrow> 'a dfs \<Rightarrow> bool" where
  "dfs_inv g s \<longleftrightarrow>
     (\<forall>n. mget (dfs_state s) n = Some OnStack \<longleftrightarrow> n \<in> set (dfs_stack s)) \<and>
     (\<forall>n. mget (dfs_state s) n = Some Finished \<longleftrightarrow> n \<in> set (dfs_order s)) \<and>
     distinct (dfs_stack s) \<and> distinct (dfs_order s) \<and>
     successively (\<lambda>a b. b \<in> set (deps g a)) (dfs_stack s) \<and> deps_first (deps g) (dfs_order s)"

text \<open>The nodes a call is given are dependencies of the node on top of the stack.\<close>

definition from_top :: "'a graph \<Rightarrow> 'a list \<Rightarrow> 'a dfs \<Rightarrow> bool" where
  "from_top g ns s \<longleftrightarrow> dfs_stack s = [] \<or> set ns \<subseteq> set (deps g (last (dfs_stack s)))"

lemma dfs_inv_empty: "dfs_inv g dfs_empty"
  by (simp add: dfs_inv_def dfs_empty_def)

lemma dfs_inv_disjoint: "dfs_inv g s \<Longrightarrow> set (dfs_stack s) \<inter> set (dfs_order s) = {}"
  unfolding dfs_inv_def by (metis disjoint_iff mark.distinct(1) option.inject)

lemma dfs_inv_enter:
  assumes "dfs_inv g s" and "from_top g (n # ns) s" and "mget (dfs_state s) n = None"
  shows "dfs_inv g (enter n s)" and "from_top g (deps g n) (enter n s)"
    and "dfs_stack (enter n s) = dfs_stack s @ [n]" and "dfs_order (enter n s) = dfs_order s"
proof -
  have new: "n \<notin> set (dfs_stack s)" "n \<notin> set (dfs_order s)"
    using assms(1,3) unfolding dfs_inv_def by (metis option.distinct(1))+
  show "dfs_inv g (enter n s)"
    using assms new unfolding dfs_inv_def enter_def from_top_def
    by (auto simp: successively_append_iff)
qed (simp_all add: enter_def from_top_def)

lemma dfs_inv_leave:
  assumes "dfs_inv g t" and "dfs_stack t = stk @ [n]" and "set (deps g n) \<subseteq> set (dfs_order t)"
  shows "dfs_inv g (leave n t)" and "dfs_stack (leave n t) = stk"
    and "dfs_order (leave n t) = dfs_order t @ [n]"
proof -
  have "n \<notin> set (dfs_order t)" using dfs_inv_disjoint [OF assms(1)] assms(2) by auto
  with assms show "dfs_inv g (leave n t)"
    unfolding dfs_inv_def leave_def by (auto simp: successively_append_iff)
qed (simp_all add: leave_def assms(2))

lemma visits_Inr:
  assumes "visits g ns s = Inr s'" and "dfs_inv g s" and "from_top g ns s"
  shows "dfs_inv g s' \<and> dfs_stack s' = dfs_stack s \<and> set ns \<subseteq> set (dfs_order s')
    \<and> set (dfs_order s) \<subseteq> set (dfs_order s')
    \<and> set (dfs_order s') \<subseteq> set (dfs_order s) \<union> reachable (deps g) ns"
  using assms
proof (induction g ns s arbitrary: s' rule: visits.induct)
  case (1 g s)
  then show ?case by simp
next
  case (2 g n ns s)
  note more = reachable_Cons [where succs = "deps g" and ns = ns and n = n]
  have n: "n \<in> reachable (deps g) (n # ns)" by (simp add: reachable_root)
  have tail: "from_top g ns s" using "2.prems"(3) by (auto simp: from_top_def)
  have marks: "mget (dfs_state s) n \<noteq> Some OnStack" using "2.prems"(1) by auto
  show ?case
  proof (cases "mget (dfs_state s) n")
    case (Some m)
    with marks have fin: "mget (dfs_state s) n = Some Finished" by (cases m) simp_all
    with "2.prems"(1) have "visits g ns s = Inr s'" by simp
    from "2.IH"(1) [OF marks fin this "2.prems"(2) tail] fin more(1) "2.prems"(2) show ?thesis
      unfolding dfs_inv_def by auto
  next
    case None
    with "2.prems"(1) obtain t where t: "visits g (deps g n) (enter n s) = Inr t"
      and s': "visits g ns (leave n t) = Inr s'" by (auto split: sum.splits)
    note enter = dfs_inv_enter [OF "2.prems"(2,3) None]
    have fresh: "mget (dfs_state s) n \<noteq> Some Finished" using None by simp
    note t_ok = "2.IH"(2) [OF marks fresh t enter(1,2), unfolded enter(3,4)]
    note leave = dfs_inv_leave [of g t "dfs_stack s" n]
    have l: "dfs_inv g (leave n t)" "dfs_stack (leave n t) = dfs_stack s"
      "dfs_order (leave n t) = dfs_order t @ [n]" using leave t_ok by auto
    have "from_top g ns (leave n t)" using tail by (simp add: from_top_def l)
    from "2.IH"(3) [OF marks fresh t s' l(1) this]
    have s'_ok: "dfs_inv g s'" "dfs_stack s' = dfs_stack s" "set ns \<subseteq> set (dfs_order s')"
      "insert n (set (dfs_order t)) \<subseteq> set (dfs_order s')"
      "set (dfs_order s') \<subseteq> insert n (set (dfs_order t)) \<union> reachable (deps g) ns"
      by (auto simp: l)
    moreover have "set (dfs_order s') \<subseteq> set (dfs_order s) \<union> reachable (deps g) (n # ns)"
      using s'_ok(5) t_ok n more by blast
    ultimately show ?thesis using t_ok by auto
  qed
qed

lemma visits_Inl:
  assumes "visits g ns s = Inl cyc" and "dfs_inv g s" and "from_top g ns s"
  shows "is_cycle (deps g) cyc \<and> set cyc \<subseteq> set (dfs_stack s) \<union> reachable (deps g) ns"
  using assms
proof (induction g ns s arbitrary: cyc rule: visits.induct)
  case (1 g s)
  then show ?case by simp
next
  case (2 g n ns s)
  note more = reachable_Cons [where succs = "deps g" and ns = ns and n = n]
  have n: "n \<in> reachable (deps g) (n # ns)" by (simp add: reachable_root)
  have tail: "from_top g ns s" using "2.prems"(3) by (auto simp: from_top_def)
  consider "mget (dfs_state s) n = Some OnStack" | "mget (dfs_state s) n = Some Finished"
    | "mget (dfs_state s) n = None" by (metis mark.exhaust not_None_eq)
  then show ?case
  proof cases
    case 1
    with "2.prems" have cyc: "cyc = cycle_path (dfs_stack s) n" and mem: "n \<in> set (dfs_stack s)"
      unfolding dfs_inv_def by auto
    then have "n \<in> set (deps g (last (dfs_stack s)))" using "2.prems"(3) by (auto simp: from_top_def)
    with cycle_path_cycle [of "deps g", OF _ mem this] "2.prems"(2) show ?thesis unfolding dfs_inv_def cyc by auto
  next
    case 2
    with "2.prems"(1) have "visits g ns s = Inl cyc" by simp
    from "2.IH"(1) [OF _ 2 this "2.prems"(2) tail] 2 more show ?thesis by auto
  next
    case 3
    note enter = dfs_inv_enter [OF "2.prems"(2,3) 3]
    have fresh: "mget (dfs_state s) n \<noteq> Some OnStack" "mget (dfs_state s) n \<noteq> Some Finished"
      using 3 by simp_all
    show ?thesis
    proof (cases "visits g (deps g n) (enter n s)")
      case (Inl e)
      with "2.prems"(1) 3 have "e = cyc" by simp
      from "2.IH"(2) [OF fresh Inl enter(1,2), unfolded enter(3) this] n more show ?thesis by auto
    next
      case (Inr t)
      with "2.prems"(1) 3 have s': "visits g ns (leave n t) = Inl cyc" by simp
      note t_ok = visits_Inr [OF Inr enter(1,2), unfolded enter(3,4)]
      have l: "dfs_inv g (leave n t)" "dfs_stack (leave n t) = dfs_stack s"
        using dfs_inv_leave [of g t "dfs_stack s" n] t_ok by auto
      then have "from_top g ns (leave n t)" using tail by (simp add: from_top_def)
      from "2.IH"(3) [OF fresh Inr s' l(1) this] more show ?thesis by (auto simp: l)
    qed
  qed
qed

lemma visits_append:
  "visits g (xs @ ys) s = (case visits g xs s of Inl e \<Rightarrow> Inl e | Inr s' \<Rightarrow> visits g ys s')"
  by (induction xs arbitrary: s) (auto split: sum.split)

section \<open>What a dependency order promises\<close>

lemma deps_first_no_cycle:
  assumes "distinct order" and "deps_first succs order"
    and "is_cycle succs cyc" and "set cyc \<subseteq> set order"
  shows False
proof -
  define pos where "pos = (\<lambda>n. THE i. i < length order \<and> order ! i = n)"
  have pos: "pos (order ! i) = i" if "i < length order" for i
    unfolding pos_def using that assms(1) by (auto simp: nth_eq_iff_index_eq)
  have down: "pos b < pos a" if ab: "a \<in> set order" "b \<in> set (succs a)" for a b
  proof -
    obtain i where i: "i < length order" "order ! i = a" using ab(1) by (auto simp: in_set_conv_nth)
    with assms(2) ab(2) have "b \<in> set (take i order)" unfolding deps_first_def by auto
    then obtain j where "j < i" "order ! j = b" using i(1) by (auto simp: in_set_conv_nth)
    with pos i show ?thesis by force
  qed
  have "successively (\<lambda>a b. pos b < pos a) cyc"
    using assms(3,4) down unfolding is_cycle_def by (auto elim!: successively_mono)
  then have "sorted_wrt (\<lambda>a b. pos b < pos a) cyc"
    by (subst (asm) successively_conv_sorted_wrt) (auto intro!: transpI)
  then have "pos (last cyc) < pos (hd cyc)"
    using assms(3) unfolding is_cycle_def
    by (cases cyc rule: rev_cases) (auto simp: sorted_wrt_append hd_append split: if_splits)
  with assms(3) show False unfolding is_cycle_def by simp
qed

lemma cycle_in_graph:
  assumes "is_cycle (deps g) cyc"
  shows "set cyc \<subseteq> fst ` set g"
proof
  fix n assume "n \<in> set cyc"
  from assms have len: "2 \<le> length cyc" and ends: "hd cyc = last cyc"
    and succ: "\<And>i. Suc i < length cyc \<Longrightarrow> cyc ! Suc i \<in> set (deps g (cyc ! i))"
    by (auto simp: is_cycle_def successively_conv_nth)
  obtain i where i: "Suc i < length cyc" "cyc ! i = n"
  proof -
    obtain j where j: "j < length cyc" "cyc ! j = n" using \<open>n \<in> set cyc\<close> by (auto simp: in_set_conv_nth)
    show thesis
    proof (cases "Suc j < length cyc")
      case False
      with j have "n = last cyc" by (metis Suc_lessI diff_Suc_1 last_conv_nth length_0_conv not_less0)
      with ends len have "cyc ! 0 = n" by (metis hd_conv_nth list.size(3) not_numeral_le_zero)
      with that [of 0] len show thesis by simp
    qed (use j that in blast)
  qed
  from succ [OF i(1)] i(2) have "deps g n \<noteq> []" by auto
  then show "n \<in> fst ` set g"
    by (auto simp: deps_def dest: map_of_SomeD split: option.splits intro: rev_image_eqI)
qed

locale dependency_order =
  fixes succs :: "'g \<Rightarrow> 'a \<Rightarrow> 'a list"
    and order_of :: "'g \<Rightarrow> 'a list \<Rightarrow> ('a list, 'a list) result"
  assumes order_Inr: "order_of g roots = Inr order \<Longrightarrow>
      distinct order \<and> set order = reachable (succs g) roots \<and> deps_first (succs g) order"
    and order_Inl: "order_of g roots = Inl cyc \<Longrightarrow>
      is_cycle (succs g) cyc \<and> set cyc \<subseteq> reachable (succs g) roots"
begin

lemma root_ordered: "order_of g roots = Inr order \<Longrightarrow> r \<in> set roots \<Longrightarrow> r \<in> set order"
  using order_Inr [of g roots order] by (auto intro: reachable_root)

lemma dependency_before:
  assumes "order_of g roots = Inr order" and "i < length order" and "d \<in> set (succs g (order ! i))"
  shows "\<exists>j < i. order ! j = d"
proof -
  have "d \<in> set (take i order)"
    using order_Inr [OF assms(1)] assms(2,3) unfolding deps_first_def by auto
  then show ?thesis using assms(2) by (auto simp: in_set_conv_nth)
qed

text \<open>The order exists exactly where the roots reach no cycle.\<close>

lemma succeeds_iff_acyclic:
  "is_ok (order_of g roots) \<longleftrightarrow>
     \<not> (\<exists>cyc. is_cycle (succs g) cyc \<and> set cyc \<subseteq> reachable (succs g) roots)"
proof (cases "order_of g roots")
  case (Inl cyc)
  with order_Inl [OF Inl] show ?thesis by auto
next
  case (Inr order)
  with order_Inr [OF Inr] deps_first_no_cycle [of order "succs g"] show ?thesis by auto
qed

end

lemma topological_Inr:
  assumes "topological g roots = Inr order"
  shows "distinct order \<and> set order = reachable (deps g) roots \<and> deps_first (deps g) order"
proof -
  obtain s where s: "visits g roots dfs_empty = Inr s" and order: "order = dfs_order s"
    using assms by (auto simp: topological_def split: sum.splits)
  have "from_top g roots dfs_empty" by (simp add: from_top_def dfs_empty_def)
  from visits_Inr [OF s dfs_inv_empty this]
  have ok: "distinct order" "deps_first (deps g) order" "set roots \<subseteq> set order"
    "set order \<subseteq> reachable (deps g) roots" by (auto simp: order dfs_inv_def dfs_empty_def)
  moreover have "reachable (deps g) roots \<subseteq> set order"
    using ok by (intro reachable_least) (auto dest: deps_first_closed)
  ultimately show ?thesis by blast
qed

lemma topological_Inl:
  assumes "topological g roots = Inl cyc"
  shows "is_cycle (deps g) cyc \<and> set cyc \<subseteq> reachable (deps g) roots"
proof -
  have "visits g roots dfs_empty = Inl cyc" "from_top g roots dfs_empty"
    using assms by (auto simp: topological_def from_top_def dfs_empty_def split: sum.splits)
  from visits_Inl [OF this(1) dfs_inv_empty this(2)] show ?thesis by (simp add: dfs_empty_def)
qed

interpretation dfs: dependency_order deps topological
  by unfold_locales (auto dest: topological_Inr topological_Inl)

section \<open>Marking what is reachable\<close>

text \<open>
  \<open>resolution.Validate\<close> marks reachable nodes with a recursive \<open>walk\<close> that does nothing after its
  recursive calls, so the pending calls are a list of names: the dependencies of a new node go in
  front of what is left.
\<close>

function walk :: "'a graph \<Rightarrow> 'a list \<Rightarrow> 'a list \<Rightarrow> 'a list" where
  "walk g [] marked = marked"
| "walk g (n # ns) marked =
     (if n \<in> set marked then walk g ns marked else walk g (deps g n @ ns) (marked @ [n]))"
  by pat_completeness auto
termination
proof (relation "measures [\<lambda>(g, ns, marked). card (fst ` set g - set marked), \<lambda>(g, ns, marked). length ns]",
    goal_cases)
  case (3 g n ns marked)
  show ?case
  proof (cases "n \<in> fst ` set g")
    case True
    with 3 have "n \<in> fst ` set g - set marked" by simp
    then have "card (fst ` set g - set (marked @ [n])) < card (fst ` set g - set marked)"
      by (intro psubset_card_mono) auto
    then show ?thesis by simp
  next
    case False
    then have "deps g n = []" by (simp add: deps_def map_of_eq_None_iff [THEN iffD2])
    moreover have "fst ` set g - set (marked @ [n]) = fst ` set g - set marked" using False by auto
    ultimately show ?thesis by (simp add: insert_absorb)
  qed
qed auto

lemma walk_marks: "set marked \<subseteq> set (walk g ns marked)"
  by (induction g ns marked rule: walk.induct) auto

lemma walk_visits: "set ns \<subseteq> set (walk g ns marked)"
proof (induction g ns marked rule: walk.induct)
  case (2 g n ns marked)
  then show ?case
    using walk_marks [of marked g ns] walk_marks [of "marked @ [n]" g "deps g n @ ns"] by auto
qed simp

lemma walk_closed:
  assumes "\<forall>m \<in> set marked. set (deps g m) \<subseteq> set marked \<union> set ns"
  shows "\<forall>m \<in> set (walk g ns marked). set (deps g m) \<subseteq> set (walk g ns marked)"
  using assms
proof (induction g ns marked rule: walk.induct)
  case (2 g n ns marked)
  show ?case
  proof (cases "n \<in> set marked")
    case True
    with 2 show ?thesis by (auto simp: insert_absorb)
  next
    case False
    with "2.prems" have "\<forall>m \<in> set (marked @ [n]). set (deps g m) \<subseteq> set (marked @ [n]) \<union> set (deps g n @ ns)"
      by auto
    from "2.IH"(2) [OF False this] False show ?thesis by simp
  qed
qed simp

lemma walk_sound: "set (walk g ns marked) \<subseteq> set marked \<union> reachable (deps g) ns"
proof (induction g ns marked rule: walk.induct)
  case (2 g n ns marked)
  note more = reachable_Cons [where succs = "deps g" and ns = ns and n = n]
  have n: "n \<in> reachable (deps g) (n # ns)" by (simp add: reachable_root)
  have "reachable (deps g) (deps g n @ ns) \<subseteq> reachable (deps g) (n # ns)"
    by (rule reachable_mono) (auto intro: reachable_root reachable_step [OF n])
  with "2.IH" more(1) n show ?case
    by (cases "n \<in> set marked") (simp_all, blast+)
qed simp

lemma walk_reachable: "set (walk g roots []) = reachable (deps g) roots"
proof
  show "set (walk g roots []) \<subseteq> reachable (deps g) roots" using walk_sound [of g roots "[]"] by simp
  show "reachable (deps g) roots \<subseteq> set (walk g roots [])"
    using walk_closed [of "[]" g roots] walk_visits [of roots g "[]"]
    by (intro reachable_least) auto
qed

end
