(* ===== verification/Metadata.thy ===== *)
theory Metadata
  imports GoStd Topo
begin

text \<open>
  \<open>internal/homebrew/metadata\<close>, the part that turns decoded Homebrew metadata into normalised
  Formulae and migrations: \<open>types.go\<close>, \<open>jsonutil.go\<close> and the normalisation half of \<open>catalog.go\<close>.
  The index built from them is in \<open>MetadataCatalog\<close>.

  JSON text is read by \<open>encoding/json\<close>; the model starts at the decoded values. \<open>json.RawMessage\<close> is
  the datatype \<open>json\<close>, whose objects keep every member so that the check for duplicates is
  meaningful, and a \<open>rawFormula\<close> is the record that \<open>json.Unmarshal\<close> fills. Unmarshalling \<open>null\<close>
  into a string succeeds and leaves it empty, which \<open>as_string\<close> keeps. \<open>net/url\<close>'s parser is the
  argument \<open>P\<close>.
\<close>

section \<open>Types\<close>

datatype metadata_error =
    InvalidFormulaName string
  | InvalidKind string metadata_error
  | DuplicateKind string string
  | OutOfCoreTap string
  | OutOfCoreFullName string string
  | EmptyStableVersion
  | NegativeRevision int
  | NegativeVersionScheme int
  | InvalidUsesEntry
  | UnknownUsesKind string
  | InvalidUsesKind string
  | InvalidVariationTag string
  | InVariation string metadata_error
  | BottleMissing
  | BottleUnexpected
  | NegativeRebuild int
  | InvalidRootURL string
  | EmptyBottleFiles
  | InvalidBottleTag string
  | EmptyCellar string
  | InvalidBottleURL string string
  | InvalidBottleSHA string string
  | EmptyMigrationTarget string
  | InMigrationTarget string metadata_error
  | MalformedTarget string string
  | InFormula string metadata_error
  | MigrationSource metadata_error
  | MigrationNotString string
  | DuplicateMember string string
  | MissingValue
  | TrailingValue

record SignatureInfo =
  si_KeyID :: string
  si_Algorithm :: string
  si_Verified :: bool
  si_ProtectedDigest :: string
  si_SignatureDigest :: string

record BottleFile =
  bf_Tag :: string
  bf_Cellar :: string
  bf_URL :: string
  bf_SHA256 :: string

record Bottle =
  b_Rebuild :: int
  b_RootURL :: string
  b_Files :: "BottleFile list"

record Variation =
  v_Tag :: string
  v_Dependencies :: "string list"
  v_OverridesDependencies :: bool
  v_KegOnly :: bool
  v_OverridesKegOnly :: bool

record Formula =
  f_Name :: string
  f_FullName :: string
  f_Tap :: string
  f_OldNames :: "string list"
  f_Aliases :: "string list"
  f_VersionedFormulae :: "string list"
  f_Description :: string
  f_License :: string
  f_Homepage :: string
  f_StableVersion :: string
  f_Revision :: int
  f_VersionScheme :: int
  f_KegOnly :: bool
  f_Disabled :: bool
  f_Dependencies :: "string list"
  f_Variations :: "Variation list"
  f_Bottle :: "Bottle option"

record Migration =
  m_Name :: string
  m_Target :: string
  m_TargetName :: string
  m_InCore :: bool

definition Formula_PkgVersion :: "Formula \<Rightarrow> string" where
  "Formula_PkgVersion f =
     (if 0 < f_Revision f then f_StableVersion f @ ''_'' @ itoa (f_Revision f) else f_StableVersion f)"

definition Bottle_File :: "Bottle \<Rightarrow> string \<Rightarrow> BottleFile option" where
  "Bottle_File b tag =
     (case find (\<lambda>file. bf_Tag file = tag) (b_Files b) of
        Some file \<Rightarrow> Some file
      | None \<Rightarrow> if tag \<noteq> ''all'' then find (\<lambda>file. bf_Tag file = ''all'') (b_Files b) else None)"

definition DependenciesFor :: "Formula \<Rightarrow> string \<Rightarrow> string list" where
  "DependenciesFor f tag =
     (case find (\<lambda>v. v_Tag v = tag \<and> v_OverridesDependencies v) (f_Variations f) of
        Some v \<Rightarrow> v_Dependencies v
      | None \<Rightarrow> f_Dependencies f)"

definition KegOnlyFor :: "Formula \<Rightarrow> string \<Rightarrow> bool" where
  "KegOnlyFor f tag =
     (case find (\<lambda>v. v_Tag v = tag \<and> v_OverridesKegOnly v) (f_Variations f) of
        Some v \<Rightarrow> v_KegOnly v
      | None \<Rightarrow> f_KegOnly f)"

text \<open>The error of \<open>BottleFor\<close> is always \<open>ErrBottleUnavailable\<close>.\<close>

definition BottleFor :: "Formula \<Rightarrow> string \<Rightarrow> BottleFile option" where
  "BottleFor f tag = (case f_Bottle f of None \<Rightarrow> None | Some b \<Rightarrow> Bottle_File b tag)"

section \<open>Decoded JSON\<close>

text \<open>\<open>walkJSONValue\<close>: members are visited in order, and a repeated name is an error at its path.\<close>

function walkJSONValue :: "string \<Rightarrow> json \<Rightarrow> metadata_error option"
  and walkMembers :: "string \<Rightarrow> string list \<Rightarrow> (string \<times> json) list \<Rightarrow> metadata_error option"
  and walkElements :: "string \<Rightarrow> nat \<Rightarrow> json list \<Rightarrow> metadata_error option" where
  "walkJSONValue pth v =
     (case v of
        JObject ms \<Rightarrow> walkMembers pth [] ms
      | JArray vs \<Rightarrow> walkElements pth 0 vs
      | _ \<Rightarrow> None)"
| "walkMembers pth seen [] = None"
| "walkMembers pth seen ((key, v) # ms) =
     (if key \<in> set seen then Some (DuplicateMember key pth)
      else case walkJSONValue (pth @ ''.'' @ key) v of
        Some e \<Rightarrow> Some e
      | None \<Rightarrow> walkMembers pth (key # seen) ms)"
| "walkElements pth index [] = None"
| "walkElements pth index (v # vs) =
     (case walkJSONValue (pth @ ''['' @ itoa_nat index @ '']'') v of
        Some e \<Rightarrow> Some e
      | None \<Rightarrow> walkElements pth (Suc index) vs)"
  by pat_completeness auto
termination
  by (relation "measure (\<lambda>x. case x of Inl (_, v) \<Rightarrow> size v
        | Inr (Inl (_, _, ms)) \<Rightarrow> size_list (size_prod (\<lambda>_. 0) size) ms
        | Inr (Inr (_, _, vs)) \<Rightarrow> size_list size vs)")
    (auto)

text \<open>The values of the text, in order: the first is walked, and a second one is an error.\<close>

definition rejectDuplicateJSONKeys :: "json list \<Rightarrow> metadata_error option" where
  "rejectDuplicateJSONKeys values =
     (case values of
        [] \<Rightarrow> Some MissingValue
      | v # trailing \<Rightarrow>
          (case walkJSONValue ''$'' v of
             Some e \<Rightarrow> Some e
           | None \<Rightarrow> if trailing \<noteq> [] then Some TrailingValue else None))"

definition as_string :: "json \<Rightarrow> string option" where
  "as_string v = (case v of JString s \<Rightarrow> Some s | JNull \<Rightarrow> Some [] | _ \<Rightarrow> None)"

fun as_strings :: "json list \<Rightarrow> string list option" where
  "as_strings [] = Some []"
| "as_strings (v # vs) =
     (case (as_string v, as_strings vs) of (Some s, Some ss) \<Rightarrow> Some (s # ss) | _ \<Rightarrow> None)"

record rawVariation =
  rv_Dependencies :: "string list option"
  rv_KegOnly :: "bool option"

record rawBottleFile =
  rbf_Cellar :: string
  rbf_URL :: string
  rbf_SHA256 :: string

record rawBottle =
  rb_Rebuild :: int
  rb_RootURL :: string
  rb_Files :: "(string, rawBottleFile) gomap"

record rawFormula =
  rf_Name :: string
  rf_FullName :: string
  rf_Tap :: string
  rf_OldNames :: "string list"
  rf_OldName :: string
  rf_Aliases :: "string list"
  rf_VersionedFormulae :: "string list"
  rf_Description :: string
  rf_License :: string
  rf_Homepage :: string
  rf_VersionsStable :: string
  rf_VersionsBottle :: bool
  rf_Revision :: int
  rf_VersionScheme :: int
  rf_BottleStable :: "rawBottle option"
  rf_KegOnly :: bool
  rf_Disabled :: bool
  rf_Dependencies :: "string list"
  rf_RecommendedDependencies :: "string list"
  rf_UsesFromMacOS :: "json list"
  rf_Variations :: "(string, rawVariation) gomap"

section \<open>Names and sorted lists\<close>

definition formulaNamePattern :: "string \<Rightarrow> bool" where
  "formulaNamePattern s =
     (case s of
        [] \<Rightarrow> False
      | c # r \<Rightarrow> isLowerAlphaNumeric c
          \<and> list_all (\<lambda>d. isLowerAlphaNumeric d \<or> d \<in> set ''+_.@-'') r)"

definition bottleTagPattern :: "string \<Rightarrow> bool" where
  "bottleTagPattern s =
     (case s of
        [] \<Rightarrow> False
      | c # r \<Rightarrow> isLowerAlphaNumeric c \<and> list_all (\<lambda>d. isLowerAlphaNumeric d \<or> d = CHR ''_'') r)"

definition validateSimpleName :: "string \<Rightarrow> metadata_error option" where
  "validateSimpleName name =
     (if \<not> formulaNamePattern name \<or> list_ex (\<lambda>c. c = CHR ''/'' \<or> c = CHR 0x5C) name
      then Some (InvalidFormulaName name) else None)"

fun validateUniqueFrom :: "string \<Rightarrow> string list \<Rightarrow> string list \<Rightarrow> metadata_error option" where
  "validateUniqueFrom kind seen [] = None"
| "validateUniqueFrom kind seen (name # names) =
     (case validateSimpleName name of
        Some e \<Rightarrow> Some (InvalidKind kind e)
      | None \<Rightarrow>
          if name \<in> set seen then Some (DuplicateKind kind name)
          else validateUniqueFrom kind (name # seen) names)"

definition validateUniqueNames :: "string \<Rightarrow> string list \<Rightarrow> metadata_error option" where
  "validateUniqueNames kind names = validateUniqueFrom kind [] names"

definition sortedClone :: "string list \<Rightarrow> string list" where
  "sortedClone xs = sort xs"

fun uniqueFrom :: "string list \<Rightarrow> string list \<Rightarrow> string list" where
  "uniqueFrom out [] = out"
| "uniqueFrom out (v # vs) = uniqueFrom (if v \<in> set out then out else out @ [v]) vs"

definition uniqueSorted :: "string list \<Rightarrow> string list" where
  "uniqueSorted values = sort (uniqueFrom [] values)"

section \<open>Dependencies from \<open>uses_from_macos\<close>\<close>

text \<open>
  One entry is a name, or an object with one member whose value is a kind or a list of kinds.
  Build and test uses are dropped; \<open>no_linkage\<close> is a runtime use.
\<close>

definition usesEntry :: "json \<Rightarrow> (metadata_error, string list) result" where
  "usesEntry raw =
     (case as_string raw of
        Some name \<Rightarrow> Inr [name]
      | None \<Rightarrow>
          (case raw of
             JObject [(dependency, kindRaw)] \<Rightarrow>
               (case as_string kindRaw of
                  Some kind \<Rightarrow>
                    if kind = ''build'' \<or> kind = ''test'' then Inr []
                    else if kind = ''no_linkage'' then Inr [dependency]
                    else Inl (UnknownUsesKind kind)
                | None \<Rightarrow>
                    (case kindRaw of
                       JArray vs \<Rightarrow>
                         (case as_strings vs of
                            None \<Rightarrow> Inl (InvalidUsesKind dependency)
                          | Some kinds \<Rightarrow>
                              (case find (\<lambda>k. k \<notin> {''no_linkage'', ''build'', ''test''}) kinds of
                                 Some k \<Rightarrow> Inl (UnknownUsesKind k)
                               | None \<Rightarrow> if ''no_linkage'' \<in> set kinds then Inr [dependency] else Inr []))
                     | _ \<Rightarrow> Inl (InvalidUsesKind dependency)))
           | _ \<Rightarrow> Inl InvalidUsesEntry))"

definition runtimeUsesFromMacOS :: "json list \<Rightarrow> (metadata_error, string list) result" where
  "runtimeUsesFromMacOS values =
     (case for_result
         (\<lambda>raw out. case usesEntry raw of Inl e \<Rightarrow> Inl e | Inr names \<Rightarrow> Inr (out @ names)) values []
      of Inl e \<Rightarrow> Inl e | Inr out \<Rightarrow> Inr (uniqueSorted out))"

section \<open>Normalisation\<close>

definition validateAbsoluteHTTPSURL :: "url_parser \<Rightarrow> string \<Rightarrow> bool" where
  "validateAbsoluteHTTPSURL P value =
     (case P value of
        None \<Rightarrow> False
      | Some u \<Rightarrow> url_Scheme u = ''https'' \<and> url_Host u \<noteq> [] \<and> \<not> url_HasUser u \<and> url_Fragment u = [])"

definition validateSHA256 :: "unicode_tables \<Rightarrow> string \<Rightarrow> bool" where
  "validateSHA256 U value = (length value = 64 \<and> value = to_lower U value \<and> hex_ok value)"

definition normalizeBottleFile ::
  "unicode_tables \<Rightarrow> url_parser \<Rightarrow> string \<Rightarrow> rawBottleFile \<Rightarrow> (metadata_error, BottleFile) result" where
  "normalizeBottleFile U P tag file =
     (if \<not> bottleTagPattern tag then Inl (InvalidBottleTag tag)
      else if trim_space (rbf_Cellar file) = [] then Inl (EmptyCellar tag)
      else if \<not> validateAbsoluteHTTPSURL P (rbf_URL file) then Inl (InvalidBottleURL tag (rbf_URL file))
      else if \<not> validateSHA256 U (rbf_SHA256 file) then Inl (InvalidBottleSHA tag (rbf_SHA256 file))
      else Inr \<lparr>bf_Tag = tag, bf_Cellar = rbf_Cellar file, bf_URL = rbf_URL file,
                bf_SHA256 = rbf_SHA256 file\<rparr>)"

definition map_at :: "'v \<Rightarrow> ('k, 'v) gomap \<Rightarrow> 'k \<Rightarrow> 'v" where
  "map_at zero m k = (case mget m k of Some v \<Rightarrow> v | None \<Rightarrow> zero)"

definition zeroBottleFile :: rawBottleFile where
  "zeroBottleFile = \<lparr>rbf_Cellar = [], rbf_URL = [], rbf_SHA256 = []\<rparr>"

definition normalizeBottle ::
  "unicode_tables \<Rightarrow> url_parser \<Rightarrow> rawBottle \<Rightarrow> (metadata_error, Bottle) result" where
  "normalizeBottle U P raw =
     (if rb_Rebuild raw < 0 then Inl (NegativeRebuild (rb_Rebuild raw))
      else if \<not> validateAbsoluteHTTPSURL P (rb_RootURL raw) then Inl (InvalidRootURL (rb_RootURL raw))
      else if rb_Files raw = [] then Inl EmptyBottleFiles
      else
        case map_result
          (\<lambda>tag. normalizeBottleFile U P tag (map_at zeroBottleFile (rb_Files raw) tag))
          (sort (mkeys (rb_Files raw)))
        of Inl e \<Rightarrow> Inl e
         | Inr files \<Rightarrow> Inr \<lparr>b_Rebuild = rb_Rebuild raw, b_RootURL = rb_RootURL raw, b_Files = files\<rparr>)"

definition normalizeVariation ::
  "string list \<Rightarrow> string list \<Rightarrow> string \<Rightarrow> rawVariation \<Rightarrow> (metadata_error, Variation) result" where
  "normalizeVariation recommended uses tag rv =
     (if \<not> bottleTagPattern tag then Inl (InvalidVariationTag tag)
      else
        let keg = (case rv_KegOnly rv of None \<Rightarrow> False | Some k \<Rightarrow> k);
            overridesKeg = (rv_KegOnly rv \<noteq> None)
        in (case rv_Dependencies rv of
              None \<Rightarrow> Inr \<lparr>v_Tag = tag, v_Dependencies = [], v_OverridesDependencies = False,
                           v_KegOnly = keg, v_OverridesKegOnly = overridesKeg\<rparr>
            | Some ds \<Rightarrow>
                (case validateUniqueNames ''variation dependency'' ds of
                   Some e \<Rightarrow> Inl (InVariation tag e)
                 | None \<Rightarrow>
                     Inr \<lparr>v_Tag = tag, v_Dependencies = uniqueSorted (ds @ recommended @ uses),
                          v_OverridesDependencies = True, v_KegOnly = keg,
                          v_OverridesKegOnly = overridesKeg\<rparr>)))"

definition zeroVariation :: rawVariation where
  "zeroVariation = \<lparr>rv_Dependencies = None, rv_KegOnly = None\<rparr>"

text \<open>The identity and the lists of names, in the order the code checks them.\<close>

definition checkNames :: "rawFormula \<Rightarrow> string list \<Rightarrow> metadata_error option" where
  "checkNames raw oldNames =
     (if validateSimpleName (rf_Name raw) \<noteq> None then validateSimpleName (rf_Name raw)
      else if rf_Tap raw \<noteq> ''homebrew/core'' then Some (OutOfCoreTap (rf_Tap raw))
      else if rf_FullName raw \<noteq> rf_Name raw \<and> rf_FullName raw \<noteq> ''homebrew/core/'' @ rf_Name raw
      then Some (OutOfCoreFullName (rf_FullName raw) (rf_Name raw))
      else if trim_space (rf_VersionsStable raw) = [] then Some EmptyStableVersion
      else if rf_Revision raw < 0 then Some (NegativeRevision (rf_Revision raw))
      else if rf_VersionScheme raw < 0 then Some (NegativeVersionScheme (rf_VersionScheme raw))
      else first_error (\<lambda>(kind, names). validateUniqueNames kind names)
        [(''oldname'', oldNames), (''alias'', rf_Aliases raw),
         (''versioned Formula'', rf_VersionedFormulae raw), (''dependency'', rf_Dependencies raw),
         (''recommended dependency'', rf_RecommendedDependencies raw)])"

definition normalizeStableBottle ::
  "unicode_tables \<Rightarrow> url_parser \<Rightarrow> rawFormula \<Rightarrow> (metadata_error, Bottle option) result" where
  "normalizeStableBottle U P raw =
     (case rf_BottleStable raw of
        None \<Rightarrow> if rf_VersionsBottle raw then Inl BottleMissing else Inr None
      | Some rb \<Rightarrow>
          if \<not> rf_VersionsBottle raw then Inl BottleUnexpected
          else case normalizeBottle U P rb of Inl e \<Rightarrow> Inl e | Inr b \<Rightarrow> Inr (Some b))"

definition normalizeFormula ::
  "unicode_tables \<Rightarrow> url_parser \<Rightarrow> rawFormula \<Rightarrow> (metadata_error, Formula) result" where
  "normalizeFormula U P raw =
     (let oldNames = rf_OldNames raw @ (if rf_OldName raw \<noteq> [] then [rf_OldName raw] else [])
      in case checkNames raw oldNames of
        Some e \<Rightarrow> Inl e
      | None \<Rightarrow>
      (case runtimeUsesFromMacOS (rf_UsesFromMacOS raw) of
        Inl e \<Rightarrow> Inl e
      | Inr uses \<Rightarrow>
          let recommended = rf_RecommendedDependencies raw;
              dependencies = uniqueSorted (rf_Dependencies raw @ recommended @ uses)
          in case validateUniqueNames ''dependency'' dependencies of
            Some e \<Rightarrow> Inl e
          | None \<Rightarrow>
          (case map_result
              (\<lambda>tag. normalizeVariation recommended uses tag (map_at zeroVariation (rf_Variations raw) tag))
              (sort (mkeys (rf_Variations raw)))
           of Inl e \<Rightarrow> Inl e
            | Inr variations \<Rightarrow>
          (case normalizeStableBottle U P raw of
             Inl e \<Rightarrow> Inl e
           | Inr bottle \<Rightarrow>
               Inr \<lparr>f_Name = rf_Name raw, f_FullName = ''homebrew/core/'' @ rf_Name raw,
                    f_Tap = rf_Tap raw, f_OldNames = sortedClone oldNames,
                    f_Aliases = sortedClone (rf_Aliases raw),
                    f_VersionedFormulae = sortedClone (rf_VersionedFormulae raw),
                    f_Description = rf_Description raw, f_License = rf_License raw,
                    f_Homepage = rf_Homepage raw, f_StableVersion = rf_VersionsStable raw,
                    f_Revision = rf_Revision raw, f_VersionScheme = rf_VersionScheme raw,
                    f_KegOnly = rf_KegOnly raw, f_Disabled = rf_Disabled raw,
                    f_Dependencies = dependencies, f_Variations = variations,
                    f_Bottle = bottle\<rparr>))))"

text \<open>\<open>parseFormulae\<close> on the decoded array: the first Formula that does not normalise is named.\<close>

fun parseFormulaeFrom ::
  "unicode_tables \<Rightarrow> url_parser \<Rightarrow> nat \<Rightarrow> rawFormula list \<Rightarrow> (metadata_error, Formula list) result" where
  "parseFormulaeFrom U P i [] = Inr []"
| "parseFormulaeFrom U P i (raw # raws) =
     (case normalizeFormula U P raw of
        Inl e \<Rightarrow> Inl (InFormula (if rf_Name raw = [] then ''index '' @ itoa_nat i else rf_Name raw) e)
      | Inr f \<Rightarrow>
          (case parseFormulaeFrom U P (Suc i) raws of Inl e \<Rightarrow> Inl e | Inr fs \<Rightarrow> Inr (f # fs)))"

definition parseFormulae ::
  "unicode_tables \<Rightarrow> url_parser \<Rightarrow> rawFormula list \<Rightarrow> (metadata_error, Formula list) result" where
  "parseFormulae U P raws = parseFormulaeFrom U P 0 raws"

definition normalizeMigration :: "string \<Rightarrow> string \<Rightarrow> (metadata_error, Migration) result" where
  "normalizeMigration name target =
     (let mk = (\<lambda>tname core. \<lparr>m_Name = name, m_Target = target, m_TargetName = tname, m_InCore = core\<rparr>);
          malformed = Inl (MalformedTarget name target)
      in if trim_space target = [] then Inl (EmptyMigrationTarget name)
         else case split_on CHR ''/'' target of
           [n] \<Rightarrow>
             (case validateSimpleName n of
                Some e \<Rightarrow> Inl (InMigrationTarget name e) | None \<Rightarrow> Inr (mk n True))
         | [owner, tap] \<Rightarrow>
             if owner = ''homebrew'' \<and> tap = ''core'' then Inr (mk name True)
             else if owner = [] \<or> tap = [] then malformed else Inr (mk [] False)
         | [owner, tap, n] \<Rightarrow>
             (case validateSimpleName n of
                Some e \<Rightarrow> Inl (InMigrationTarget name e)
              | None \<Rightarrow>
                  if owner = [] \<or> tap = [] then malformed
                  else Inr (mk n (owner = ''homebrew'' \<and> tap = ''core'')))
         | _ \<Rightarrow> malformed)"

definition parseMigrations :: "(string, json) gomap \<Rightarrow> (metadata_error, Migration list) result" where
  "parseMigrations object =
     map_result
       (\<lambda>name. case validateSimpleName name of
           Some e \<Rightarrow> Inl (MigrationSource e)
         | None \<Rightarrow>
             (case as_string (map_at JNull object name) of
                None \<Rightarrow> Inl (MigrationNotString name)
              | Some target \<Rightarrow> normalizeMigration name target))
       (sort (mkeys object))"

section \<open>Well-formed Formulae\<close>

text \<open>Go maps have one value per key.\<close>

definition raw_maps_ok :: "rawFormula \<Rightarrow> bool" where
  "raw_maps_ok raw =
     (gomap_ok (rf_Variations raw)
      \<and> (case rf_BottleStable raw of None \<Rightarrow> True | Some rb \<Rightarrow> gomap_ok (rb_Files rb)))"

definition names_ok :: "string list \<Rightarrow> bool" where
  "names_ok names = (strictly_sorted names \<and> list_all formulaNamePattern names)"

definition bottle_ok :: "unicode_tables \<Rightarrow> url_parser \<Rightarrow> Bottle \<Rightarrow> bool" where
  "bottle_ok U P b =
     (0 \<le> b_Rebuild b \<and> validateAbsoluteHTTPSURL P (b_RootURL b) \<and> b_Files b \<noteq> []
      \<and> strictly_sorted (map bf_Tag (b_Files b))
      \<and> list_all (\<lambda>f. bottleTagPattern (bf_Tag f) \<and> trim_space (bf_Cellar f) \<noteq> []
           \<and> validateAbsoluteHTTPSURL P (bf_URL f) \<and> validateSHA256 U (bf_SHA256 f)) (b_Files b))"

definition formula_ok :: "unicode_tables \<Rightarrow> url_parser \<Rightarrow> Formula \<Rightarrow> bool" where
  "formula_ok U P f =
     (formulaNamePattern (f_Name f) \<and> f_FullName f = ''homebrew/core/'' @ f_Name f
      \<and> f_Tap f = ''homebrew/core'' \<and> trim_space (f_StableVersion f) \<noteq> []
      \<and> 0 \<le> f_Revision f \<and> 0 \<le> f_VersionScheme f
      \<and> names_ok (f_OldNames f) \<and> names_ok (f_Aliases f) \<and> names_ok (f_VersionedFormulae f)
      \<and> names_ok (f_Dependencies f)
      \<and> strictly_sorted (map v_Tag (f_Variations f))
      \<and> list_all (\<lambda>v. bottleTagPattern (v_Tag v) \<and> names_ok (v_Dependencies v)) (f_Variations f)
      \<and> (case f_Bottle f of None \<Rightarrow> True | Some b \<Rightarrow> bottle_ok U P b))"

section \<open>Lemmas\<close>

lemma walk_None_iff:
  "walkJSONValue pth v = None \<longleftrightarrow> json_unique v"
  "walkMembers pth seen ms = None \<longleftrightarrow>
     distinct (map fst ms) \<and> set (map fst ms) \<inter> set seen = {} \<and> (\<forall>m \<in> set ms. json_unique (snd m))"
  "walkElements pth i vs = None \<longleftrightarrow> (\<forall>v \<in> set vs. json_unique v)"
proof (induction pth v and pth seen ms and pth i vs
    rule: walkJSONValue_walkMembers_walkElements.induct)
  case (1 pth v)
  then show ?case by (cases v) auto
next
  case (3 pth seen key v ms)
  then show ?case by (cases "key \<in> set seen") (auto split: option.split)
next
  case (5 pth i v vs)
  then show ?case by (auto split: option.split)
qed auto

lemma validateSimpleName_eq:
  "validateSimpleName name = (if formulaNamePattern name then None else Some (InvalidFormulaName name))"
proof -
  have "formulaNamePattern name \<Longrightarrow> \<not> list_ex (\<lambda>c. c = CHR ''/'' \<or> c = CHR 0x5C) name"
    by (cases name)
      (auto simp: formulaNamePattern_def list_all_iff list_ex_iff isLowerAlphaNumeric_def
        less_eq_char_def)
  then show ?thesis by (auto simp: validateSimpleName_def)
qed

lemma validateSimpleName_None [simp]: "validateSimpleName name = None \<longleftrightarrow> formulaNamePattern name"
  by (simp add: validateSimpleName_eq)

lemma validateUniqueFrom_None:
  "validateUniqueFrom kind seen names = None \<longleftrightarrow>
     list_all formulaNamePattern names \<and> distinct names \<and> set names \<inter> set seen = {}"
proof (induction kind seen names rule: validateUniqueFrom.induct)
  case (2 kind seen name names)
  then show ?case
    by (cases "formulaNamePattern name"; cases "name \<in> set seen") (auto simp: validateSimpleName_eq)
qed simp

lemma validateUniqueNames_None [simp]:
  "validateUniqueNames kind names = None \<longleftrightarrow> list_all formulaNamePattern names \<and> distinct names"
  by (simp add: validateUniqueNames_def validateUniqueFrom_None)

lemma uniqueFrom_ok: "distinct out \<Longrightarrow> distinct (uniqueFrom out vs) \<and> set (uniqueFrom out vs) = set out \<union> set vs"
  by (induction vs arbitrary: out) auto

lemma uniqueSorted_set [simp]: "set (uniqueSorted vs) = set vs"
  using uniqueFrom_ok [of "[]" vs] by (simp add: uniqueSorted_def)

lemma uniqueSorted_strict [simp]: "strictly_sorted (uniqueSorted vs)"
  using uniqueFrom_ok [of "[]" vs] by (simp add: uniqueSorted_def sort_distinct_strict)

lemma uniqueSorted_id: "strictly_sorted vs \<Longrightarrow> uniqueSorted vs = vs"
  by (metis sorted_distinct_set_unique strictly_sorted_iff uniqueSorted_set uniqueSorted_strict)

lemma sortedClone_ok: "list_all formulaNamePattern names \<Longrightarrow> distinct names \<Longrightarrow> names_ok (sortedClone names)"
  by (simp add: names_ok_def sortedClone_def sort_distinct_strict list_all_iff)

lemma names_ok_uniqueSorted: "list_all formulaNamePattern names \<Longrightarrow> names_ok (uniqueSorted names)"
  by (simp add: names_ok_def list_all_iff)

lemma map_result_keys:
  assumes "map_result f ks = Inr vs" and "\<And>k v. f k = Inr v \<Longrightarrow> key v = k"
  shows "map key vs = ks"
  using assms(1) assms(2)
  by (auto simp: map_result_Inr_iff list_all2_conv_all_nth intro!: nth_equalityI)

lemma map_result_all:
  assumes "map_result f ks = Inr vs" and "\<And>k v. f k = Inr v \<Longrightarrow> Q v"
  shows "list_all Q vs"
  using assms by (auto simp: map_result_Inr_iff list_all2_conv_all_nth list_all_length)

lemma normalizeBottle_ok:
  assumes "normalizeBottle U P rb = Inr b" and "gomap_ok (rb_Files rb)"
  shows "bottle_ok U P b"
proof -
  let ?file = "\<lambda>tag. normalizeBottleFile U P tag (map_at zeroBottleFile (rb_Files rb) tag)"
  from assms(1) obtain files where files: "map_result ?file (sort (mkeys (rb_Files rb))) = Inr files"
    and b: "b = \<lparr>b_Rebuild = rb_Rebuild rb, b_RootURL = rb_RootURL rb, b_Files = files\<rparr>"
    and top: "0 \<le> rb_Rebuild rb" "validateAbsoluteHTTPSURL P (rb_RootURL rb)" "rb_Files rb \<noteq> []"
    by (auto simp: normalizeBottle_def split: if_splits sum.splits)
  have tags: "map bf_Tag files = sort (mkeys (rb_Files rb))"
    by (rule map_result_keys [OF files]) (auto simp: normalizeBottleFile_def split: if_splits)
  have all: "list_all (\<lambda>f. bottleTagPattern (bf_Tag f) \<and> trim_space (bf_Cellar f) \<noteq> []
           \<and> validateAbsoluteHTTPSURL P (bf_URL f) \<and> validateSHA256 U (bf_SHA256 f)) files"
    by (rule map_result_all [OF files]) (auto simp: normalizeBottleFile_def split: if_splits)
  have "files \<noteq> []" using tags top(3) by (metis map_is_Nil_conv set_empty set_sort)
  moreover have "strictly_sorted (map bf_Tag files)"
    using assms(2) by (simp add: tags gomap_ok_def sort_distinct_strict)
  ultimately show ?thesis using top all by (simp add: bottle_ok_def b)
qed

lemma normalizeVariation_ok:
  assumes "normalizeVariation recommended uses tag rv = Inr v"
    and "list_all formulaNamePattern recommended" and "list_all formulaNamePattern uses"
  shows "v_Tag v = tag \<and> bottleTagPattern tag \<and> names_ok (v_Dependencies v)"
  using assms
  by (auto simp: normalizeVariation_def names_ok_def strictly_sorted_def list_all_iff
      simp del: uniqueSorted_strict intro: uniqueSorted_strict [unfolded strictly_sorted_def]
      split: if_splits option.splits)

lemma checkNames_None:
  assumes "checkNames raw oldNames = None"
  shows "formulaNamePattern (rf_Name raw)" and "rf_Tap raw = ''homebrew/core''"
    and "trim_space (rf_VersionsStable raw) \<noteq> []" and "0 \<le> rf_Revision raw"
    and "0 \<le> rf_VersionScheme raw"
    and "\<forall>names \<in> {oldNames, rf_Aliases raw, rf_VersionedFormulae raw, rf_Dependencies raw,
           rf_RecommendedDependencies raw}. list_all formulaNamePattern names \<and> distinct names"
  using assms unfolding checkNames_def by (auto split: if_splits option.splits)

lemma normalizeStableBottle_ok:
  assumes "normalizeStableBottle U P raw = Inr (Some b)" and "raw_maps_ok raw"
  shows "bottle_ok U P b"
  using assms
  by (auto simp: normalizeStableBottle_def raw_maps_ok_def split: option.splits if_splits sum.splits
      intro: normalizeBottle_ok)

lemma normalizeFormula_Inr:
  assumes "normalizeFormula U P raw = Inr f" and "raw_maps_ok raw"
  shows "formula_ok U P f"
    and "\<exists>uses. runtimeUsesFromMacOS (rf_UsesFromMacOS raw) = Inr uses \<and>
      set (f_Dependencies f) = set (rf_Dependencies raw) \<union> set (rf_RecommendedDependencies raw) \<union> set uses"
proof -
  let ?old = "rf_OldNames raw @ (if rf_OldName raw \<noteq> [] then [rf_OldName raw] else [])"
  let ?rec = "rf_RecommendedDependencies raw"
  from assms(1) obtain uses vs ob where names: "checkNames raw ?old = None"
    and uses: "runtimeUsesFromMacOS (rf_UsesFromMacOS raw) = Inr uses"
    and deps: "list_all formulaNamePattern (uniqueSorted (rf_Dependencies raw @ ?rec @ uses))"
    and vs: "map_result (\<lambda>tag. normalizeVariation ?rec uses tag
        (map_at zeroVariation (rf_Variations raw) tag)) (sort (mkeys (rf_Variations raw))) = Inr vs"
    and ob: "normalizeStableBottle U P raw = Inr ob"
    and f: "f_Name f = rf_Name raw" "f_FullName f = ''homebrew/core/'' @ rf_Name raw"
      "f_Tap f = rf_Tap raw" "f_OldNames f = sortedClone ?old"
      "f_Aliases f = sortedClone (rf_Aliases raw)"
      "f_VersionedFormulae f = sortedClone (rf_VersionedFormulae raw)"
      "f_StableVersion f = rf_VersionsStable raw" "f_Revision f = rf_Revision raw"
      "f_VersionScheme f = rf_VersionScheme raw"
      "f_Dependencies f = uniqueSorted (rf_Dependencies raw @ ?rec @ uses)"
      "f_Variations f = vs" "f_Bottle f = ob"
    by (auto simp: normalizeFormula_def Let_def split: option.splits sum.splits)
  note n = checkNames_None [OF names]
  have pat: "list_all formulaNamePattern ?rec" "list_all formulaNamePattern uses"
    using deps by (auto simp: list_all_iff)
  note v = normalizeVariation_ok [OF _ pat]
  have tags: "map v_Tag vs = sort (mkeys (rf_Variations raw))"
    by (rule map_result_keys [OF vs]) (simp add: v)
  have "strictly_sorted (map v_Tag vs)"
    using assms(2) by (simp add: tags raw_maps_ok_def gomap_ok_def sort_distinct_strict)
  moreover have "list_all (\<lambda>v. bottleTagPattern (v_Tag v) \<and> names_ok (v_Dependencies v)) vs"
    by (rule map_result_all [OF vs]) (use v in blast)
  moreover have "names_ok (f_Dependencies f)"
    using deps by (simp add: names_ok_def f)
  moreover have "case f_Bottle f of None \<Rightarrow> True | Some b \<Rightarrow> bottle_ok U P b"
    using normalizeStableBottle_ok [OF _ assms(2)] ob by (auto simp: f split: option.splits)
  ultimately show "formula_ok U P f"
    using n unfolding formula_ok_def f by (simp add: sortedClone_ok)
  show "\<exists>uses. runtimeUsesFromMacOS (rf_UsesFromMacOS raw) = Inr uses \<and>
      set (f_Dependencies f) = set (rf_Dependencies raw) \<union> set ?rec \<union> set uses"
    using uses f(10) by auto
qed

lemma parseFormulaeFrom_Inr:
  "parseFormulaeFrom U P i raws = Inr fs \<longleftrightarrow> list_all2 (\<lambda>raw f. normalizeFormula U P raw = Inr f) raws fs"
  by (induction U P i raws arbitrary: fs rule: parseFormulaeFrom.induct)
    (auto simp: list_all2_Cons1 split: sum.splits)

section \<open>Properties\<close>

text \<open>
  C13: A JSON text is accepted exactly when it is one value and no object in it, at any depth, names a
  member twice.
\<close>

theorem reject_duplicate_keys_iff: "rejectDuplicateJSONKeys values = None \<longleftrightarrow> (\<exists>v. values = [v] \<and> json_unique v)"
  unfolding walk_None_iff(1) [of "''$''", symmetric]
  by (auto simp: rejectDuplicateJSONKeys_def simp del: walkJSONValue.simps split: list.splits option.splits if_splits)

text \<open>
  C12: A Formula that normalises is well formed: it is in \<open>homebrew/core\<close>, its names match the name
  pattern, every list of names is strictly ascending, its variations and bottle files are strictly
  ascending by tag, and the bottle has https URLs and lowercase SHA-256 digests. Its dependencies
  are exactly the declared and recommended ones and the runtime uses from macOS.
\<close>

theorem normalize_formula_ok:
  assumes "normalizeFormula U P raw = Inr f" and "raw_maps_ok raw"
  shows "formula_ok U P f \<and>
    (\<exists>uses. runtimeUsesFromMacOS (rf_UsesFromMacOS raw) = Inr uses \<and>
      set (f_Dependencies f) = set (rf_Dependencies raw) \<union> set (rf_RecommendedDependencies raw) \<union> set uses)"
  using normalizeFormula_Inr [OF assms] by blast

definition sample_parser :: url_parser where
  "sample_parser s =
     (if prefix ''https://'' s
      then Some \<lparr>url_Scheme = ''https'', url_Opaque = [], url_HasUser = False,
                 url_Host = takeWhile (\<lambda>c. c \<noteq> CHR ''/'') (drop 8 s),
                 url_Path = dropWhile (\<lambda>c. c \<noteq> CHR ''/'') (drop 8 s), url_RawQuery = [],
                 url_ForceQuery = False, url_Fragment = [],
     url_RawFragment = [], url_EscapedPath = []\<rparr>
      else None)"

definition sample_raw :: rawFormula where
  "sample_raw =
     \<lparr>rf_Name = ''jq'', rf_FullName = ''jq'', rf_Tap = ''homebrew/core'', rf_OldNames = [],
      rf_OldName = [], rf_Aliases = [], rf_VersionedFormulae = [], rf_Description = [],
      rf_License = ''MIT'', rf_Homepage = [], rf_VersionsStable = ''1.7'', rf_VersionsBottle = True,
      rf_Revision = 0, rf_VersionScheme = 0,
      rf_BottleStable = Some \<lparr>rb_Rebuild = 0, rb_RootURL = ''https://ghcr.io/v2'',
        rb_Files = [(''all'', \<lparr>rbf_Cellar = '':any'', rbf_URL = ''https://ghcr.io/v2/jq'',
          rbf_SHA256 = replicate 64 CHR ''a''\<rparr>)]\<rparr>,
      rf_KegOnly = False, rf_Disabled = False, rf_Dependencies = [''oniguruma''],
      rf_RecommendedDependencies = [],
      rf_UsesFromMacOS = [JObject [(''flex'', JString ''build'')], JString ''curl''],
      rf_Variations = []\<rparr>"

lemma sample_sha: "validateSHA256 ascii_tables (replicate 64 CHR ''a'')"
proof -
  have "to_lower ascii_tables (replicate 64 CHR ''a'') = replicate 64 CHR ''a''"
    by (rule to_lower_id(1)) (simp_all add: ascii_conform_def)
  then show ?thesis by (simp add: validateSHA256_def hex_ok_def hex_char_def list_all_iff)
qed

theorem normalize_formula_ok_witness:
  "\<exists>f. normalizeFormula ascii_tables sample_parser sample_raw = Inr f \<and>
     f_Dependencies f = [''curl'', ''oniguruma''] \<and> formula_ok ascii_tables sample_parser f"
proof -
  have blank: "trim_space ''1.7'' \<noteq> []" "trim_space '':any'' \<noteq> []"
    by (simp_all add: trim_space_solid ascii_def unicode_IsSpace_def)
  have uses: "runtimeUsesFromMacOS (rf_UsesFromMacOS sample_raw) = Inr [''curl'']" by code_simp
  have names: "checkNames sample_raw [] = None"
    by (simp add: checkNames_def sample_raw_def blank formulaNamePattern_def isLowerAlphaNumeric_def
        first_error_None_iff del: first_error.simps)
  obtain b where bottle: "normalizeStableBottle ascii_tables sample_parser sample_raw = Inr (Some b)"
    by (simp add: normalizeStableBottle_def normalizeBottle_def normalizeBottleFile_def sample_raw_def
        blank sample_sha sample_parser_def validateAbsoluteHTTPSURL_def map_at_def bottleTagPattern_def
        isLowerAlphaNumeric_def)
  have deps: "uniqueSorted [''oniguruma'', ''curl''] = [''curl'', ''oniguruma'']" by code_simp
  have valid: "validateUniqueNames ''dependency'' [''curl'', ''oniguruma''] = None"
    by (simp add: formulaNamePattern_def isLowerAlphaNumeric_def)
  have maps: "raw_maps_ok sample_raw" by code_simp
  have fields: "rf_OldNames sample_raw = []" "rf_OldName sample_raw = []"
    "rf_Dependencies sample_raw = [''oniguruma'']" "rf_RecommendedDependencies sample_raw = []"
    "rf_Variations sample_raw = []" by (simp_all add: sample_raw_def)
  obtain f where "normalizeFormula ascii_tables sample_parser sample_raw = Inr f"
    and "f_Dependencies f = [''curl'', ''oniguruma'']"
    by (simp add: normalizeFormula_def fields names uses bottle deps valid)
  with normalize_formula_ok [OF _ maps] show ?thesis by blast
qed

end
