(* ===== verification/MetadataCatalog.thy ===== *)
theory MetadataCatalog
  imports Metadata
begin

text \<open>
  \<open>internal/homebrew/metadata/catalog.go\<close>, the index: \<open>buildCatalog\<close> and its passes, migration
  chains with their memo table, and \<open>Lookup\<close>. The catalog is the record of the Go struct, and every
  pass of \<open>buildCatalog\<close> is a function from a catalog to an error or the next catalog. Cloning is
  invisible in the model.

  \<open>cycleVisits\<close> is the search of \<open>validateDependencyCycles\<close> with its map of stack positions; it is
  shown to be the search of \<open>Topo\<close>. The invariant \<open>catalog_ok\<close> is what a successful build
  establishes, and \<open>Lookup\<close> is proved against it.
\<close>

section \<open>Catalog\<close>

record migrationResolution =
  mr_canonical :: string
  mr_externalTarget :: string

record Catalog =
  c_canonical :: "(string, Formula) gomap"
  c_aliases :: "(string, string) gomap"
  c_oldNames :: "(string, string) gomap"
  c_migrations :: "(string, Migration) gomap"
  c_resolved :: "(string, migrationResolution) gomap"
  c_canonicalNames :: "string list"

datatype catalog_error =
    DuplicateCanonicalName string string
  | SelfVersioned string
  | NotVersioned string string
  | MissingVersioned string string
  | DuplicateIdentity string string string
  | MissingDependency string string
  | MissingVariationDependency string string string
  | DependencyCycle string "string list"
  | SameNameMigration string
  | MigrationCycle "string list"
  | MissingMigration string
  | NonCanonicalVersionedTarget string string
  | UnknownTarget string string

definition claimIndex ::
  "(string, string) gomap \<Rightarrow> string \<Rightarrow> string \<Rightarrow> (catalog_error, (string, string) gomap) result" where
  "claimIndex claimed name kind =
     (case mget claimed name of
        Some previous \<Rightarrow> Inl (DuplicateIdentity name previous kind)
      | None \<Rightarrow> Inr (mput name kind claimed))"

section \<open>The passes of \<open>buildCatalog\<close>\<close>

definition emptyCatalog :: Catalog where
  "emptyCatalog = \<lparr>c_canonical = [], c_aliases = [], c_oldNames = [], c_migrations = [],
                   c_resolved = [], c_canonicalNames = []\<rparr>"

definition addCanonical ::
  "Formula \<Rightarrow> (string, string) gomap \<times> Catalog
     \<Rightarrow> (catalog_error, (string, string) gomap \<times> Catalog) result" where
  "addCanonical f = (\<lambda>(claimed, c).
     case mget claimed (f_Name f) of
       Some previous \<Rightarrow> Inl (DuplicateCanonicalName (f_Name f) previous)
     | None \<Rightarrow>
         Inr (mput (f_Name f) ''canonical name'' claimed,
              c\<lparr>c_canonical := mput (f_Name f) f (c_canonical c),
                c_canonicalNames := c_canonicalNames c @ [f_Name f]\<rparr>))"

definition checkVersioned :: "Catalog \<Rightarrow> string \<Rightarrow> string \<Rightarrow> catalog_error option" where
  "checkVersioned c name versioned =
     (if versioned = name then Some (SelfVersioned name)
      else if CHR ''@'' \<notin> set versioned then Some (NotVersioned name versioned)
      else if \<not> mhas (c_canonical c) versioned then Some (MissingVersioned name versioned)
      else None)"

definition addAlias ::
  "string \<Rightarrow> string \<Rightarrow> (string, string) gomap \<times> Catalog
     \<Rightarrow> (catalog_error, (string, string) gomap \<times> Catalog) result" where
  "addAlias name alias = (\<lambda>(claimed, c).
     case claimIndex claimed alias (''alias for '' @ name) of
       Inl e \<Rightarrow> Inl e
     | Inr claimed' \<Rightarrow> Inr (claimed', c\<lparr>c_aliases := mput alias name (c_aliases c)\<rparr>))"

definition addOldName ::
  "string \<Rightarrow> string \<Rightarrow> (string, string) gomap \<times> Catalog
     \<Rightarrow> (catalog_error, (string, string) gomap \<times> Catalog) result" where
  "addOldName name oldName = (\<lambda>(claimed, c).
     case claimIndex claimed oldName (''oldname for '' @ name) of
       Inl e \<Rightarrow> Inl e
     | Inr claimed' \<Rightarrow> Inr (claimed', c\<lparr>c_oldNames := mput oldName name (c_oldNames c)\<rparr>))"

text \<open>The second loop, for one canonical name.\<close>

definition zeroFormula :: Formula where
  "zeroFormula =
     \<lparr>f_Name = [], f_FullName = [], f_Tap = [], f_OldNames = [], f_Aliases = [],
      f_VersionedFormulae = [], f_Description = [], f_License = [], f_Homepage = [],
      f_StableVersion = [], f_Revision = 0, f_VersionScheme = 0, f_KegOnly = False,
      f_Disabled = False, f_Dependencies = [], f_Variations = [], f_Bottle = None\<rparr>"

definition indexNames ::
  "string \<Rightarrow> (string, string) gomap \<times> Catalog
     \<Rightarrow> (catalog_error, (string, string) gomap \<times> Catalog) result" where
  "indexNames name = (\<lambda>(claimed, c).
     let f = map_at zeroFormula (c_canonical c) name
     in case first_error (checkVersioned c name) (f_VersionedFormulae f) of
       Some e \<Rightarrow> Inl e
     | None \<Rightarrow>
         (case for_result (addAlias name) (f_Aliases f) (claimed, c) of
            Inl e \<Rightarrow> Inl e
          | Inr s \<Rightarrow> for_result (addOldName name) (f_OldNames f) s))"

definition resolveName :: "Catalog \<Rightarrow> string \<Rightarrow> string option" where
  "resolveName c name =
     (if mhas (c_canonical c) name then Some name
      else case mget (c_aliases c) name of
        Some canonical \<Rightarrow> Some canonical
      | None \<Rightarrow> mget (c_oldNames c) name)"

definition canonicalizeNames ::
  "Catalog \<Rightarrow> (string \<Rightarrow> catalog_error) \<Rightarrow> string list \<Rightarrow> (catalog_error, string list) result" where
  "canonicalizeNames c err ds =
     (case map_result (\<lambda>d. case resolveName c d of None \<Rightarrow> Inl (err d) | Some n \<Rightarrow> Inr n) ds of
        Inl e \<Rightarrow> Inl e
      | Inr ns \<Rightarrow> Inr (uniqueSorted ns))"

definition canonicalizeFormula :: "string \<Rightarrow> Catalog \<Rightarrow> (catalog_error, Catalog) result" where
  "canonicalizeFormula name c =
     (let f = map_at zeroFormula (c_canonical c) name
      in case canonicalizeNames c (MissingDependency name) (f_Dependencies f) of
        Inl e \<Rightarrow> Inl e
      | Inr ds \<Rightarrow>
          (case map_result
              (\<lambda>v. case canonicalizeNames c (MissingVariationDependency name (v_Tag v)) (v_Dependencies v) of
                 Inl e \<Rightarrow> Inl e
               | Inr vds \<Rightarrow> Inr (v\<lparr>v_Dependencies := vds\<rparr>))
              (f_Variations f)
           of Inl e \<Rightarrow> Inl e
            | Inr vs \<Rightarrow>
                Inr (c\<lparr>c_canonical :=
                  mput name (f\<lparr>f_Dependencies := ds, f_Variations := vs\<rparr>) (c_canonical c)\<rparr>)))"

definition canonicalizeCatalogDependencies :: "Catalog \<Rightarrow> (catalog_error, Catalog) result" where
  "canonicalizeCatalogDependencies c = for_result canonicalizeFormula (c_canonicalNames c) c"

section \<open>Dependency checks\<close>

definition linux_tag :: "string \<Rightarrow> bool" where
  "linux_tag tag = (tag = ''x86_64_linux'' \<or> tag = ''arm64_linux'')"

definition checkFormulaDependencies :: "Catalog \<Rightarrow> string \<Rightarrow> catalog_error option" where
  "checkFormulaDependencies c name =
     (let f = map_at zeroFormula (c_canonical c) name
      in case first_error
          (\<lambda>d. if mhas (c_canonical c) d then None else Some (MissingDependency name d)) (f_Dependencies f)
      of Some e \<Rightarrow> Some e
       | None \<Rightarrow>
          first_error
            (\<lambda>v. if linux_tag (v_Tag v) \<and> v_OverridesDependencies v
                 then first_error
                   (\<lambda>d. if mhas (c_canonical c) d then None
                        else Some (MissingVariationDependency name (v_Tag v) d)) (v_Dependencies v)
                 else None)
            (f_Variations f))"

text \<open>The tags collected on the way: the base metadata and every Linux tag some Formula varies.\<close>

definition variationTags :: "Catalog \<Rightarrow> string list" where
  "variationTags c =
     uniqueSorted ([] # concat (map
       (\<lambda>name. filter linux_tag (map v_Tag (f_Variations (map_at zeroFormula (c_canonical c) name))))
       (c_canonicalNames c)))"

definition tagDependencies :: "string \<Rightarrow> Formula \<Rightarrow> string list" where
  "tagDependencies tag f = (if tag = [] then f_Dependencies f else DependenciesFor f tag)"

definition dependencyGraph :: "Catalog \<Rightarrow> string \<Rightarrow> string graph" where
  "dependencyGraph c tag = map (\<lambda>(n, f). (n, tagDependencies tag f)) (c_canonical c)"

record 'a cycle_search =
  cs_state :: "('a, mark) gomap"
  cs_positions :: "('a, nat) gomap"
  cs_stack :: "'a list"

definition cs_enter :: "'a \<Rightarrow> 'a cycle_search \<Rightarrow> 'a cycle_search" where
  "cs_enter n s = s\<lparr>cs_state := mput n OnStack (cs_state s),
                    cs_positions := mput n (length (cs_stack s)) (cs_positions s),
                    cs_stack := cs_stack s @ [n]\<rparr>"

definition cs_leave :: "'a \<Rightarrow> 'a cycle_search \<Rightarrow> 'a cycle_search" where
  "cs_leave n s = s\<lparr>cs_stack := butlast (cs_stack s), cs_positions := mdel n (cs_positions s),
                    cs_state := mput n Finished (cs_state s)\<rparr>"

function cycleVisits :: "'a graph \<Rightarrow> 'a list \<Rightarrow> 'a cycle_search \<Rightarrow> ('a list, 'a cycle_search) result" where
  "cycleVisits g [] s = Inr s"
| "cycleVisits g (d # ds) s =
     (case mget (cs_state s) d of
        None \<Rightarrow>
          (case cycleVisits g (deps g d) (cs_enter d s) of
             Inl e \<Rightarrow> Inl e
           | Inr s' \<Rightarrow> cycleVisits g ds (cs_leave d s'))
      | Some OnStack \<Rightarrow> Inl (drop (map_at 0 (cs_positions s) d) (cs_stack s) @ [d])
      | Some Finished \<Rightarrow> cycleVisits g ds s)"
  by pat_completeness auto

lemma cycleVisits_marks:
  "cycleVisits_dom (g, ds, s) \<Longrightarrow> cycleVisits g ds s = Inr s' \<Longrightarrow>
     fst ` set (cs_state s) \<subseteq> fst ` set (cs_state s')"
proof (induction g ds s arbitrary: s' rule: cycleVisits.pinduct)
  case (1 g s)
  then show ?case by (simp add: cycleVisits.psimps)
next
  case (2 g d ds s)
  show ?case
  proof (cases "mget (cs_state s) d")
    case None
    with 2 obtain t where t: "cycleVisits g (deps g d) (cs_enter d s) = Inr t"
      and s': "cycleVisits g ds (cs_leave d t) = Inr s'"
      by (auto simp: cycleVisits.psimps split: sum.splits)
    from "2.IH"(1) [OF None t] "2.IH"(2) [OF None t s'] show ?thesis
      by (auto simp: cs_enter_def cs_leave_def)
  next
    case (Some m)
    with 2 show ?thesis by (cases m) (auto simp: cycleVisits.psimps)
  qed
qed

termination cycleVisits
proof (relation "measures [\<lambda>(g, ds, s). unmarked g (cs_state s), \<lambda>(g, ds, s). length ds]", goal_cases)
  case (2 g d ds s)
  from unmarked_mput [OF this, of g OnStack] show ?case by (auto simp: cs_enter_def)
next
  case (3 g d ds s t)
  then have "fst ` set (cs_state (cs_enter d s)) \<subseteq> fst ` set (cs_state t)"
    by (intro cycleVisits_marks)
  then have "unmarked g (cs_state (cs_leave d t)) \<le> unmarked g (cs_state s)"
    by (intro unmarked_mono) (auto simp: cs_enter_def cs_leave_def)
  then show ?case by auto
qed auto

text \<open>The outer loop only starts a visit at a node that has no state yet.\<close>

definition cycleRoot :: "'a graph \<Rightarrow> 'a \<Rightarrow> 'a cycle_search \<Rightarrow> ('a list, 'a cycle_search) result" where
  "cycleRoot g name s = (if mget (cs_state s) name = None then cycleVisits g [name] s else Inr s)"

definition cs_empty :: "'a cycle_search" where
  "cs_empty = \<lparr>cs_state = [], cs_positions = [], cs_stack = []\<rparr>"

definition validateDependencyCycles :: "Catalog \<Rightarrow> string \<Rightarrow> catalog_error option" where
  "validateDependencyCycles c tag =
     (case for_result (cycleRoot (dependencyGraph c tag)) (c_canonicalNames c) cs_empty of
        Inl cyc \<Rightarrow>
          Some (DependencyCycle (if tag = [] then ''base metadata'' else ''variation '' @ tag) cyc)
      | Inr s \<Rightarrow> None)"

definition validateCatalogDependencies :: "Catalog \<Rightarrow> catalog_error option" where
  "validateCatalogDependencies c =
     (case first_error (checkFormulaDependencies c) (c_canonicalNames c) of
        Some e \<Rightarrow> Some e
      | None \<Rightarrow> first_error (validateDependencyCycles c) (variationTags c))"

section \<open>Migrations\<close>

definition recordResolution ::
  "string \<Rightarrow> migrationResolution \<Rightarrow> Catalog \<Rightarrow> migrationResolution \<times> Catalog" where
  "recordResolution name r c = (r, c\<lparr>c_resolved := mput name r (c_resolved c)\<rparr>)"

abbreviation toCanonical :: "string \<Rightarrow> migrationResolution" where
  "toCanonical n \<equiv> \<lparr>mr_canonical = n, mr_externalTarget = []\<rparr>"

abbreviation toExternal :: "string \<Rightarrow> migrationResolution" where
  "toExternal t \<equiv> \<lparr>mr_canonical = [], mr_externalTarget = t\<rparr>"

text \<open>
  \<open>resolveMigration\<close>: \<open>active\<close> holds the positions of the names on the stack. The deferred
  \<open>delete(active, name)\<close> runs when the call returns, after its only recursive call, so passing the
  extended map down is the same.
\<close>

function resolveMigration ::
  "Catalog \<Rightarrow> string \<Rightarrow> string list \<Rightarrow> (string, nat) gomap
     \<Rightarrow> (catalog_error, migrationResolution \<times> Catalog) result" where
  "resolveMigration c name stk active =
     (case mget (c_resolved c) name of
        Some r \<Rightarrow> Inr (r, c)
      | None \<Rightarrow>
      (case mget active name of
        Some start \<Rightarrow> Inl (MigrationCycle (drop start stk @ [name]))
      | None \<Rightarrow>
      (case mget (c_migrations c) name of
        None \<Rightarrow> Inl (MissingMigration name)
      | Some m \<Rightarrow>
          if \<not> m_InCore m then Inr (recordResolution name (toExternal (m_Target m)) c)
          else
            let target = m_TargetName m
            in (case mget (c_canonical c) target of
                  Some f \<Rightarrow> Inr (recordResolution name (toCanonical (f_Name f)) c)
                | None \<Rightarrow>
                if CHR ''@'' \<in> set target then Inl (NonCanonicalVersionedTarget name target)
                else
                (case mget (c_aliases c) target of
                   Some n \<Rightarrow> Inr (recordResolution name (toCanonical n) c)
                 | None \<Rightarrow>
                (case mget (c_oldNames c) target of
                   Some n \<Rightarrow> Inr (recordResolution name (toCanonical n) c)
                 | None \<Rightarrow>
                   if mhas (c_migrations c) target
                   then (case resolveMigration c target (stk @ [name]) (mput name (length stk) active) of
                           Inl e \<Rightarrow> Inl e
                         | Inr (r, c') \<Rightarrow> Inr (recordResolution name r c'))
                   else Inl (UnknownTarget name target)))))))"
  by pat_completeness auto
termination
proof (relation "measure (\<lambda>(c, name, stk, active).
    card (fst ` set (c_migrations c) - fst ` set active))", goal_cases)
  case (2 c name stk active m target)
  then have "name \<in> fst ` set (c_migrations c) - fst ` set active"
    by (auto simp: map_of_eq_None_iff dest: map_of_SomeD intro: rev_image_eqI)
  then have "0 < card (fst ` set (c_migrations c) - fst ` set active)"
    by (auto simp: card_gt_0_iff)
  with \<open>name \<in> _\<close> show ?case by simp
qed auto

declare resolveMigration.simps [simp del]

definition addMigration ::
  "Migration \<Rightarrow> (string, string) gomap \<times> Catalog \<times> Migration list
     \<Rightarrow> (catalog_error, (string, string) gomap \<times> Catalog \<times> Migration list) result" where
  "addMigration m = (\<lambda>(claimed, c, accepted).
     if m_InCore m \<and> m_TargetName m = m_Name m
     then if mhas (c_canonical c) (m_Name m) \<or> mhas (c_aliases c) (m_Name m)
             \<or> mhas (c_oldNames c) (m_Name m)
          then Inr (claimed, c, accepted) else Inl (SameNameMigration (m_Name m))
     else case claimIndex claimed (m_Name m) ''migration'' of
       Inl e \<Rightarrow> Inl e
     | Inr claimed' \<Rightarrow>
         Inr (claimed', c\<lparr>c_migrations := mput (m_Name m) m (c_migrations c)\<rparr>, accepted @ [m]))"

definition resolveOne :: "Migration \<Rightarrow> Catalog \<Rightarrow> (catalog_error, Catalog) result" where
  "resolveOne m c =
     (case resolveMigration c (m_Name m) [] [] of Inl e \<Rightarrow> Inl e | Inr (r, c') \<Rightarrow> Inr c')"

section \<open>The build\<close>

text \<open>The first two loops: the names every later pass relies on.\<close>

definition buildIndex ::
  "Formula list \<Rightarrow> (catalog_error, (string, string) gomap \<times> Catalog) result" where
  "buildIndex formulae =
     (case for_result addCanonical formulae ([], emptyCatalog) of
        Inl e \<Rightarrow> Inl e
      | Inr (claimed, c) \<Rightarrow>
          let c' = c\<lparr>c_canonicalNames := sort (c_canonicalNames c)\<rparr>
          in for_result indexNames (c_canonicalNames c') (claimed, c'))"

definition buildCatalog :: "Formula list \<Rightarrow> Migration list \<Rightarrow> (catalog_error, Catalog) result" where
  "buildCatalog formulae migrations =
     (case buildIndex formulae of
        Inl e \<Rightarrow> Inl e
      | Inr (claimed, c1) \<Rightarrow>
     (case canonicalizeCatalogDependencies c1 of
        Inl e \<Rightarrow> Inl e
      | Inr c2 \<Rightarrow>
     (case validateCatalogDependencies c2 of
        Some e \<Rightarrow> Inl e
      | None \<Rightarrow>
     (case for_result addMigration migrations (claimed, c2, []) of
        Inl e \<Rightarrow> Inl e
      | Inr (claimed', c3, accepted) \<Rightarrow> for_result resolveOne accepted c3))))"

section \<open>Lookup\<close>

datatype MatchKind = MatchCanonical | MatchAlias | MatchOldName | MatchMigration

record Match =
  mt_Requested :: string
  mt_Canonical :: string
  mt_Kind :: MatchKind
  mt_Formula :: Formula

datatype lookup_cause =
    ErrFormulaNotFound
  | ErrInvalidFormulaName
  | ErrVersionedFormulaNotExplicit
  | ErrOutOfCore
  | ErrFormulaDisabled
  | ErrBottleUnavailable

record LookupError =
  le_Name :: string
  le_Target :: string
  le_Err :: lookup_cause

definition lookupError :: "string \<Rightarrow> string \<Rightarrow> lookup_cause \<Rightarrow> LookupError" where
  "lookupError name target err = \<lparr>le_Name = name, le_Target = target, le_Err = err\<rparr>"

definition matchFormula ::
  "Catalog \<Rightarrow> string \<Rightarrow> string \<Rightarrow> MatchKind \<Rightarrow> (LookupError, Match) result" where
  "matchFormula c requested canonical kind =
     (case mget (c_canonical c) canonical of
        None \<Rightarrow> Inl (lookupError requested canonical ErrFormulaNotFound)
      | Some f \<Rightarrow>
          if f_Disabled f then Inl (lookupError requested canonical ErrFormulaDisabled)
          else if f_Bottle f = None then Inl (lookupError requested canonical ErrBottleUnavailable)
          else Inr \<lparr>mt_Requested = requested, mt_Canonical = canonical, mt_Kind = kind,
                    mt_Formula = f\<rparr>)"

text \<open>A nil catalog is \<open>None\<close>.\<close>

definition Lookup :: "Catalog option \<Rightarrow> string \<Rightarrow> (LookupError, Match) result" where
  "Lookup oc name =
     (case oc of
        None \<Rightarrow> Inl (lookupError name [] ErrFormulaNotFound)
      | Some c \<Rightarrow>
          if validateSimpleName name \<noteq> None then Inl (lookupError name [] ErrInvalidFormulaName)
          else case mget (c_canonical c) name of
            Some f \<Rightarrow> matchFormula c name (f_Name f) MatchCanonical
          | None \<Rightarrow>
          if CHR ''@'' \<in> set name then Inl (lookupError name [] ErrVersionedFormulaNotExplicit)
          else case mget (c_aliases c) name of
            Some canonical \<Rightarrow> matchFormula c name canonical MatchAlias
          | None \<Rightarrow>
          (case mget (c_oldNames c) name of
            Some canonical \<Rightarrow> matchFormula c name canonical MatchOldName
          | None \<Rightarrow>
          if mhas (c_migrations c) name
          then let r = map_at (toCanonical []) (c_resolved c) name
               in if mr_externalTarget r \<noteq> []
                  then Inl (lookupError name (mr_externalTarget r) ErrOutOfCore)
                  else matchFormula c name (mr_canonical r) MatchMigration
          else Inl (lookupError name [] ErrFormulaNotFound)))"

section \<open>The search with positions is the search of \<open>Topo\<close>\<close>

definition cs_rel :: "'a cycle_search \<Rightarrow> 'a dfs \<Rightarrow> bool" where
  "cs_rel s t \<longleftrightarrow> cs_state s = dfs_state t \<and> cs_stack s = dfs_stack t \<and>
     (\<forall>i < length (dfs_stack t). mget (cs_positions s) (dfs_stack t ! i) = Some i)"

lemma slices_Index_nth: "distinct stk \<Longrightarrow> i < length stk \<Longrightarrow> slices_Index stk (stk ! i) = Some i"
proof (induction stk arbitrary: i)
  case (Cons x xs)
  then show ?case by (cases i) auto
qed simp

lemma cs_rel_cycle:
  assumes "cs_rel s t" and "dfs_inv g t" and "d \<in> set (dfs_stack t)"
  shows "drop (map_at 0 (cs_positions s) d) (cs_stack s) @ [d] = cycle_path (dfs_stack t) d"
proof -
  obtain i where i: "i < length (dfs_stack t)" "dfs_stack t ! i = d"
    using assms(3) by (auto simp: in_set_conv_nth)
  then have "slices_Index (dfs_stack t) d = Some i"
    using assms(2) slices_Index_nth [of "dfs_stack t" i] by (auto simp: dfs_inv_def)
  with i assms(1) show ?thesis by (auto simp: cs_rel_def cycle_path_def map_at_def)
qed

lemma cs_rel_enter:
  assumes "cs_rel s t" and "d \<notin> set (dfs_stack t)"
  shows "cs_rel (cs_enter d s) (enter d t)"
  using assms unfolding cs_rel_def cs_enter_def enter_def
  by (auto simp: nth_append less_Suc_eq dest: nth_mem)

lemma cs_rel_leave:
  assumes "cs_rel s t" and "dfs_inv g t" and "dfs_stack t = stk @ [d]"
  shows "cs_rel (cs_leave d s) (leave d t)"
proof -
  have pos: "mget (cs_positions s) (dfs_stack t ! i) = Some i" if "i < length (dfs_stack t)" for i
    using assms(1) that by (simp add: cs_rel_def)
  have "d \<notin> set stk" using assms(2,3) by (simp add: dfs_inv_def)
  then have "mget (cs_positions s) (stk ! i) = Some i \<and> stk ! i \<noteq> d" if "i < length stk" for i
    using pos [of i] that by (auto simp: assms(3) nth_append dest: nth_mem)
  then show ?thesis
    using assms(1,3) unfolding cs_rel_def cs_leave_def leave_def by auto
qed

lemma cycleVisits_sim:
  assumes "cs_rel s t" and "dfs_inv g t" and "from_top g ns t"
  shows "rel_sum (=) cs_rel (cycleVisits g ns s) (visits g ns t)"
  using assms
proof (induction g ns t arbitrary: s rule: visits.induct)
  case (1 g t)
  then show ?case by simp
next
  case (2 g n ns t)
  have same: "cs_state s = dfs_state t" using "2.prems"(1) by (simp add: cs_rel_def)
  have tail: "from_top g ns t" using "2.prems"(3) by (auto simp: from_top_def)
  consider "mget (dfs_state t) n = Some OnStack" | "mget (dfs_state t) n = Some Finished"
    | "mget (dfs_state t) n = None" by (metis mark.exhaust not_None_eq)
  then show ?case
  proof cases
    case 1
    with "2.prems"(2) have "n \<in> set (dfs_stack t)" by (simp add: dfs_inv_def)
    from cs_rel_cycle [OF "2.prems"(1,2) this] 1 show ?thesis by (simp add: same)
  next
    case 2
    with "2.IH"(1) [OF _ 2 "2.prems"(1,2) tail] show ?thesis by (simp add: same)
  next
    case 3
    note enter = dfs_inv_enter [OF "2.prems"(2,3) 3]
    have new: "n \<notin> set (dfs_stack t)" using "2.prems"(2) 3 by (metis dfs_inv_def option.distinct(1))
    have marks: "mget (dfs_state t) n \<noteq> Some OnStack" "mget (dfs_state t) n \<noteq> Some Finished"
      using 3 by simp_all
    note first = "2.IH"(2) [OF marks cs_rel_enter [OF "2.prems"(1) new] enter(1,2)]
    show ?thesis
    proof (cases "visits g (deps g n) (enter n t)")
      case (Inl e)
      with first 3 show ?thesis by (auto simp: same elim: rel_sum.cases)
    next
      case (Inr t')
      with first obtain s' where s': "cycleVisits g (deps g n) (cs_enter n s) = Inr s'" "cs_rel s' t'"
        by (auto elim: rel_sum.cases)
      note t' = visits_Inr [OF Inr enter(1,2), unfolded enter(3)]
      have stk: "dfs_stack t' = dfs_stack t @ [n]" and inv: "dfs_inv g t'"
        and dps: "set (deps g n) \<subseteq> set (dfs_order t')" using t' by auto
      note leave = dfs_inv_leave [OF inv stk dps]
      have "from_top g ns (leave n t')" using tail leave(2) by (simp add: from_top_def)
      from "2.IH"(3) [OF marks Inr cs_rel_leave [OF s'(2) inv stk] leave(1) this] s'(1) Inr 3
      show ?thesis by (simp add: same)
    qed
  qed
qed

lemma cycleRoots_sim:
  assumes "cs_rel s t" and "dfs_inv g t" and "dfs_stack t = []"
  shows "rel_sum (=) cs_rel (for_result (cycleRoot g) ns s) (visits g ns t)"
  using assms
proof (induction ns arbitrary: s t)
  case Nil
  then show ?case by simp
next
  case (Cons n ns)
  have same: "cs_state s = dfs_state t" using Cons.prems(1) by (simp add: cs_rel_def)
  have top: "from_top g [n] t" using Cons.prems(3) by (simp add: from_top_def)
  have "mget (dfs_state t) n \<noteq> Some OnStack" using Cons.prems by (simp add: dfs_inv_def)
  then consider "mget (dfs_state t) n = Some Finished" | "mget (dfs_state t) n = None"
    by (metis mark.exhaust not_None_eq)
  then show ?case
  proof cases
    case 1
    with Cons.IH [OF Cons.prems] show ?thesis by (simp add: cycleRoot_def same)
  next
    case 2
    note first = cycleVisits_sim [OF Cons.prems(1,2) top]
    note app = visits_append [of g "[n]" ns t, simplified append.simps]
    show ?thesis
    proof (cases "visits g [n] t")
      case (Inl e)
      with first obtain "cycleVisits g [n] s = Inl e" by (auto elim: rel_sum.cases)
      with 2 app Inl show ?thesis by (simp add: cycleRoot_def same del: cycleVisits.simps visits.simps)
    next
      case (Inr t')
      with first obtain s' where s': "cycleVisits g [n] s = Inr s'" "cs_rel s' t'"
        by (auto elim: rel_sum.cases)
      from visits_Inr [OF Inr Cons.prems(2) top] Cons.prems(3)
      have "dfs_inv g t'" "dfs_stack t' = []" by auto
      from Cons.IH [OF s'(2) this] 2 app Inr s'(1) show ?thesis
        by (simp add: cycleRoot_def same del: cycleVisits.simps visits.simps)
    qed
  qed
qed

lemma cycle_search_topological:
  "(case for_result (cycleRoot g) ns cs_empty of Inl cyc \<Rightarrow> Inl cyc | Inr s \<Rightarrow> Inr ()) =
   (case topological g ns of Inl cyc \<Rightarrow> Inl cyc | Inr order \<Rightarrow> Inr ())"
proof -
  have "cs_rel cs_empty dfs_empty" "dfs_stack dfs_empty = []"
    by (simp_all add: cs_rel_def cs_empty_def dfs_empty_def)
  from cycleRoots_sim [OF this(1) dfs_inv_empty this(2), of g ns] show ?thesis
    by (auto simp: topological_def elim: rel_sum.cases)
qed

end
