(* ===== verification/MetadataIndex.thy ===== *)
theory MetadataIndex
  imports MetadataCatalog
begin

text \<open>
  What a successful \<open>buildCatalog\<close> establishes and what \<open>Lookup\<close> may rely on: the four classes of
  names are disjoint, every index entry leads to a canonical Formula, dependencies are canonical,
  sorted and acyclic for every tag the resolver uses, and the memo table of migrations holds the
  end of every chain.
\<close>

section \<open>What a catalog promises\<close>

abbreviation canonical_names :: "Catalog \<Rightarrow> string set" where
  "canonical_names c \<equiv> fst ` set (c_canonical c)"

text \<open>The end of a chain of migrations, without the memo table.\<close>

inductive resolves_to :: "Catalog \<Rightarrow> string \<Rightarrow> migrationResolution \<Rightarrow> bool" for c where
  external: "mget (c_migrations c) name = Some m \<Longrightarrow> \<not> m_InCore m \<Longrightarrow>
    resolves_to c name (toExternal (m_Target m))"
| direct: "mget (c_migrations c) name = Some m \<Longrightarrow> m_InCore m \<Longrightarrow>
    mget (c_canonical c) (m_TargetName m) = Some f \<Longrightarrow> resolves_to c name (toCanonical (f_Name f))"
| via_alias: "mget (c_migrations c) name = Some m \<Longrightarrow> m_InCore m \<Longrightarrow>
    mget (c_aliases c) (m_TargetName m) = Some n \<Longrightarrow> resolves_to c name (toCanonical n)"
| via_oldname: "mget (c_migrations c) name = Some m \<Longrightarrow> m_InCore m \<Longrightarrow>
    mget (c_oldNames c) (m_TargetName m) = Some n \<Longrightarrow> resolves_to c name (toCanonical n)"
| chain: "mget (c_migrations c) name = Some m \<Longrightarrow> m_InCore m \<Longrightarrow>
    resolves_to c (m_TargetName m) r \<Longrightarrow> resolves_to c name r"

text \<open>Every class of names is claimed once, and aliases and old names lead to canonical names.\<close>

definition index_ok :: "Catalog \<Rightarrow> bool" where
  "index_ok c \<longleftrightarrow>
     canonical_names c \<inter> fst ` set (c_aliases c) = {} \<and>
     canonical_names c \<inter> fst ` set (c_oldNames c) = {} \<and>
     canonical_names c \<inter> fst ` set (c_migrations c) = {} \<and>
     fst ` set (c_aliases c) \<inter> fst ` set (c_oldNames c) = {} \<and>
     fst ` set (c_aliases c) \<inter> fst ` set (c_migrations c) = {} \<and>
     fst ` set (c_oldNames c) \<inter> fst ` set (c_migrations c) = {} \<and>
     (\<forall>a n. mget (c_aliases c) a = Some n \<longrightarrow> n \<in> canonical_names c) \<and>
     (\<forall>a n. mget (c_oldNames c) a = Some n \<longrightarrow> n \<in> canonical_names c) \<and>
     (\<forall>n f. mget (c_canonical c) n = Some f \<longrightarrow> f_Name f = n)"

text \<open>A Formula with its dependencies, and those of its variations, replaced by canonical names.\<close>

definition canonicalForm :: "Catalog \<Rightarrow> Formula \<Rightarrow> Formula" where
  "canonicalForm c f =
     f\<lparr>f_Dependencies := uniqueSorted (map (\<lambda>d. the (resolveName c d)) (f_Dependencies f)),
       f_Variations := map (\<lambda>v. v\<lparr>v_Dependencies :=
         uniqueSorted (map (\<lambda>d. the (resolveName c d)) (v_Dependencies v))\<rparr>) (f_Variations f)\<rparr>"

definition resolvable :: "Catalog \<Rightarrow> Formula \<Rightarrow> bool" where
  "resolvable c f =
     (\<forall>d \<in> set (f_Dependencies f) \<union> \<Union> (set ` v_Dependencies ` set (f_Variations f)).
        resolveName c d \<noteq> None)"

definition deps_ok :: "Catalog \<Rightarrow> Formula \<Rightarrow> bool" where
  "deps_ok c f =
     (set (f_Dependencies f) \<subseteq> canonical_names c \<and> strictly_sorted (f_Dependencies f) \<and>
      (\<forall>v \<in> set (f_Variations f).
         set (v_Dependencies v) \<subseteq> canonical_names c \<and> strictly_sorted (v_Dependencies v)))"

definition catalog_ok :: "Catalog \<Rightarrow> bool" where
  "catalog_ok c \<longleftrightarrow>
     gomap_ok (c_canonical c) \<and> c_canonicalNames c = sort (mkeys (c_canonical c)) \<and> index_ok c \<and>
     (\<forall>n f. mget (c_canonical c) n = Some f \<longrightarrow> deps_ok c f) \<and>
     (\<forall>tag. tag = [] \<or> linux_tag tag \<longrightarrow> (\<nexists>cyc. is_cycle (deps (dependencyGraph c tag)) cyc)) \<and>
     (\<forall>n. n \<in> fst ` set (c_migrations c) \<longrightarrow>
        (\<exists>r. mget (c_resolved c) n = Some r \<and> resolves_to c n r))"

section \<open>The names\<close>

text \<open>While the index is built, \<open>claimed\<close> holds exactly the names of the four classes.\<close>

definition claims_ok :: "(string, string) gomap \<times> Catalog \<Rightarrow> bool" where
  "claims_ok = (\<lambda>(claimed, c). index_ok c \<and>
     fst ` set claimed = canonical_names c \<union> fst ` set (c_aliases c) \<union> fst ` set (c_oldNames c)
       \<union> fst ` set (c_migrations c))"

text \<open>What the loops over aliases and old names leave alone.\<close>

definition same_formulae :: "Catalog \<Rightarrow> Catalog \<Rightarrow> bool" where
  "same_formulae c c' \<longleftrightarrow> c_canonical c' = c_canonical c \<and> c_canonicalNames c' = c_canonicalNames c
     \<and> c_migrations c' = c_migrations c \<and> c_resolved c' = c_resolved c"

lemma claimIndex_Inr:
  "claimIndex claimed name kind = Inr claimed' \<longleftrightarrow>
     name \<notin> fst ` set claimed \<and> claimed' = mput name kind claimed"
  by (auto simp: claimIndex_def map_of_eq_None_iff split: option.splits)
    (metis map_of_eq_None_iff option.distinct(1))

lemma addCanonical_Inr:
  "addCanonical f (claimed, c) = Inr s' \<longleftrightarrow>
     f_Name f \<notin> fst ` set claimed \<and>
     s' = (mput (f_Name f) ''canonical name'' claimed,
           c\<lparr>c_canonical := mput (f_Name f) f (c_canonical c),
             c_canonicalNames := c_canonicalNames c @ [f_Name f]\<rparr>)"
proof (cases "f_Name f \<in> fst ` set claimed")
  case True
  then obtain v where "mget claimed (f_Name f) = Some v" using in_keys_mget [of _ claimed] by auto
  with True show ?thesis by (simp add: addCanonical_def)
next
  case False
  then have "mget claimed (f_Name f) = None" by (simp add: map_of_eq_None_iff)
  with False show ?thesis by (auto simp: addCanonical_def)
qed

lemma addCanonical_loop:
  assumes "for_result addCanonical fs (claimed, c) = Inr (claimed', c')"
    and "mkeys claimed = mkeys (c_canonical c)"
  shows "c' = c\<lparr>c_canonical := c_canonical c @ map (\<lambda>f. (f_Name f, f)) fs,
                c_canonicalNames := c_canonicalNames c @ map f_Name fs\<rparr>
    \<and> mkeys claimed' = mkeys (c_canonical c')
    \<and> (distinct (mkeys (c_canonical c)) \<longrightarrow> distinct (mkeys (c_canonical c) @ map f_Name fs))"
  using assms
proof (induction fs arbitrary: claimed c)
  case Nil
  then show ?case by simp
next
  case (Cons f fs)
  from Cons.prems(1) have new: "f_Name f \<notin> set (mkeys claimed)"
    and rest: "for_result addCanonical fs (mput (f_Name f) ''canonical name'' claimed,
        c\<lparr>c_canonical := mput (f_Name f) f (c_canonical c),
          c_canonicalNames := c_canonicalNames c @ [f_Name f]\<rparr>) = Inr (claimed', c')"
    by (auto simp: addCanonical_Inr split: sum.splits)
  note put = mput_fresh [OF new] mput_fresh [OF new [unfolded Cons.prems(2)]]
  from Cons.IH [OF rest] new Cons.prems(2) show ?case by (simp add: put)
qed

lemma addAlias_ok:
  assumes "addAlias name a s = Inr s'" and "claims_ok s" and "name \<in> canonical_names (snd s)"
  shows "claims_ok s' \<and> same_formulae (snd s) (snd s')"
proof -
  obtain claimed c where s: "s = (claimed, c)" by (cases s)
  from assms(1) have new: "a \<notin> fst ` set claimed"
    and s': "s' = (mput a (''alias for '' @ name) claimed, c\<lparr>c_aliases := mput a name (c_aliases c)\<rparr>)"
    by (auto simp: s addAlias_def claimIndex_Inr split: sum.splits)
  with assms(2,3) show ?thesis
    by (auto simp: s claims_ok_def index_ok_def same_formulae_def)
qed

lemma addOldName_ok:
  assumes "addOldName name a s = Inr s'" and "claims_ok s" and "name \<in> canonical_names (snd s)"
  shows "claims_ok s' \<and> same_formulae (snd s) (snd s')"
proof -
  obtain claimed c where s: "s = (claimed, c)" by (cases s)
  from assms(1) have new: "a \<notin> fst ` set claimed"
    and s': "s' = (mput a (''oldname for '' @ name) claimed, c\<lparr>c_oldNames := mput a name (c_oldNames c)\<rparr>)"
    by (auto simp: s addOldName_def claimIndex_Inr split: sum.splits)
  with assms(2,3) show ?thesis
    by (auto simp: s claims_ok_def index_ok_def same_formulae_def)
qed

lemma same_formulae_trans: "same_formulae c c' \<Longrightarrow> same_formulae c' c'' \<Longrightarrow> same_formulae c c''"
  by (simp add: same_formulae_def)

lemma same_formulae_refl [simp]: "same_formulae c c"
  by (simp add: same_formulae_def)

text \<open>A loop of claims over names keeps the claims exact and the Formulae unchanged.\<close>

lemma claim_loop:
  assumes run: "for_result add xs s = Inr s'" and ok: "claims_ok s" and P: "P (snd s)"
    and step: "\<And>x t t'. add x t = Inr t' \<Longrightarrow> claims_ok t \<Longrightarrow> P (snd t) \<Longrightarrow>
      claims_ok t' \<and> same_formulae (snd t) (snd t')"
    and stable: "\<And>c c'. P c \<Longrightarrow> same_formulae c c' \<Longrightarrow> P c'"
  shows "claims_ok s' \<and> same_formulae (snd s) (snd s')"
proof -
  let ?I = "\<lambda>t. claims_ok t \<and> same_formulae (snd s) (snd t)"
  have "?I s'"
  proof (rule for_result_invariant [OF run])
    show "?I s" using ok by simp
    fix x t t' assume "?I t" and "add x t = Inr t'"
    with step [of x t t'] stable [OF P] same_formulae_trans show "?I t'" by blast
  qed
  then show ?thesis .
qed

lemma indexNames_ok:
  assumes "indexNames name s = Inr s'" and "claims_ok s" and "name \<in> canonical_names (snd s)"
  shows "claims_ok s' \<and> same_formulae (snd s) (snd s')"
proof -
  let ?P = "\<lambda>c. name \<in> canonical_names c"
  have stable: "?P c \<Longrightarrow> same_formulae c c' \<Longrightarrow> ?P c'" for c c'
    by (simp add: same_formulae_def)
  define f where "f = map_at zeroFormula (c_canonical (snd s)) name"
  obtain t where t: "for_result (addAlias name) (f_Aliases f) s = Inr t"
    and s': "for_result (addOldName name) (f_OldNames f) t = Inr s'"
    using assms(1) unfolding f_def by (cases s) (auto simp: indexNames_def Let_def split: option.splits sum.splits)
  have t_ok: "claims_ok t \<and> same_formulae (snd s) (snd t)"
    by (rule claim_loop [where P = ?P, OF t assms(2,3) addAlias_ok stable])
  then have "?P (snd t)" using stable assms(3) by blast
  then have "claims_ok s' \<and> same_formulae (snd t) (snd s')"
    by (rule claim_loop [where P = ?P, OF s' conjunct1 [OF t_ok] _ addOldName_ok stable])
  with t_ok show ?thesis using same_formulae_trans by blast
qed

lemma buildIndex_ok:
  assumes "buildIndex fs = Inr (claimed, c)"
  shows "claims_ok (claimed, c)" and "c_canonical c = map (\<lambda>f. (f_Name f, f)) fs"
    and "distinct (map f_Name fs)" and "c_canonicalNames c = sort (map f_Name fs)"
    and "c_migrations c = []" and "c_resolved c = []"
proof -
  from assms obtain claimed0 c0 where c0: "for_result addCanonical fs ([], emptyCatalog) = Inr (claimed0, c0)"
    and run: "for_result indexNames (sort (c_canonicalNames c0))
      (claimed0, c0\<lparr>c_canonicalNames := sort (c_canonicalNames c0)\<rparr>) = Inr (claimed, c)"
    by (auto simp: buildIndex_def Let_def split: sum.splits)
  let ?c = "c0\<lparr>c_canonicalNames := sort (c_canonicalNames c0)\<rparr>"
  from addCanonical_loop [OF c0] have c0': "c0 = emptyCatalog\<lparr>c_canonical := map (\<lambda>f. (f_Name f, f)) fs,
      c_canonicalNames := map f_Name fs\<rparr>" "mkeys claimed0 = map f_Name fs"
    and dist: "distinct (map f_Name fs)"
    by (auto simp: emptyCatalog_def comp_def)
  have keys: "fst ` set claimed0 = f_Name ` set fs" using c0'(2) by (metis set_map)
  have start: "claims_ok (claimed0, ?c)"
    using keys by (auto simp: claims_ok_def index_ok_def c0'(1) emptyCatalog_def image_image
        dest: map_of_SomeD)
  let ?I = "\<lambda>s. claims_ok s \<and> same_formulae ?c (snd s)"
  have "?I (claimed, c)"
  proof (rule for_result_invariant [OF run])
    show "?I (claimed0, ?c)" using start by simp
    fix name s s' assume "name \<in> set (sort (c_canonicalNames c0))" "?I s" "indexNames name s = Inr s'"
    then show "?I s'"
      using indexNames_ok [of name s s'] same_formulae_trans [of ?c "snd s" "snd s'"]
      by (auto simp: c0'(1) same_formulae_def image_image)
  qed
  then show "claims_ok (claimed, c)" "c_canonical c = map (\<lambda>f. (f_Name f, f)) fs"
    "c_canonicalNames c = sort (map f_Name fs)" "c_migrations c = []" "c_resolved c = []"
    by (simp_all add: same_formulae_def c0'(1) emptyCatalog_def)
  show "distinct (map f_Name fs)" by (rule dist)
qed

section \<open>Canonical dependencies\<close>

lemma canonicalizeNames_Inr:
  "canonicalizeNames c err ds = Inr ns \<longleftrightarrow>
     (\<forall>d \<in> set ds. resolveName c d \<noteq> None) \<and> ns = uniqueSorted (map (\<lambda>d. the (resolveName c d)) ds)"
proof -
  let ?f = "\<lambda>d. case resolveName c d of None \<Rightarrow> Inl (err d) | Some n \<Rightarrow> Inr n"
  have "?f d = Inr n \<longleftrightarrow> resolveName c d \<noteq> None \<and> n = the (resolveName c d)" for d n
    by (cases "resolveName c d") auto
  from map_result_map [of ?f, OF this] show ?thesis
    by (auto simp: canonicalizeNames_def sum_case_Inr_iff)
qed

lemma canonicalizeFormula_Inr:
  assumes "mget (c_canonical c) name = Some f"
  shows "canonicalizeFormula name c = Inr c' \<longleftrightarrow>
    resolvable c f \<and> c' = c\<lparr>c_canonical := mput name (canonicalForm c f) (c_canonical c)\<rparr>"
proof -
  let ?var = "\<lambda>v. case canonicalizeNames c (MissingVariationDependency name (v_Tag v)) (v_Dependencies v) of
                 Inl e \<Rightarrow> Inl e
               | Inr vds \<Rightarrow> Inr (v\<lparr>v_Dependencies := vds\<rparr>)"
  let ?canon = "\<lambda>v. v\<lparr>v_Dependencies := uniqueSorted (map (\<lambda>d. the (resolveName c d)) (v_Dependencies v))\<rparr>"
  have "?var v = Inr w \<longleftrightarrow> (\<forall>d \<in> set (v_Dependencies v). resolveName c d \<noteq> None) \<and> w = ?canon v" for v w
    by (auto simp: canonicalizeNames_Inr sum_case_Inr_iff)
  note variations = map_result_map [of ?var, OF this]
  show ?thesis
    using assms
    by (auto simp: canonicalizeFormula_def variations map_at_def Let_def canonicalizeNames_Inr resolvable_def
        canonicalForm_def sum_case_Inr_iff)
qed

lemma resolveName_cong:
  assumes "canonical_names c' = canonical_names c" and "c_aliases c' = c_aliases c"
    and "c_oldNames c' = c_oldNames c"
  shows "resolveName c' = resolveName c"
  using assms by (intro ext) (simp add: resolveName_def mhas_iff split: option.split)

lemma canonicalForm_cong:
  assumes "resolveName c' = resolveName c"
  shows "canonicalForm c' = canonicalForm c" and "resolvable c' = resolvable c"
  using assms by (auto simp: canonicalForm_def resolvable_def)

definition canonicalAll :: "Catalog \<Rightarrow> string set \<Rightarrow> Catalog" where
  "canonicalAll c S = c\<lparr>c_canonical :=
     map (\<lambda>(n, f). (n, if n \<in> S then canonicalForm c f else f)) (c_canonical c)\<rparr>"

lemma canonicalAll_simps [simp]:
  "canonical_names (canonicalAll c S) = canonical_names c" "c_aliases (canonicalAll c S) = c_aliases c"
  "c_oldNames (canonicalAll c S) = c_oldNames c" "mkeys (c_canonical (canonicalAll c S)) = mkeys (c_canonical c)"
  "c_canonicalNames (canonicalAll c S) = c_canonicalNames c"
  "c_migrations (canonicalAll c S) = c_migrations c" "c_resolved (canonicalAll c S) = c_resolved c"
  by (auto simp: canonicalAll_def image_image case_prod_beta comp_def)

lemma canonicalAll_form:
  "canonicalForm (canonicalAll c S) = canonicalForm c" "resolvable (canonicalAll c S) = resolvable c"
  "resolveName (canonicalAll c S) = resolveName c"
  using resolveName_cong [of "canonicalAll c S" c] canonicalForm_cong [of "canonicalAll c S" c] by auto

lemma canonicalize_loop:
  assumes "for_result canonicalizeFormula ns c = Inr c'" and "distinct ns"
    and "set ns \<subseteq> canonical_names c" and "gomap_ok (c_canonical c)"
  shows "c' = canonicalAll c (set ns) \<and>
    (\<forall>n \<in> set ns. \<forall>f. mget (c_canonical c) n = Some f \<longrightarrow> resolvable c f)"
  using assms
proof (induction ns arbitrary: c)
  case Nil
  then show ?case by (simp add: canonicalAll_def case_prod_beta)
next
  case (Cons n ns)
  obtain f where f: "mget (c_canonical c) n = Some f"
    using Cons.prems(3) in_keys_mget [of n "c_canonical c"] by auto
  let ?c = "c\<lparr>c_canonical := mput n (canonicalForm c f) (c_canonical c)\<rparr>"
  from Cons.prems(1) have "resolvable c f" and rest: "for_result canonicalizeFormula ns ?c = Inr c'"
    by (auto simp: canonicalizeFormula_Inr [OF f] split: sum.splits)
  have c: "?c = canonicalAll c {n}"
    using mput_at [OF f, of "canonicalForm c"] Cons.prems(4)
    by (simp add: canonicalAll_def gomap_ok_def)
  have "c' = canonicalAll ?c (set ns) \<and>
      (\<forall>m \<in> set ns. \<forall>f. mget (c_canonical ?c) m = Some f \<longrightarrow> resolvable ?c f)"
    using Cons.prems(2,3,4) by (intro Cons.IH [OF rest]) auto
  then have c': "c' = canonicalAll (canonicalAll c {n}) (set ns)"
    and res: "\<forall>m \<in> set ns. \<forall>f. mget (c_canonical ?c) m = Some f \<longrightarrow> resolvable c f"
    unfolding c canonicalAll_form by simp_all
  have "canonicalAll (canonicalAll c {n}) (set ns) = canonicalAll c (set (n # ns))"
    using Cons.prems(2) unfolding canonicalAll_def [of "canonicalAll c {n}"] canonicalAll_form
    by (auto simp: canonicalAll_def intro!: arg_cong [where f = "\<lambda>m. c\<lparr>c_canonical := m\<rparr>"] map_cong)
  moreover have "\<forall>m \<in> set (n # ns). \<forall>f. mget (c_canonical c) m = Some f \<longrightarrow> resolvable c f"
  proof (intro ballI allI impI)
    fix m f' assume m: "m \<in> set (n # ns)" "mget (c_canonical c) m = Some f'"
    then show "resolvable c f'"
      using res \<open>resolvable c f\<close> f by (cases "m = n") auto
  qed
  ultimately show ?case using c' by simp
qed

lemma resolveName_canonical: "index_ok c \<Longrightarrow> resolveName c d = Some n \<Longrightarrow> n \<in> canonical_names c"
  by (auto simp: index_ok_def resolveName_def mhas_iff split: if_splits option.splits)

lemma canonicalForm_deps_ok:
  assumes "index_ok c" and "resolvable c f"
  shows "deps_ok c (canonicalForm c f)"
proof -
  have "the (resolveName c d) \<in> canonical_names c" if "resolveName c d \<noteq> None" for d
    using that resolveName_canonical [OF assms(1)] by auto
  with assms(2)
  have base: "(\<lambda>d. the (resolveName c d)) ` set (f_Dependencies f) \<subseteq> canonical_names c"
    and vars: "v \<in> set (f_Variations f) \<Longrightarrow>
      (\<lambda>d. the (resolveName c d)) ` set (v_Dependencies v) \<subseteq> canonical_names c" for v
    unfolding resolvable_def by blast+
  from base vars show ?thesis by (simp add: deps_ok_def canonicalForm_def)
qed

lemma index_ok_canonicalAll: "index_ok c \<Longrightarrow> index_ok (canonicalAll c S)"
proof -
  assume ok: "index_ok c"
  have "f_Name f' = n" if "mget (c_canonical (canonicalAll c S)) n = Some f'" for n f'
    using ok that by (auto simp: index_ok_def canonicalAll_def canonicalForm_def mget_map_values)
  with ok show ?thesis by (simp add: index_ok_def)
qed

section \<open>Cycles\<close>

lemma topological_ok_iff:
  assumes "set roots = fst ` set g"
  shows "is_ok (topological g roots) \<longleftrightarrow> (\<nexists>cyc. is_cycle (deps g) cyc)"
  using assms cycle_in_graph [of g] reachable_root [of _ roots "deps g"]
  unfolding dfs.succeeds_iff_acyclic by blast

lemma keys_dependencyGraph: "fst ` set (dependencyGraph c tag) = canonical_names c"
  by (auto simp: dependencyGraph_def image_image case_prod_beta)

lemma deps_dependencyGraph:
  "deps (dependencyGraph c tag) n =
     (case mget (c_canonical c) n of None \<Rightarrow> [] | Some f \<Rightarrow> tagDependencies tag f)"
  unfolding deps_def dependencyGraph_def by (simp add: mget_map_values split: option.split)

lemma validateDependencyCycles_None:
  assumes "set (c_canonicalNames c) = canonical_names c"
  shows "validateDependencyCycles c tag = None \<longleftrightarrow> (\<nexists>cyc. is_cycle (deps (dependencyGraph c tag)) cyc)"
proof -
  let ?g = "dependencyGraph c tag"
  have "is_ok (for_result (cycleRoot ?g) (c_canonicalNames c) cs_empty) \<longleftrightarrow>
      is_ok (topological ?g (c_canonicalNames c))"
    using cycle_search_topological [of ?g "c_canonicalNames c"]
    by (auto simp: is_ok_def split: sum.splits)
  also have "\<dots> \<longleftrightarrow> (\<nexists>cyc. is_cycle (deps ?g) cyc)"
    by (rule topological_ok_iff) (simp add: assms keys_dependencyGraph)
  finally show ?thesis
    by (cases "for_result (cycleRoot ?g) (c_canonicalNames c) cs_empty")
      (simp_all add: validateDependencyCycles_def)
qed

text \<open>A Linux tag that no Formula varies has the dependencies of the base metadata.\<close>

lemma unvaried_tag:
  assumes "linux_tag tag" and "tag \<notin> set (variationTags c)"
    and "set (c_canonicalNames c) = canonical_names c"
  shows "deps (dependencyGraph c tag) = deps (dependencyGraph c [])"
proof
  fix n
  have "DependenciesFor f tag = f_Dependencies f" if f: "mget (c_canonical c) n = Some f" for f
  proof -
    have "n \<in> set (c_canonicalNames c)" using f assms(3) mget_Some_in_keys [OF f] by simp
    then have "\<forall>v \<in> set (f_Variations f). v_Tag v \<noteq> tag"
      using assms(1,2) f by (auto simp: variationTags_def map_at_def split: option.splits)
    then have "find (\<lambda>v. v_Tag v = tag \<and> v_OverridesDependencies v) (f_Variations f) = None"
      by (auto simp: find_None_iff)
    then show ?thesis by (simp add: DependenciesFor_def)
  qed
  moreover have "tag \<noteq> []" using assms(1) by (auto simp: linux_tag_def)
  ultimately show "deps (dependencyGraph c tag) n = deps (dependencyGraph c []) n"
    by (auto simp: deps_dependencyGraph tagDependencies_def split: option.split)
qed

lemma validateCatalogDependencies_acyclic:
  assumes "validateCatalogDependencies c = None" and "set (c_canonicalNames c) = canonical_names c"
    and "tag = [] \<or> linux_tag tag"
  shows "\<nexists>cyc. is_cycle (deps (dependencyGraph c tag)) cyc"
proof -
  have ok: "t \<in> set (variationTags c) \<Longrightarrow> \<nexists>cyc. is_cycle (deps (dependencyGraph c t)) cyc" for t
    using assms(1,2) validateDependencyCycles_None [OF assms(2)]
    by (auto simp: validateCatalogDependencies_def first_error_None_iff split: option.splits)
  have base: "[] \<in> set (variationTags c)" by (simp add: variationTags_def)
  show ?thesis
  proof (cases "tag \<in> set (variationTags c)")
    case True
    then show ?thesis by (rule ok)
  next
    case False
    with assms(3) base have "linux_tag tag" by auto
    from unvaried_tag [OF this False assms(2)] ok [OF base] show ?thesis by simp
  qed
qed

section \<open>Migrations\<close>

lemma resolves_to_memo:
  "resolves_to c n r \<Longrightarrow> resolves_to (c\<lparr>c_resolved := x\<rparr>) n r"
  by (induction rule: resolves_to.induct) (auto intro: resolves_to.intros)

lemma resolves_to_memo_iff [simp]: "resolves_to (c\<lparr>c_resolved := x\<rparr>) n r \<longleftrightarrow> resolves_to c n r"
  using resolves_to_memo [of c n r x] resolves_to_memo [of "c\<lparr>c_resolved := x\<rparr>" n r "c_resolved c"]
  by auto

definition memo_ok :: "Catalog \<Rightarrow> bool" where
  "memo_ok c \<longleftrightarrow> (\<forall>n r. mget (c_resolved c) n = Some r \<longrightarrow> resolves_to c n r)"

text \<open>\<open>c'\<close> is \<open>c\<close> with more entries in the memo table, among them \<open>name\<close>.\<close>

definition memo_extends :: "Catalog \<Rightarrow> Catalog \<Rightarrow> bool" where
  "memo_extends c c' \<longleftrightarrow> (\<exists>x. c' = c\<lparr>c_resolved := x\<rparr>) \<and>
     fst ` set (c_resolved c) \<subseteq> fst ` set (c_resolved c')"

lemma memo_extends_refl [simp]: "memo_extends c c"
  by (auto simp: memo_extends_def intro: exI [of _ "c_resolved c"])

lemma memo_extends_trans: "memo_extends c c' \<Longrightarrow> memo_extends c' c'' \<Longrightarrow> memo_extends c c''"
  by (auto simp: memo_extends_def)

lemma recordResolution_ok:
  assumes "memo_ok c'" and "memo_extends c c'" and "resolves_to c name r"
    and "recordResolution name r c' = (r', c'')"
  shows "r' = r \<and> memo_ok c'' \<and> memo_extends c c'' \<and> mget (c_resolved c'') name = Some r"
proof -
  from assms(2) obtain x where c': "c' = c\<lparr>c_resolved := x\<rparr>"
    and keys: "fst ` set (c_resolved c) \<subseteq> fst ` set x" by (auto simp: memo_extends_def)
  have eqs: "r' = r" "c'' = c\<lparr>c_resolved := mput name r x\<rparr>"
    using assms(4) by (auto simp: recordResolution_def c')
  have "memo_ok c''" using assms(1,3) by (auto simp: memo_ok_def eqs c' split: if_splits)
  moreover have "memo_extends c c''"
    unfolding memo_extends_def eqs using keys by (auto intro: exI [of _ "mput name r x"])
  ultimately show ?thesis by (simp add: eqs)
qed

lemma resolveMigration_Inr:
  assumes "resolveMigration c name stk active = Inr (r, c')" and "memo_ok c"
  shows "memo_ok c' \<and> memo_extends c c' \<and> mget (c_resolved c') name = Some r \<and> resolves_to c name r"
  using assms
proof (induction c name stk active arbitrary: r c' rule: resolveMigration.induct)
  case (1 c name stk active)
  show ?case
  proof (cases "mget (c_resolved c) name")
    case (Some r0)
    with 1 show ?thesis by (auto simp: resolveMigration.simps [of c name] memo_ok_def)
  next
    case memo: None
    with "1.prems"(1) obtain m where act: "mget active name = None"
      and m: "mget (c_migrations c) name = Some m"
      by (auto simp: resolveMigration.simps [of c name] split: option.splits)
    note step = "1.prems"(1) [unfolded resolveMigration.simps [of c name], simplified memo act m
        option.case Let_def]
    note rcd = recordResolution_ok [OF "1.prems"(2) memo_extends_refl]
    have rec: "?thesis" if "resolves_to c name r0" "recordResolution name r0 c = (r, c')" for r0
      using rcd [OF that] that(1) by simp
    show ?thesis
    proof (cases "m_InCore m")
      case False
      with step show ?thesis by (intro rec [OF resolves_to.external [OF m]]) simp_all
    next
      case core: True
      let ?t = "m_TargetName m"
      show ?thesis
      proof (cases "mget (c_canonical c) ?t")
        case (Some f)
        with step core show ?thesis by (intro rec [OF resolves_to.direct [OF m core]]) simp_all
      next
        case can: None
        then have at: "CHR ''@'' \<notin> set ?t" using step core by (auto split: if_splits)
        show ?thesis
        proof (cases "mget (c_aliases c) ?t")
          case (Some n)
          with step core can at show ?thesis
            by (intro rec [OF resolves_to.via_alias [OF m core Some]]) simp_all
        next
          case ali: None
          show ?thesis
          proof (cases "mget (c_oldNames c) ?t")
            case (Some n)
            with step core can at ali show ?thesis
              by (intro rec [OF resolves_to.via_oldname [OF m core Some]]) simp_all
          next
            case old: None
            with step core can at ali obtain r1 c1 where has: "mhas (c_migrations c) ?t"
              and call: "resolveMigration c ?t (stk @ [name]) (mput name (length stk) active) = Inr (r1, c1)"
              and res: "recordResolution name r1 c1 = (r, c')"
              by (auto split: if_splits sum.splits)
            from "1.IH" [OF memo act m _ refl can at ali old has call "1.prems"(2)] core
            have ih: "memo_ok c1" "memo_extends c c1" "resolves_to c ?t r1" by auto
            have "resolves_to c name r1" using resolves_to.chain [OF m core ih(3)] .
            from recordResolution_ok [OF ih(1,2) this res] this show ?thesis by auto
          qed
        qed
      qed
    qed
  qed
qed

lemma resolve_loop:
  assumes "for_result resolveOne ms c = Inr c'" and "memo_ok c"
  shows "memo_ok c' \<and> memo_extends c c' \<and> m_Name ` set ms \<subseteq> fst ` set (c_resolved c')"
  using assms
proof (induction ms arbitrary: c)
  case Nil
  then show ?case by simp
next
  case (Cons m ms)
  from Cons.prems(1) obtain c1 where one: "resolveOne m c = Inr c1"
    and rest: "for_result resolveOne ms c1 = Inr c'" by (auto split: sum.splits)
  from one obtain r where r: "resolveMigration c (m_Name m) [] [] = Inr (r, c1)"
    by (auto simp: resolveOne_def split: sum.splits)
  note c1 = resolveMigration_Inr [OF r Cons.prems(2)]
  note c' = Cons.IH [OF rest conjunct1 [OF c1]]
  have "m_Name m \<in> fst ` set (c_resolved c1)"
    using c1 mget_Some_in_keys [of "c_resolved c1" "m_Name m"] by auto
  with c' have "m_Name m \<in> fst ` set (c_resolved c')" by (auto simp: memo_extends_def)
  with c' c1 memo_extends_trans [of c c1 c'] show ?case by simp
qed

text \<open>The loop that accepts migrations adds only migrations, each under its own name.\<close>

definition same_index :: "Catalog \<Rightarrow> Catalog \<Rightarrow> bool" where
  "same_index c c' \<longleftrightarrow> c_canonical c' = c_canonical c \<and> c_aliases c' = c_aliases c
     \<and> c_oldNames c' = c_oldNames c \<and> c_resolved c' = c_resolved c
     \<and> c_canonicalNames c' = c_canonicalNames c"

definition accepted_ok ::
  "Migration list \<Rightarrow> Catalog \<Rightarrow> (string, string) gomap \<times> Catalog \<times> Migration list \<Rightarrow> bool" where
  "accepted_ok ms c0 = (\<lambda>(claimed, c, accepted). claims_ok (claimed, c) \<and> same_index c0 c \<and>
     m_Name ` set accepted = fst ` set (c_migrations c) \<and>
     (\<forall>n m. mget (c_migrations c) n = Some m \<longrightarrow> m \<in> set ms \<and> m_Name m = n))"

lemma addMigration_ok:
  assumes "addMigration m s = Inr s'" and "accepted_ok ms c0 s" and "m \<in> set ms"
  shows "accepted_ok ms c0 s'"
proof -
  obtain claimed c accepted where s: "s = (claimed, c, accepted)" by (cases s)
  consider "s' = s" | "m_Name m \<notin> fst ` set claimed"
    "s' = (mput (m_Name m) ''migration'' claimed,
           c\<lparr>c_migrations := mput (m_Name m) m (c_migrations c)\<rparr>, accepted @ [m])"
    using assms(1) by (auto simp: s addMigration_def claimIndex_Inr split: if_splits sum.splits)
  then show ?thesis
  proof cases
    case 2
    have ok: "claims_ok (claimed, c)" "same_index c0 c"
      "m_Name ` set accepted = fst ` set (c_migrations c)"
      "\<forall>n m. mget (c_migrations c) n = Some m \<longrightarrow> m \<in> set ms \<and> m_Name m = n"
      using assms(2) by (simp_all add: s accepted_ok_def)
    have "claims_ok (fst s', fst (snd s'))"
      using ok(1) 2(1) by (auto simp: 2(2) claims_ok_def index_ok_def)
    with ok(2,3,4) assms(3) show ?thesis
      by (simp add: 2(2) accepted_ok_def same_index_def)
  qed (use assms(2) in simp)
qed

lemma addMigration_loop:
  assumes "for_result addMigration ms (claimed, c, []) = Inr s'" and "claims_ok (claimed, c)"
    and "c_migrations c = []"
  shows "accepted_ok ms c s'"
proof (rule for_result_invariant [OF assms(1)])
  show "accepted_ok ms c (claimed, c, [])" using assms(2,3) by (simp add: accepted_ok_def same_index_def)
qed (auto intro: addMigration_ok)

section \<open>The built catalog\<close>

lemma buildCatalog_passes:
  assumes "buildCatalog fs ms = Inr c"
  obtains claimed c1 c3 where "buildIndex fs = Inr (claimed, c1)"
    and "validateCatalogDependencies (canonicalAll c1 (canonical_names c1)) = None"
    and "\<forall>n f. mget (c_canonical c1) n = Some f \<longrightarrow> resolvable c1 f"
    and "index_ok c3" and "same_index (canonicalAll c1 (canonical_names c1)) c3"
    and "\<forall>n m. mget (c_migrations c3) n = Some m \<longrightarrow> m \<in> set ms \<and> m_Name m = n"
    and "memo_ok c" and "memo_extends c3 c" and "fst ` set (c_migrations c3) \<subseteq> fst ` set (c_resolved c)"
proof -
  from assms obtain claimed c1 c2 claimed' c3 accepted where
    c1: "buildIndex fs = Inr (claimed, c1)" and
    c2: "for_result canonicalizeFormula (c_canonicalNames c1) c1 = Inr c2" and
    val: "validateCatalogDependencies c2 = None" and
    c3: "for_result addMigration ms (claimed, c2, []) = Inr (claimed', c3, accepted)" and
    c: "for_result resolveOne accepted c3 = Inr c"
    by (auto simp: buildCatalog_def canonicalizeCatalogDependencies_def
        split: sum.splits option.splits)
  note idx = buildIndex_ok [OF c1]
  have names: "set (c_canonicalNames c1) = canonical_names c1" "distinct (c_canonicalNames c1)"
    "gomap_ok (c_canonical c1)"
    using idx(3) by (simp_all add: idx(2,4) gomap_ok_def image_image comp_def)
  have loop: "c2 = canonicalAll c1 (set (c_canonicalNames c1)) \<and> (\<forall>n \<in> set (c_canonicalNames c1).
      \<forall>f. mget (c_canonical c1) n = Some f \<longrightarrow> resolvable c1 f)"
    by (rule canonicalize_loop [OF c2 names(2) _ names(3)]) (simp add: names(1))
  then have c2': "c2 = canonicalAll c1 (canonical_names c1)" by (simp add: names(1))
  have res: "\<forall>n f. mget (c_canonical c1) n = Some f \<longrightarrow> resolvable c1 f"
  proof (intro allI impI)
    fix n f assume f: "mget (c_canonical c1) n = Some f"
    then have "n \<in> set (c_canonicalNames c1)" using mget_Some_in_keys [OF f] names(1) by simp
    with loop f show "resolvable c1 f" by blast
  qed
  have "claims_ok (claimed, c2)"
    using idx(1) index_ok_canonicalAll [of c1] unfolding c2' claims_ok_def by simp
  from addMigration_loop [OF c3 this] idx(5) have acc: "accepted_ok ms c2 (claimed', c3, accepted)"
    by (simp add: c2')
  then have "c_resolved c3 = []" using idx(6) by (simp add: accepted_ok_def same_index_def c2')
  then have "memo_ok c3" by (simp add: memo_ok_def)
  note memo = resolve_loop [OF c this]
  from acc have "index_ok c3" "same_index c2 c3" "m_Name ` set accepted = fst ` set (c_migrations c3)"
    "\<forall>n m. mget (c_migrations c3) n = Some m \<longrightarrow> m \<in> set ms \<and> m_Name m = n"
    by (auto simp: accepted_ok_def claims_ok_def)
  with that [OF c1 val [unfolded c2'] res] memo show thesis by (simp add: c2')
qed

lemma catalog_names_same:
  assumes "same_index (canonicalAll c1 S) c3" and "memo_extends c3 c"
  shows "canonical_names c = canonical_names c1" and "resolveName c = resolveName c1"
    and "canonicalForm c = canonicalForm c1" and "c_canonical c = c_canonical (canonicalAll c1 S)"
    and "c_canonicalNames c = c_canonicalNames c1" and "c_migrations c = c_migrations c3"
    and "index_ok c \<longleftrightarrow> index_ok c3" and "dependencyGraph c = dependencyGraph (canonicalAll c1 S)"
proof -
  from assms(2) obtain x where c: "c = c3\<lparr>c_resolved := x\<rparr>" by (auto simp: memo_extends_def)
  show can: "c_canonical c = c_canonical (canonicalAll c1 S)" using assms(1) by (simp add: c same_index_def)
  then show names: "canonical_names c = canonical_names c1" by (metis canonicalAll_simps(1))
  show "c_canonicalNames c = c_canonicalNames c1" "c_migrations c = c_migrations c3"
    "index_ok c \<longleftrightarrow> index_ok c3" using assms(1) by (simp_all add: c same_index_def index_ok_def)
  show res: "resolveName c = resolveName c1"
    using assms(1) by (intro resolveName_cong names) (simp_all add: c same_index_def)
  then show "canonicalForm c = canonicalForm c1" by (rule canonicalForm_cong)
  show "dependencyGraph c = dependencyGraph (canonicalAll c1 S)"
    by (intro ext) (simp add: dependencyGraph_def can)
qed

lemma buildCatalog_ok:
  assumes "buildCatalog fs ms = Inr c"
  shows "catalog_ok c" and "c_canonical c = map (\<lambda>f. (f_Name f, canonicalForm c f)) fs"
    and "\<forall>n m. mget (c_migrations c) n = Some m \<longrightarrow> m \<in> set ms \<and> m_Name m = n"
proof -
  from assms obtain claimed c1 c3 where c1: "buildIndex fs = Inr (claimed, c1)"
    and val: "validateCatalogDependencies (canonicalAll c1 (canonical_names c1)) = None"
    and res: "\<forall>n f. mget (c_canonical c1) n = Some f \<longrightarrow> resolvable c1 f"
    and c3: "index_ok c3" "same_index (canonicalAll c1 (canonical_names c1)) c3"
    and mig: "\<forall>n m. mget (c_migrations c3) n = Some m \<longrightarrow> m \<in> set ms \<and> m_Name m = n"
    and memo: "memo_ok c" "memo_extends c3 c" "fst ` set (c_migrations c3) \<subseteq> fst ` set (c_resolved c)"
    by (rule buildCatalog_passes)
  let ?c2 = "canonicalAll c1 (canonical_names c1)"
  note idx = buildIndex_ok [OF c1] and same = catalog_names_same [OF c3(2) memo(2)]
  show can: "c_canonical c = map (\<lambda>f. (f_Name f, canonicalForm c f)) fs"
    unfolding same(3,4) by (simp add: canonicalAll_def idx(2) image_image)
  show "\<forall>n m. mget (c_migrations c) n = Some m \<longrightarrow> m \<in> set ms \<and> m_Name m = n"
    using mig by (simp add: same(6))
  have gom: "gomap_ok (c_canonical c)" using idx(3) by (simp add: gomap_ok_def can comp_def)
  have names: "c_canonicalNames c = sort (mkeys (c_canonical c))"
    by (simp add: same(5) idx(4) can comp_def)
  have names2: "set (c_canonicalNames ?c2) = canonical_names ?c2"
    by (simp add: idx(2,4) image_image)
  have index1: "index_ok c1" using idx(1) by (simp add: claims_ok_def)
  have deps: "deps_ok c f" if f: "mget (c_canonical c) n = Some f" for n f
  proof -
    have "n \<in> canonical_names c1" using mget_Some_in_keys [OF f] same(1) by simp
    then obtain g where g: "mget (c_canonical c1) n = Some g" "f = canonicalForm c1 g"
      using f unfolding same(4) by (auto simp: canonicalAll_def mget_map_values)
    from res g(1) have "resolvable c1 g" by blast
    from canonicalForm_deps_ok [OF index1 this] show ?thesis by (simp add: g(2) deps_ok_def same(1))
  qed
  have acyclic: "\<nexists>cyc. is_cycle (deps (dependencyGraph c tag)) cyc" if "tag = [] \<or> linux_tag tag" for tag
    using validateCatalogDependencies_acyclic [OF val names2 that] by (simp add: same(8))
  have resolved: "\<exists>r. mget (c_resolved c) n = Some r \<and> resolves_to c n r"
    if n: "n \<in> fst ` set (c_migrations c)" for n
  proof -
    have "n \<in> fst ` set (c_resolved c)" using n memo(3) unfolding same(6) by blast
    then obtain r where "mget (c_resolved c) n = Some r" using in_keys_mget [of n "c_resolved c"] by auto
    with memo(1) show ?thesis unfolding memo_ok_def by blast
  qed
  show "catalog_ok c"
    unfolding catalog_ok_def using gom names c3(1) same(7) deps acyclic resolved by blast
qed

section \<open>Lookup\<close>

inductive_cases resolves_toE: "resolves_to c name r"

lemma resolves_to_migration: "resolves_to c name r \<Longrightarrow> \<exists>m. mget (c_migrations c) name = Some m"
  by (erule resolves_toE) auto

lemma mget_disjoint: "fst ` set m \<inter> fst ` set m' = {} \<Longrightarrow> mget m t = Some v \<Longrightarrow> mget m' t = None"
  using mget_Some_in_keys [of m t v] by (auto simp: map_of_eq_None_iff)

lemma mget_disjoint': "fst ` set m \<inter> fst ` set m' = {} \<Longrightarrow> mget m' t = Some v \<Longrightarrow> mget m t = None"
  using mget_disjoint [of m' m t v] by (simp add: Int_commute)

text \<open>A name is in one class only.\<close>

lemma index_classes:
  assumes "index_ok c"
  shows "mget (c_canonical c) t = Some f \<Longrightarrow>
      mget (c_aliases c) t = None \<and> mget (c_oldNames c) t = None \<and> mget (c_migrations c) t = None"
    and "mget (c_aliases c) t = Some n \<Longrightarrow>
      mget (c_canonical c) t = None \<and> mget (c_oldNames c) t = None \<and> mget (c_migrations c) t = None"
    and "mget (c_oldNames c) t = Some n \<Longrightarrow>
      mget (c_canonical c) t = None \<and> mget (c_aliases c) t = None \<and> mget (c_migrations c) t = None"
    and "mget (c_migrations c) t = Some m \<Longrightarrow>
      mget (c_canonical c) t = None \<and> mget (c_aliases c) t = None \<and> mget (c_oldNames c) t = None"
proof -
  have d: "canonical_names c \<inter> fst ` set (c_aliases c) = {}" "canonical_names c \<inter> fst ` set (c_oldNames c) = {}"
    "canonical_names c \<inter> fst ` set (c_migrations c) = {}"
    "fst ` set (c_aliases c) \<inter> fst ` set (c_oldNames c) = {}"
    "fst ` set (c_aliases c) \<inter> fst ` set (c_migrations c) = {}"
    "fst ` set (c_oldNames c) \<inter> fst ` set (c_migrations c) = {}" using assms by (simp_all add: index_ok_def)
  show "mget (c_canonical c) t = Some f \<Longrightarrow>
      mget (c_aliases c) t = None \<and> mget (c_oldNames c) t = None \<and> mget (c_migrations c) t = None"
    by (simp add: mget_disjoint [OF d(1)] mget_disjoint [OF d(2)] mget_disjoint [OF d(3)])
  show "mget (c_aliases c) t = Some n \<Longrightarrow>
      mget (c_canonical c) t = None \<and> mget (c_oldNames c) t = None \<and> mget (c_migrations c) t = None"
    by (simp add: mget_disjoint' [OF d(1)] mget_disjoint [OF d(4)] mget_disjoint [OF d(5)])
  show "mget (c_oldNames c) t = Some n \<Longrightarrow>
      mget (c_canonical c) t = None \<and> mget (c_aliases c) t = None \<and> mget (c_migrations c) t = None"
    by (simp add: mget_disjoint' [OF d(2)] mget_disjoint' [OF d(4)] mget_disjoint [OF d(6)])
  show "mget (c_migrations c) t = Some m \<Longrightarrow>
      mget (c_canonical c) t = None \<and> mget (c_aliases c) t = None \<and> mget (c_oldNames c) t = None"
    by (simp add: mget_disjoint' [OF d(3)] mget_disjoint' [OF d(5)] mget_disjoint' [OF d(6)])
qed

lemma resolves_to_unique:
  assumes "index_ok c" and "resolves_to c name r" and "resolves_to c name r'"
  shows "r' = r"
  using assms(2,3)
proof (induction arbitrary: r' rule: resolves_to.induct)
  case (external name m)
  from external.prems external.hyps show ?case by (cases rule: resolves_to.cases) auto
next
  case (direct name m f)
  from direct.prems direct.hyps index_classes(1) [OF assms(1) direct.hyps(3)] show ?case
    by (cases rule: resolves_to.cases) (auto dest: resolves_to_migration)
next
  case (via_alias name m n)
  from via_alias.prems via_alias.hyps index_classes(2) [OF assms(1) via_alias.hyps(3)] show ?case
    by (cases rule: resolves_to.cases) (auto dest: resolves_to_migration)
next
  case (via_oldname name m n)
  from via_oldname.prems via_oldname.hyps index_classes(3) [OF assms(1) via_oldname.hyps(3)] show ?case
    by (cases rule: resolves_to.cases) (auto dest: resolves_to_migration)
next
  case (chain name m r)
  obtain m' where "mget (c_migrations c) (m_TargetName m) = Some m'"
    using resolves_to_migration [OF chain.hyps(3)] by blast
  note cl = index_classes(4) [OF assms(1) this]
  from chain.prems show ?case
  proof (cases rule: resolves_to.cases)
    case (chain m'')
    with chain.hyps(1) chain.IH [of r'] show ?thesis by simp
  qed (use chain.hyps(1,2) cl in simp_all)
qed

text \<open>What a requested name stands for: the four ways a name leads to a canonical one.\<close>

definition denotes :: "Catalog \<Rightarrow> string \<Rightarrow> string \<Rightarrow> MatchKind \<Rightarrow> bool" where
  "denotes c name n kind \<longleftrightarrow>
     (case kind of
        MatchCanonical \<Rightarrow> n = name \<and> name \<in> canonical_names c
      | MatchAlias \<Rightarrow> CHR ''@'' \<notin> set name \<and> mget (c_aliases c) name = Some n
      | MatchOldName \<Rightarrow> CHR ''@'' \<notin> set name \<and> mget (c_oldNames c) name = Some n
      | MatchMigration \<Rightarrow> CHR ''@'' \<notin> set name \<and> resolves_to c name (toCanonical n))"

definition usable :: "Catalog \<Rightarrow> string \<Rightarrow> Formula \<Rightarrow> bool" where
  "usable c n f \<longleftrightarrow> mget (c_canonical c) n = Some f \<and> \<not> f_Disabled f \<and> f_Bottle f \<noteq> None"

lemma matchFormula_Inr:
  "matchFormula c name n kind = Inr m \<longleftrightarrow>
     m = \<lparr>mt_Requested = name, mt_Canonical = n, mt_Kind = kind, mt_Formula = mt_Formula m\<rparr>
     \<and> usable c n (mt_Formula m)"
  by (auto simp: matchFormula_def usable_def split: option.splits)

text \<open>The targets of migrations out of core are not empty: \<open>normalizeMigration\<close> rejects those.\<close>

definition external_targets :: "Migration list \<Rightarrow> bool" where
  "external_targets ms = list_all (\<lambda>m. m_InCore m \<or> m_Target m \<noteq> []) ms"

lemma resolves_to_external:
  assumes "resolves_to c name r" and "mr_externalTarget r = []"
    and "\<forall>n m. mget (c_migrations c) n = Some m \<longrightarrow> m_InCore m \<or> m_Target m \<noteq> []"
  shows "r = toCanonical (mr_canonical r)"
  using assms by (induction rule: resolves_to.induct) auto

lemma Lookup_Inr_iff:
  assumes ok: "index_ok c"
    and memo: "\<And>m. mget (c_migrations c) name = Some m \<Longrightarrow>
      \<exists>r. mget (c_resolved c) name = Some r \<and> resolves_to c name r"
    and ext: "\<forall>n m. mget (c_migrations c) n = Some m \<longrightarrow> m_InCore m \<or> m_Target m \<noteq> []"
  shows "Lookup (Some c) name = Inr m \<longleftrightarrow>
    formulaNamePattern name \<and> mt_Requested m = name \<and> denotes c name (mt_Canonical m) (mt_Kind m) \<and>
    usable c (mt_Canonical m) (mt_Formula m)"
proof -
  have eq: "m = \<lparr>mt_Requested = name, mt_Canonical = n, mt_Kind = kind, mt_Formula = mt_Formula m\<rparr> \<longleftrightarrow>
      mt_Requested m = name \<and> mt_Canonical m = n \<and> mt_Kind m = kind" for n kind
    by (cases m) auto
  have keys: "name \<in> canonical_names c \<longleftrightarrow> (\<exists>f. mget (c_canonical c) name = Some f)"
    by (metis in_keys_mget mget_Some_in_keys set_map)
  have none: "\<not> resolves_to c name r" if "mget (c_migrations c) name = None" for r
    using resolves_to_migration [of c name r] that by auto
  consider (bad) "\<not> formulaNamePattern name"
    | (can) f where "formulaNamePattern name" "mget (c_canonical c) name = Some f"
    | (at) "formulaNamePattern name" "mget (c_canonical c) name = None" "CHR ''@'' \<in> set name"
    | (ali) n where "formulaNamePattern name" "CHR ''@'' \<notin> set name" "mget (c_aliases c) name = Some n"
    | (old) n where "formulaNamePattern name" "CHR ''@'' \<notin> set name" "mget (c_oldNames c) name = Some n"
    | (mig) g where "formulaNamePattern name" "CHR ''@'' \<notin> set name" "mget (c_migrations c) name = Some g"
    | (no) "formulaNamePattern name" "CHR ''@'' \<notin> set name" "mget (c_canonical c) name = None"
        "mget (c_aliases c) name = None" "mget (c_oldNames c) name = None"
        "mget (c_migrations c) name = None"
    by (metis not_None_eq)
  then show ?thesis
  proof cases
    case bad
    then show ?thesis by (simp add: Lookup_def)
  next
    case can
    then have "f_Name f = name" using ok by (simp add: index_ok_def)
    with can index_classes(1) [OF ok can(2)] none show ?thesis
      by (cases "mt_Kind m") (auto simp: Lookup_def matchFormula_Inr eq denotes_def keys)
  next
    case at
    then show ?thesis by (cases "mt_Kind m") (auto simp: Lookup_def denotes_def keys)
  next
    case ali
    with index_classes(2) [OF ok ali(3)] none show ?thesis
      by (cases "mt_Kind m") (auto simp: Lookup_def matchFormula_Inr eq denotes_def keys)
  next
    case old
    with index_classes(3) [OF ok old(3)] none show ?thesis
      by (cases "mt_Kind m") (auto simp: Lookup_def matchFormula_Inr eq denotes_def keys)
  next
    case mig
    note cl = index_classes(4) [OF ok mig(3)]
    obtain r where r: "mget (c_resolved c) name = Some r" "resolves_to c name r" using memo [OF mig(3)] by blast
    have canon: "resolves_to c name (toCanonical n) \<longleftrightarrow> r = toCanonical n" for n
      using r(2) resolves_to_unique [OF ok] by blast
    show ?thesis
    proof (cases "mr_externalTarget r = []")
      case True
      then obtain n where n: "r = toCanonical n" using resolves_to_external [OF r(2) _ ext] by blast
      with mig cl r(1) canon show ?thesis
        by (cases "mt_Kind m")
          (auto simp: Lookup_def matchFormula_Inr eq denotes_def keys map_at_def mhas_def)
    next
      case False
      then have "\<not> resolves_to c name (toCanonical n)" for n by (auto simp: canon)
      with mig cl r(1) False show ?thesis
        by (cases "mt_Kind m") (auto simp: Lookup_def denotes_def keys map_at_def mhas_def)
    qed
  next
    case no
    with none show ?thesis
      by (cases "mt_Kind m") (auto simp: Lookup_def denotes_def keys mhas_def)
  qed
qed

lemma resolves_to_canonical:
  assumes "resolves_to c name r" and "mr_externalTarget r = []" and "index_ok c"
    and "\<forall>n m. mget (c_migrations c) n = Some m \<longrightarrow> m_InCore m \<or> m_Target m \<noteq> []"
  shows "mr_canonical r \<in> canonical_names c"
  using assms(1,2)
proof (induction rule: resolves_to.induct)
  case (external name m)
  then show ?case using assms(4) by auto
next
  case (direct name m f)
  then have "f_Name f = m_TargetName m" using assms(3) unfolding index_ok_def by blast
  with mget_Some_in_keys [OF direct.hyps(3)] show ?case by simp
next
  case (via_alias name m n)
  then have "n \<in> canonical_names c" using assms(3) unfolding index_ok_def by blast
  then show ?case by simp
next
  case (via_oldname name m n)
  then have "n \<in> canonical_names c" using assms(3) unfolding index_ok_def by blast
  then show ?case by simp
qed

lemma matchFormula_not_found:
  "n \<in> canonical_names c \<Longrightarrow> matchFormula c name n kind \<noteq> Inl (lookupError name t ErrFormulaNotFound)"
proof -
  assume "n \<in> canonical_names c"
  then obtain f where "mget (c_canonical c) n = Some f" using in_keys_mget [of n "c_canonical c"] by auto
  then show ?thesis by (simp add: matchFormula_def lookupError_def)
qed

lemma Lookup_not_found_iff:
  assumes ok: "index_ok c"
    and memo: "\<And>m. mget (c_migrations c) name = Some m \<Longrightarrow>
      \<exists>r. mget (c_resolved c) name = Some r \<and> resolves_to c name r"
    and ext: "\<forall>n m. mget (c_migrations c) n = Some m \<longrightarrow> m_InCore m \<or> m_Target m \<noteq> []"
  shows "(\<exists>t. Lookup (Some c) name = Inl (lookupError name t ErrFormulaNotFound)) \<longleftrightarrow>
    formulaNamePattern name \<and> CHR ''@'' \<notin> set name \<and> mget (c_canonical c) name = None \<and>
    mget (c_aliases c) name = None \<and> mget (c_oldNames c) name = None \<and>
    mget (c_migrations c) name = None" (is "?L \<longleftrightarrow> ?R")
proof
  assume ?R
  then show ?L by (auto simp: Lookup_def mhas_def)
next
  assume ?L
  then obtain t where t: "Lookup (Some c) name = Inl (lookupError name t ErrFormulaNotFound)" by blast
  have can: "mget (c_canonical c) name = None"
  proof (rule ccontr)
    assume "mget (c_canonical c) name \<noteq> None"
    then obtain f where f: "mget (c_canonical c) name = Some f" by blast
    then have "f_Name f = name" using ok unfolding index_ok_def by blast
    with f t mget_Some_in_keys [OF f] matchFormula_not_found [of name c name MatchCanonical t]
    show False by (auto simp: Lookup_def lookupError_def split: if_splits)
  qed
  with t have at: "formulaNamePattern name" "CHR ''@'' \<notin> set name"
    by (auto simp: Lookup_def lookupError_def split: if_splits)
  have ali: "mget (c_aliases c) name = None"
  proof (rule ccontr)
    assume "mget (c_aliases c) name \<noteq> None"
    then obtain n where n: "mget (c_aliases c) name = Some n" by blast
    then have "n \<in> canonical_names c" using ok unfolding index_ok_def by blast
    with n t can at matchFormula_not_found [of n c name MatchAlias t] show False by (simp add: Lookup_def)
  qed
  have old: "mget (c_oldNames c) name = None"
  proof (rule ccontr)
    assume "mget (c_oldNames c) name \<noteq> None"
    then obtain n where n: "mget (c_oldNames c) name = Some n" by blast
    then have "n \<in> canonical_names c" using ok unfolding index_ok_def by blast
    with n t can at ali matchFormula_not_found [of n c name MatchOldName t] show False
      by (simp add: Lookup_def)
  qed
  have "mget (c_migrations c) name = None"
  proof (rule ccontr)
    assume "mget (c_migrations c) name \<noteq> None"
    then obtain m where m: "mget (c_migrations c) name = Some m" by blast
    from memo [OF m] obtain r where r: "mget (c_resolved c) name = Some r" "resolves_to c name r" by blast
    with m t can at ali old resolves_to_canonical [OF r(2) _ ok ext]
      matchFormula_not_found [of "mr_canonical r" c name MatchMigration t] show False
      by (auto simp: Lookup_def mhas_def map_at_def lookupError_def split: if_splits)
  qed
  with can at ali old show ?R by simp
qed

lemma built_lookup_facts:
  assumes "buildCatalog fs ms = Inr c" and "external_targets ms"
  shows "index_ok c"
    and "mget (c_migrations c) name = Some m \<Longrightarrow>
      \<exists>r. mget (c_resolved c) name = Some r \<and> resolves_to c name r"
    and "\<forall>n m. mget (c_migrations c) n = Some m \<longrightarrow> m_InCore m \<or> m_Target m \<noteq> []"
proof -
  note built = buildCatalog_ok [OF assms(1)]
  show "index_ok c" using built(1) by (simp add: catalog_ok_def)
  show "\<exists>r. mget (c_resolved c) name = Some r \<and> resolves_to c name r"
    if m: "mget (c_migrations c) name = Some m"
    using built(1) mget_Some_in_keys [OF m] unfolding catalog_ok_def by simp
  show "\<forall>n m. mget (c_migrations c) n = Some m \<longrightarrow> m_InCore m \<or> m_Target m \<noteq> []"
    using built(3) assms(2) unfolding external_targets_def list_all_iff by blast
qed

lemma normalizeMigration_target:
  "normalizeMigration name target = Inr m \<Longrightarrow> m_InCore m \<or> m_Target m \<noteq> []"
  by (auto simp: normalizeMigration_def Let_def trim_space_def split: if_splits list.splits option.splits)

section \<open>Properties\<close>

text \<open>
  C8: A catalog that builds is well formed. Canonical names, aliases, old names and migrations are
  disjoint; aliases and old names lead to canonical Formulae; the dependencies of every Formula and
  of every variation are canonical and strictly ascending; the dependency graph has no cycle for the
  base metadata or for either Linux tag; and the memo table holds, for every migration, the end of
  its chain. The Formulae are the given ones with their dependencies replaced by canonical names.
\<close>

theorem catalog_build_ok:
  assumes "buildCatalog fs ms = Inr c"
  shows "catalog_ok c \<and> c_canonical c = map (\<lambda>f. (f_Name f, canonicalForm c f)) fs"
  using buildCatalog_ok [OF assms] by blast

definition sample_formula :: "string \<Rightarrow> string list \<Rightarrow> string list \<Rightarrow> Formula" where
  "sample_formula name aliases ds = zeroFormula\<lparr>f_Name := name, f_Aliases := aliases,
     f_StableVersion := ''1'', f_Dependencies := ds,
     f_Bottle := Some \<lparr>b_Rebuild = 0, b_RootURL = [], b_Files = []\<rparr>\<rparr>"

definition sample_formulae :: "Formula list" where
  "sample_formulae = [sample_formula ''wget'' [] [''tls''], sample_formula ''openssl'' [''tls''] []]"

definition sample_migrations :: "Migration list" where
  "sample_migrations = [\<lparr>m_Name = ''get'', m_Target = ''wget'', m_TargetName = ''wget'', m_InCore = True\<rparr>]"

lemma sample_build: "\<exists>c. buildCatalog sample_formulae sample_migrations = Inr c"
proof -
  have "is_ok (buildCatalog sample_formulae sample_migrations)" by code_simp
  then show ?thesis by (simp add: is_ok_iff)
qed

theorem catalog_build_ok_witness:
  "\<exists>c. buildCatalog sample_formulae sample_migrations = Inr c \<and> catalog_ok c"
  using sample_build catalog_build_ok by blast

text \<open>
  C9: \<open>Lookup\<close> on a built catalog succeeds exactly when the name is well formed, stands for a
  canonical name in one of the four ways, and that Formula is enabled and has a bottle. A name with
  \<open>@\<close> stands only for the canonical Formula of that name. The order of the index probes does not
  matter, because the indexes are disjoint.
\<close>

theorem lookup_exact:
  assumes "buildCatalog fs ms = Inr c" and "external_targets ms"
  shows "Lookup (Some c) name = Inr m \<longleftrightarrow>
    formulaNamePattern name \<and> mt_Requested m = name \<and> denotes c name (mt_Canonical m) (mt_Kind m) \<and>
    usable c (mt_Canonical m) (mt_Formula m)"
  by (rule Lookup_Inr_iff [OF built_lookup_facts [OF assms]])

theorem lookup_exact_witness:
  "\<exists>c m. buildCatalog sample_formulae sample_migrations = Inr c \<and> Lookup (Some c) ''get'' = Inr m \<and>
     denotes c ''get'' (mt_Canonical m) (mt_Kind m)"
proof -
  obtain c where c: "buildCatalog sample_formulae sample_migrations = Inr c" using sample_build by blast
  have ext: "external_targets sample_migrations" by code_simp
  have "case buildCatalog sample_formulae sample_migrations of
      Inl e \<Rightarrow> False | Inr c \<Rightarrow> is_ok (Lookup (Some c) ''get'')" by code_simp
  then obtain m where m: "Lookup (Some c) ''get'' = Inr m" by (auto simp: c is_ok_iff)
  from m have "denotes c ''get'' (mt_Canonical m) (mt_Kind m)" unfolding lookup_exact [OF c ext] by blast
  with c m show ?thesis by blast
qed

text \<open>
  C10: \<open>Lookup\<close> on a built catalog reports a missing Formula only for a well-formed name without \<open>@\<close>
  that no index holds: no alias, old name or migration ever leads nowhere.
\<close>

theorem lookup_not_found:
  assumes "buildCatalog fs ms = Inr c" and "external_targets ms"
  shows "(\<exists>t. Lookup (Some c) name = Inl (lookupError name t ErrFormulaNotFound)) \<longleftrightarrow>
    formulaNamePattern name \<and> CHR ''@'' \<notin> set name \<and> mget (c_canonical c) name = None \<and>
    mget (c_aliases c) name = None \<and> mget (c_oldNames c) name = None \<and>
    mget (c_migrations c) name = None"
  by (rule Lookup_not_found_iff [OF built_lookup_facts [OF assms]])

theorem lookup_not_found_witness:
  "\<exists>c. buildCatalog sample_formulae sample_migrations = Inr c \<and>
     \<not> (\<exists>t. Lookup (Some c) ''tls'' = Inl (lookupError ''tls'' t ErrFormulaNotFound))"
proof -
  obtain c where c: "buildCatalog sample_formulae sample_migrations = Inr c" using sample_build by blast
  have ext: "external_targets sample_migrations" by code_simp
  have "case buildCatalog sample_formulae sample_migrations of
      Inl e \<Rightarrow> False | Inr c \<Rightarrow> mget (c_aliases c) ''tls'' = Some ''openssl''" by code_simp
  then have "mget (c_aliases c) ''tls'' = Some ''openssl''" by (simp add: c)
  with c lookup_not_found [OF c ext, of "''tls''"] show ?thesis by auto
qed

text \<open>
  C11: The cycle check of one tag passes exactly when the dependency graph of the tag has no cycle,
  and where it fails, the reported path is a cycle of that graph. The search with a map of stack
  positions therefore reports the same cycles as the search that looks a node up on the stack.
\<close>

theorem cycle_check_exact:
  assumes "set (c_canonicalNames c) = fst ` set (c_canonical c)"
  shows "(validateDependencyCycles c tag = None \<longleftrightarrow> (\<nexists>cyc. is_cycle (deps (dependencyGraph c tag)) cyc)) \<and>
    (\<forall>label cyc. validateDependencyCycles c tag = Some (DependencyCycle label cyc) \<longrightarrow>
       topological (dependencyGraph c tag) (c_canonicalNames c) = Inl cyc \<and>
       is_cycle (deps (dependencyGraph c tag)) cyc)"
proof (intro conjI allI impI)
  let ?g = "dependencyGraph c tag"
  show "validateDependencyCycles c tag = None \<longleftrightarrow> (\<nexists>cyc. is_cycle (deps ?g) cyc)"
    by (rule validateDependencyCycles_None [OF assms])
  fix label cyc assume "validateDependencyCycles c tag = Some (DependencyCycle label cyc)"
  then have "for_result (cycleRoot ?g) (c_canonicalNames c) cs_empty = Inl cyc"
    by (auto simp: validateDependencyCycles_def split: sum.splits if_splits)
  then show top: "topological ?g (c_canonicalNames c) = Inl cyc"
    using cycle_search_topological [of ?g "c_canonicalNames c"] by (auto split: sum.splits)
  then show "is_cycle (deps ?g) cyc" using topological_Inl by blast
qed

definition cyclic_catalog :: Catalog where
  "cyclic_catalog = emptyCatalog\<lparr>
     c_canonical := [(''a'', sample_formula ''a'' [] [''b'']), (''b'', sample_formula ''b'' [] [''a''])],
     c_canonicalNames := [''a'', ''b'']\<rparr>"

theorem cycle_check_exact_witness:
  "validateDependencyCycles cyclic_catalog [] =
     Some (DependencyCycle ''base metadata'' [''a'', ''b'', ''a'']) \<and>
   is_cycle (deps (dependencyGraph cyclic_catalog [])) [''a'', ''b'', ''a'']"
proof -
  have run: "validateDependencyCycles cyclic_catalog [] =
     Some (DependencyCycle ''base metadata'' [''a'', ''b'', ''a''])" by code_simp
  have "set (c_canonicalNames cyclic_catalog) = fst ` set (c_canonical cyclic_catalog)"
    by (simp add: cyclic_catalog_def)
  from cycle_check_exact [OF this, of "[]"] run show ?thesis by blast
qed

end
