(* ===== verification/Formulaid.thy ===== *)
theory Formulaid
  imports GoStd
begin

text \<open>
  Canonical Formula and tap identities: \<open>internal/homebrew/formulaid/formulaid.go\<close>, and the wire
  form of the same identities in catalog documents, \<open>internal/catalog/identity.go\<close>.

  \<open>Tap\<close> and \<open>FormulaID\<close> are the two structs, \<open>Parse\<close>, \<open>ParseTap\<close>, \<open>ParseRoots\<close>, \<open>New\<close> and
  \<open>NewTap\<close> the constructors, and \<open>validateOwner\<close>, \<open>validateTapName\<close>, \<open>validateFormulaName\<close> the
  grammar. An error is the sentinel of the package with the check that failed. The wire types
  \<open>TapID\<close> and \<open>FormulaID\<close> of package catalog are strings, and the functions on them are prefixed
  \<open>TapID_\<close> and \<open>FormulaID_\<close>.

  The lemmas show that the owner grammar is the one of non-empty alphanumeric segments between
  single hyphens, that printing and parsing are inverse to one another, that printed identities
  stay within the length limits, and that a root list is accepted exactly when its canonical
  identities are distinct.
\<close>

section \<open>Identities and their grammar\<close>

datatype component_error =
    ComponentEmpty
  | ComponentDot
  | ComponentTooLong nat nat
  | OwnerEnds
  | OwnerChars
  | TapStart
  | TapChars
  | FormulaStart
  | FormulaVersioned
  | FormulaChars
  | IdentityTooLong nat
  | IdentityShape
  | NotFullyQualified

datatype formulaid_error =
    ErrInvalidFormulaID component_error
  | ErrInvalidTap component_error
  | ErrDuplicateRoot nat nat
  | RootError nat formulaid_error

record Tap =
  Tap_owner :: string
  Tap_name :: string

record FormulaID =
  FormulaID_tap :: Tap
  FormulaID_name :: string

definition maxOwnerBytes :: nat where
  "maxOwnerBytes = 39"

definition maxTapBytes :: nat where
  "maxTapBytes = 91"

definition maxFormulaBytes :: nat where
  "maxFormulaBytes = 252"

definition maxTapIDBytes :: nat where
  "maxTapIDBytes = maxOwnerBytes + 1 + maxTapBytes"

definition maxFormulaIDBytes :: nat where
  "maxFormulaIDBytes = maxTapIDBytes + 1 + maxFormulaBytes"

definition zeroTap :: Tap where
  "zeroTap = \<lparr>Tap_owner = [], Tap_name = []\<rparr>"

definition zeroFormulaID :: FormulaID where
  "zeroFormulaID = \<lparr>FormulaID_tap = zeroTap, FormulaID_name = []\<rparr>"

definition CoreTap :: Tap where
  "CoreTap = \<lparr>Tap_owner = ''homebrew'', Tap_name = ''core''\<rparr>"

definition validateComponent :: "string \<Rightarrow> nat \<Rightarrow> component_error option" where
  "validateComponent value maxBytes =
     (if value = [] then Some ComponentEmpty
      else if value = ''.'' \<or> value = ''..'' then Some ComponentDot
      else if length value > maxBytes then Some (ComponentTooLong (length value) maxBytes)
      else None)"

text \<open>The loop over the owner's bytes, with \<open>previousHyphen\<close> as its state.\<close>

fun ownerLoop :: "bool \<Rightarrow> string \<Rightarrow> bool" where
  "ownerLoop previousHyphen [] = True"
| "ownerLoop previousHyphen (c # cs) =
     (if isLowerAlphaNumeric c then ownerLoop False cs
      else if c = CHR ''-'' \<and> \<not> previousHyphen then ownerLoop True cs
      else False)"

definition validateOwner :: "string \<Rightarrow> component_error option" where
  "validateOwner own =
     (case validateComponent own maxOwnerBytes of
        Some e \<Rightarrow> Some e
      | None \<Rightarrow>
          if \<not> isLowerAlphaNumeric (hd own) \<or> \<not> isLowerAlphaNumeric (last own) then Some OwnerEnds
          else if \<not> ownerLoop False own then Some OwnerChars
          else None)"

definition validateTapName :: "string \<Rightarrow> component_error option" where
  "validateTapName name =
     (case validateComponent name maxTapBytes of
        Some e \<Rightarrow> Some e
      | None \<Rightarrow>
          if \<not> isLowerAlphaNumeric (hd name) then Some TapStart
          else if \<not> list_all (\<lambda>c. isLowerAlphaNumeric c \<or> c \<in> set ''._-'') name then Some TapChars
          else None)"

definition validateFormulaName :: "string \<Rightarrow> component_error option" where
  "validateFormulaName name =
     (case validateComponent name maxFormulaBytes of
        Some e \<Rightarrow> Some e
      | None \<Rightarrow>
          if \<not> isLowerAlphaNumeric (hd name) then Some FormulaStart
          else if count_list name CHR ''@'' > 1 \<or> last name = CHR ''@'' then Some FormulaVersioned
          else if \<not> list_all (\<lambda>c. isLowerAlphaNumeric c \<or> c \<in> set ''+_.@-'') name
            then Some FormulaChars
          else None)"

definition validateTap :: "Tap \<Rightarrow> component_error option" where
  "validateTap tap =
     (case validateOwner (Tap_owner tap) of
        Some e \<Rightarrow> Some e
      | None \<Rightarrow> validateTapName (Tap_name tap))"

definition newTap :: "string \<Rightarrow> string \<Rightarrow> (component_error, Tap) result" where
  "newTap own name =
     (case validateOwner own of
        Some e \<Rightarrow> Inl e
      | None \<Rightarrow> (case validateTapName name of
            Some e \<Rightarrow> Inl e
          | None \<Rightarrow> Inr \<lparr>Tap_owner = own, Tap_name = name\<rparr>))"

definition newFormulaID :: "Tap \<Rightarrow> string \<Rightarrow> (component_error, FormulaID) result" where
  "newFormulaID tap name =
     (case validateTap tap of
        Some e \<Rightarrow> Inl e
      | None \<Rightarrow> (case validateFormulaName name of
            Some e \<Rightarrow> Inl e
          | None \<Rightarrow> Inr \<lparr>FormulaID_tap = tap, FormulaID_name = name\<rparr>))"

definition NewTap :: "string \<Rightarrow> string \<Rightarrow> (formulaid_error, Tap) result" where
  "NewTap own name = (case newTap own name of Inl e \<Rightarrow> Inl (ErrInvalidTap e) | Inr t \<Rightarrow> Inr t)"

definition NewFormulaID :: "Tap \<Rightarrow> string \<Rightarrow> (formulaid_error, FormulaID) result" where
  "NewFormulaID tap name =
     (case newFormulaID tap name of Inl e \<Rightarrow> Inl (ErrInvalidFormulaID e) | Inr i \<Rightarrow> Inr i)"

definition ParseTap :: "string \<Rightarrow> (formulaid_error, Tap) result" where
  "ParseTap input =
     (if length input > maxTapIDBytes then Inl (ErrInvalidTap (IdentityTooLong (length input)))
      else if count_list input CHR ''/'' \<noteq> 1 then Inl (ErrInvalidTap IdentityShape)
      else let (own, name) = cut_at CHR ''/'' input
           in case newTap own name of Inl e \<Rightarrow> Inl (ErrInvalidTap e) | Inr t \<Rightarrow> Inr t)"

definition Tap_String :: "Tap \<Rightarrow> string" where
  "Tap_String t = (if t = zeroTap then [] else Tap_owner t @ ''/'' @ Tap_name t)"

definition Parse :: "string \<Rightarrow> (formulaid_error, FormulaID) result" where
  "Parse input =
     (if length input > maxFormulaIDBytes
      then Inl (ErrInvalidFormulaID (IdentityTooLong (length input)))
      else let slashes = count_list input CHR ''/'' in
        if slashes = 0 then
          (case newFormulaID CoreTap input of
             Inl e \<Rightarrow> Inl (ErrInvalidFormulaID e) | Inr i \<Rightarrow> Inr i)
        else if slashes = 2 then
          (let parts = split_on CHR ''/'' input in
           case newTap (parts ! 0) (parts ! 1) of
             Inl e \<Rightarrow> Inl (ErrInvalidFormulaID e)
           | Inr tap \<Rightarrow> (case newFormulaID tap (parts ! 2) of
               Inl e \<Rightarrow> Inl (ErrInvalidFormulaID e) | Inr i \<Rightarrow> Inr i))
        else Inl (ErrInvalidFormulaID IdentityShape))"

definition FormulaID_String :: "FormulaID \<Rightarrow> string" where
  "FormulaID_String i =
     (if i = zeroFormulaID then []
      else Tap_String (FormulaID_tap i) @ ''/'' @ FormulaID_name i)"

text \<open>
  The loop of \<open>ParseRoots\<close>: \<open>i\<close> is the index of the next root and \<open>seen\<close> maps each identity to
  the index it was first seen at. A nil slice of roots and an empty one give the same empty result.
\<close>

fun parseRootsFrom ::
  "nat \<Rightarrow> (FormulaID, nat) gomap \<Rightarrow> string list \<Rightarrow> (formulaid_error, FormulaID list) result" where
  "parseRootsFrom i seen [] = Inr []"
| "parseRootsFrom i seen (root # roots) =
     (case Parse root of
        Inl e \<Rightarrow> Inl (RootError i e)
      | Inr fid \<Rightarrow>
          (case mget seen fid of
             Some first \<Rightarrow> Inl (ErrDuplicateRoot first i)
           | None \<Rightarrow>
               (case parseRootsFrom (Suc i) (mput fid i seen) roots of
                  Inl e \<Rightarrow> Inl e
                | Inr ids \<Rightarrow> Inr (fid # ids))))"

definition ParseRoots :: "string list \<Rightarrow> (formulaid_error, FormulaID list) result" where
  "ParseRoots roots = parseRootsFrom 0 [] roots"

section \<open>Wire identities of package catalog\<close>

type_synonym TapID = string
type_synonym FormulaIDw = string

definition ParseTapID :: "string \<Rightarrow> (formulaid_error, TapID) result" where
  "ParseTapID value = (case ParseTap value of Inl e \<Rightarrow> Inl e | Inr t \<Rightarrow> Inr (Tap_String t))"

definition ParseFormulaID :: "string \<Rightarrow> (formulaid_error, FormulaIDw) result" where
  "ParseFormulaID value =
     (case Parse value of Inl e \<Rightarrow> Inl e | Inr i \<Rightarrow> Inr (FormulaID_String i))"

definition ParseFormulaIDs :: "string list \<Rightarrow> (formulaid_error, FormulaIDw list) result" where
  "ParseFormulaIDs values =
     (case ParseRoots values of Inl e \<Rightarrow> Inl e | Inr ids \<Rightarrow> Inr (map FormulaID_String ids))"

definition TapID_Shared :: "TapID \<Rightarrow> (formulaid_error, Tap) result" where
  "TapID_Shared i = ParseTap i"

definition FormulaID_Shared :: "FormulaIDw \<Rightarrow> (formulaid_error, FormulaID) result" where
  "FormulaID_Shared i =
     (case Parse i of
        Inl e \<Rightarrow> Inl e
      | Inr parsed \<Rightarrow>
          if FormulaID_String parsed \<noteq> i then Inl (ErrInvalidFormulaID NotFullyQualified)
          else Inr parsed)"

definition TapID_Validate :: "TapID \<Rightarrow> formulaid_error option" where
  "TapID_Validate i =
     (case ParseTap i of
        Inl e \<Rightarrow> Some e
      | Inr parsed \<Rightarrow>
          if Tap_String parsed \<noteq> i then Some (ErrInvalidTap NotFullyQualified) else None)"

definition FormulaID_Validate :: "FormulaIDw \<Rightarrow> formulaid_error option" where
  "FormulaID_Validate i =
     (case Parse i of
        Inl e \<Rightarrow> Some e
      | Inr parsed \<Rightarrow>
          if FormulaID_String parsed \<noteq> i then Some (ErrInvalidFormulaID NotFullyQualified)
          else None)"

definition FormulaID_Tap :: "FormulaIDw \<Rightarrow> TapID" where
  "FormulaID_Tap i =
     (case Parse i of
        Inl e \<Rightarrow> []
      | Inr parsed \<Rightarrow>
          if FormulaID_String parsed \<noteq> i then [] else Tap_String (FormulaID_tap parsed))"

definition FormulaID_Name :: "FormulaIDw \<Rightarrow> string" where
  "FormulaID_Name i =
     (case Parse i of
        Inl e \<Rightarrow> []
      | Inr parsed \<Rightarrow>
          if FormulaID_String parsed \<noteq> i then [] else FormulaID_name parsed)"

definition TapID_Owner :: "TapID \<Rightarrow> string" where
  "TapID_Owner i =
     (case ParseTap i of
        Inl e \<Rightarrow> []
      | Inr parsed \<Rightarrow> if Tap_String parsed \<noteq> i then [] else Tap_owner parsed)"

definition TapID_Name :: "TapID \<Rightarrow> string" where
  "TapID_Name i =
     (case ParseTap i of
        Inl e \<Rightarrow> []
      | Inr parsed \<Rightarrow> if Tap_String parsed \<noteq> i then [] else Tap_name parsed)"

definition TapID_IsCore :: "TapID \<Rightarrow> bool" where
  "TapID_IsCore i = (i = Tap_String CoreTap)"

definition FormulaID_IsCore :: "FormulaIDw \<Rightarrow> bool" where
  "FormulaID_IsCore i = (FormulaID_Tap i = Tap_String CoreTap)"

definition DefaultGitHubRepository :: "TapID \<Rightarrow> string" where
  "DefaultGitHubRepository i =
     (if TapID_Owner i = [] \<or> TapID_Name i = [] then []
      else ''https://github.com/'' @ TapID_Owner i @ ''/homebrew-'' @ TapID_Name i)"

section \<open>The grammar, written out\<close>

definition tap_ok :: "Tap \<Rightarrow> bool" where
  "tap_ok t = (validateTap t = None)"

definition id_ok :: "FormulaID \<Rightarrow> bool" where
  "id_ok i = (tap_ok (FormulaID_tap i) \<and> validateFormulaName (FormulaID_name i) = None)"

text \<open>
  The grammar of an owner written out: at most 39 bytes, and between its hyphens only non-empty
  runs of lowercase letters and digits.
\<close>

definition owner_grammar :: "string \<Rightarrow> bool" where
  "owner_grammar s \<longleftrightarrow> length s \<le> 39 \<and>
     (\<forall>seg \<in> set (split_on CHR ''-'' s). seg \<noteq> [] \<and> list_all isLowerAlphaNumeric seg)"

definition tap_grammar :: "string \<Rightarrow> bool" where
  "tap_grammar s \<longleftrightarrow> s \<noteq> [] \<and> length s \<le> 91 \<and> isLowerAlphaNumeric (hd s) \<and>
     (\<forall>c \<in> set s. isLowerAlphaNumeric c \<or> c \<in> set ''._-'')"

definition formula_grammar :: "string \<Rightarrow> bool" where
  "formula_grammar s \<longleftrightarrow> s \<noteq> [] \<and> length s \<le> 252 \<and> isLowerAlphaNumeric (hd s) \<and>
     last s \<noteq> CHR ''@'' \<and> count_list s CHR ''@'' \<le> 1 \<and>
     (\<forall>c \<in> set s. isLowerAlphaNumeric c \<or> c \<in> set ''+_.@-'')"

section \<open>The checks decide the grammar\<close>

lemma not_alnum [simp]:
  "\<not> isLowerAlphaNumeric CHR ''/''" "\<not> isLowerAlphaNumeric CHR ''-''"
  "\<not> isLowerAlphaNumeric CHR ''.''" "\<not> isLowerAlphaNumeric CHR ''@''"
  by (simp_all add: isLowerAlphaNumeric_def less_eq_char_def)

lemma validateComponent_None:
  "validateComponent v n = None \<longleftrightarrow> v \<noteq> [] \<and> v \<noteq> ''.'' \<and> v \<noteq> ''..'' \<and> length v \<le> n"
  by (auto simp: validateComponent_def)

text \<open>
  The loop accepts exactly the strings whose pieces between hyphens are alphanumeric and, but for
  the first and the last, not empty.
\<close>

lemma ownerLoop_segments:
  "ownerLoop p s \<and> (s \<noteq> [] \<longrightarrow> last s \<noteq> CHR ''-'') \<and> (p \<longrightarrow> s \<noteq> []) \<longleftrightarrow>
     list_all (list_all isLowerAlphaNumeric) (split_on CHR ''-'' s)
     \<and> list_all (\<lambda>seg. seg \<noteq> []) (tl (split_on CHR ''-'' s))
     \<and> (p \<longrightarrow> hd (split_on CHR ''-'' s) \<noteq> [])"
proof (induction p s rule: ownerLoop.induct)
  case (1 p)
  then show ?case by simp
next
  case (2 p c cs)
  obtain y ys where split: "split_on CHR ''-'' cs = y # ys"
    by (meson neq_Nil_conv split_on_not_Nil)
  show ?case
  proof (cases "isLowerAlphaNumeric c")
    case True
    then have "c \<noteq> CHR ''-''" by auto
    with True 2(1) [OF True] split show ?thesis by (cases cs) auto
  next
    case False
    with 2(2) split show ?thesis by (cases "c = CHR ''-''"; cases cs) auto
  qed
qed

lemma validateOwner_None_iff:
  "validateOwner s = None \<longleftrightarrow>
     length s \<le> maxOwnerBytes \<and>
     (\<forall>seg \<in> set (split_on CHR ''-'' s). seg \<noteq> [] \<and> list_all isLowerAlphaNumeric seg)"
proof (cases "s = []")
  case True
  then show ?thesis by (simp add: validateOwner_def validateComponent_def)
next
  case False
  obtain y ys where split: "split_on CHR ''-'' s = y # ys"
    by (meson neq_Nil_conv split_on_not_Nil)
  have hd: "y \<noteq> [] \<longleftrightarrow> hd s \<noteq> CHR ''-''"
    using False split by (cases s) (auto split: if_splits)
  have loop: "ownerLoop False s \<and> last s \<noteq> CHR ''-'' \<longleftrightarrow>
      list_all (list_all isLowerAlphaNumeric) (y # ys) \<and> list_all (\<lambda>seg. seg \<noteq> []) ys"
    using ownerLoop_segments [of False s] False split by simp
  have lst: "ownerLoop p s \<Longrightarrow> s \<noteq> [] \<Longrightarrow> isLowerAlphaNumeric (last s) \<longleftrightarrow> last s \<noteq> CHR ''-''"
    for p s
    by (induction p s rule: ownerLoop.induct) (auto split: if_splits)
  have fst: "ownerLoop p s \<Longrightarrow> s \<noteq> [] \<Longrightarrow> isLowerAlphaNumeric (hd s) \<longleftrightarrow> hd s \<noteq> CHR ''-''"
    for p s
    by (cases s) (auto split: if_splits)
  have "validateOwner s = None \<longleftrightarrow> length s \<le> maxOwnerBytes \<and>
      isLowerAlphaNumeric (hd s) \<and> isLowerAlphaNumeric (last s) \<and> ownerLoop False s"
    using False by (cases "s = ''.'' \<or> s = ''..''")
      (auto simp: validateOwner_def validateComponent_def)
  also have "\<dots> \<longleftrightarrow> length s \<le> maxOwnerBytes \<and> y \<noteq> [] \<and>
      list_all (list_all isLowerAlphaNumeric) (y # ys) \<and> list_all (\<lambda>seg. seg \<noteq> []) ys"
    using loop hd lst [of False s] fst [of False s] False by blast
  also have "\<dots> \<longleftrightarrow> length s \<le> maxOwnerBytes \<and>
      (\<forall>seg \<in> set (y # ys). seg \<noteq> [] \<and> list_all isLowerAlphaNumeric seg)"
    by (auto simp: list_all_iff)
  finally show ?thesis using split by simp
qed

lemma validateOwner_no_slash: "validateOwner s = None \<Longrightarrow> CHR ''/'' \<notin> set s"
proof -
  have "ownerLoop p s \<Longrightarrow> CHR ''/'' \<notin> set s" for p s
    by (induction p s rule: ownerLoop.induct) (auto split: if_splits)
  then show "validateOwner s = None \<Longrightarrow> CHR ''/'' \<notin> set s"
    by (auto simp: validateOwner_def split: option.splits if_splits)
qed

lemma validateTapName_no_slash: "validateTapName s = None \<Longrightarrow> CHR ''/'' \<notin> set s"
  by (auto simp: validateTapName_def list_all_iff split: option.splits if_splits)

lemma validateFormulaName_no_slash: "validateFormulaName s = None \<Longrightarrow> CHR ''/'' \<notin> set s"
  by (auto simp: validateFormulaName_def list_all_iff split: option.splits if_splits)

lemma validate_lengths:
  "validateOwner s = None \<Longrightarrow> s \<noteq> [] \<and> length s \<le> maxOwnerBytes"
  "validateTapName s = None \<Longrightarrow> s \<noteq> [] \<and> length s \<le> maxTapBytes"
  "validateFormulaName s = None \<Longrightarrow> s \<noteq> [] \<and> length s \<le> maxFormulaBytes"
  by (auto simp: validateOwner_def validateTapName_def validateFormulaName_def
      validateComponent_None split: option.splits if_splits)

lemmas no_slash = validateOwner_no_slash validateTapName_no_slash validateFormulaName_no_slash

lemma tap_ok_iff:
  "tap_ok t \<longleftrightarrow> validateOwner (Tap_owner t) = None \<and> validateTapName (Tap_name t) = None"
  by (auto simp: tap_ok_def validateTap_def split: option.splits)

lemma newTap_Inr_iff: "newTap o' n = Inr t \<longleftrightarrow> t = \<lparr>Tap_owner = o', Tap_name = n\<rparr> \<and> tap_ok t"
  by (auto simp: newTap_def tap_ok_iff split: option.splits)

lemma newFormulaID_Inr_iff:
  "newFormulaID t n = Inr i \<longleftrightarrow> i = \<lparr>FormulaID_tap = t, FormulaID_name = n\<rparr> \<and> id_ok i"
  by (auto simp: newFormulaID_def id_ok_def tap_ok_def split: option.splits)

lemma tap_ok_not_zero [simp]: "tap_ok t \<Longrightarrow> t \<noteq> zeroTap"
  by (auto simp: tap_ok_iff zeroTap_def dest: validate_lengths)

lemma id_ok_not_zero [simp]: "id_ok i \<Longrightarrow> i \<noteq> zeroFormulaID"
  by (auto simp: id_ok_def zeroFormulaID_def dest: validate_lengths)

lemma core_ok: "tap_ok CoreTap"
  by (simp add: tap_ok_iff CoreTap_def validateOwner_def validateTapName_def validateComponent_def
      isLowerAlphaNumeric_def less_eq_char_def maxOwnerBytes_def maxTapBytes_def)

section \<open>Printing and parsing\<close>

lemma Tap_String_ok: "tap_ok t \<Longrightarrow> Tap_String t = Tap_owner t @ ''/'' @ Tap_name t"
  by (simp add: Tap_String_def)

lemma FormulaID_String_ok:
  "id_ok i \<Longrightarrow> FormulaID_String i =
     join_with CHR ''/'' [Tap_owner (FormulaID_tap i), Tap_name (FormulaID_tap i), FormulaID_name i]"
  by (auto simp: FormulaID_String_def id_ok_def Tap_String_ok)

lemma id_ok_parts:
  assumes "id_ok i"
  shows "CHR ''/'' \<notin> set (Tap_owner (FormulaID_tap i))"
    and "CHR ''/'' \<notin> set (Tap_name (FormulaID_tap i))"
    and "CHR ''/'' \<notin> set (FormulaID_name i)"
    and "length (Tap_owner (FormulaID_tap i)) \<le> maxOwnerBytes"
    and "length (Tap_name (FormulaID_tap i)) \<le> maxTapBytes"
    and "length (FormulaID_name i) \<le> maxFormulaBytes"
  using assms by (auto simp: id_ok_def tap_ok_iff dest: no_slash validate_lengths)

lemma split_String:
  "id_ok i \<Longrightarrow> split_on CHR ''/'' (FormulaID_String i) =
     [Tap_owner (FormulaID_tap i), Tap_name (FormulaID_tap i), FormulaID_name i]"
  by (simp add: FormulaID_String_ok split_join id_ok_parts del: join_with.simps)

lemma count_slash_split: "count_list s CHR ''/'' = length (split_on CHR ''/'' s) - 1"
  by (simp add: length_split_on)

lemma length_String: "id_ok i \<Longrightarrow> length (FormulaID_String i) \<le> maxFormulaIDBytes"
  using id_ok_parts(4-6) [of i]
  by (simp add: FormulaID_String_ok maxFormulaIDBytes_def maxTapIDBytes_def)

lemma Parse_bare:
  "CHR ''/'' \<notin> set s \<Longrightarrow> length s \<le> maxFormulaIDBytes \<Longrightarrow>
     Parse s = (case newFormulaID CoreTap s of
       Inl e \<Rightarrow> Inl (ErrInvalidFormulaID e) | Inr i \<Rightarrow> Inr i)"
  by (simp add: Parse_def count_notin)

lemma Parse_Inr_iff:
  "Parse s = Inr i \<longleftrightarrow>
     id_ok i \<and> (s = FormulaID_String i \<or> FormulaID_tap i = CoreTap \<and> s = FormulaID_name i)"
proof
  assume parse: "Parse s = Inr i"
  show "id_ok i \<and> (s = FormulaID_String i \<or> FormulaID_tap i = CoreTap \<and> s = FormulaID_name i)"
  proof (cases "count_list s CHR ''/'' = 0")
    case True
    with parse have "newFormulaID CoreTap s = Inr i"
      by (simp add: Parse_def split: if_splits sum.splits)
    then show ?thesis by (auto simp: newFormulaID_Inr_iff)
  next
    case False
    with parse have two: "count_list s CHR ''/'' = 2"
      by (simp add: Parse_def split: if_splits)
    then obtain a b c where split: "split_on CHR ''/'' s = [a, b, c]"
      using length_split_on [of "CHR ''/''" s] by (auto simp: length_Suc_conv numeral_2_eq_2)
    from parse two split have ok: "id_ok i"
      and i: "i = \<lparr>FormulaID_tap = \<lparr>Tap_owner = a, Tap_name = b\<rparr>, FormulaID_name = c\<rparr>"
      by (auto simp: Parse_def newFormulaID_Inr_iff newTap_Inr_iff split: if_splits sum.splits)
    have "s = join_with CHR ''/'' [a, b, c]"
      using join_split [of "CHR ''/''" s] split by simp
    with ok i show ?thesis by (simp add: FormulaID_String_ok)
  qed
next
  assume right: "id_ok i \<and>
    (s = FormulaID_String i \<or> FormulaID_tap i = CoreTap \<and> s = FormulaID_name i)"
  then have ok: "id_ok i" by simp
  show "Parse s = Inr i"
  proof (cases "s = FormulaID_String i")
    case True
    have "count_list s CHR ''/'' = 2"
      using split_String [OF ok] True by (simp add: count_slash_split)
    moreover have "newTap (Tap_owner (FormulaID_tap i)) (Tap_name (FormulaID_tap i))
        = Inr (FormulaID_tap i)"
      using ok by (simp add: newTap_Inr_iff id_ok_def)
    moreover have "newFormulaID (FormulaID_tap i) (FormulaID_name i) = Inr i"
      using ok by (simp add: newFormulaID_Inr_iff)
    ultimately show ?thesis
      using length_String [OF ok] split_String [OF ok] True by (simp add: Parse_def Let_def)
  next
    case False
    with right have s: "FormulaID_tap i = CoreTap" "s = FormulaID_name i" by auto
    have "length s \<le> maxFormulaIDBytes"
      using id_ok_parts(6) [OF ok] s by (simp add: maxFormulaIDBytes_def)
    moreover have "newFormulaID CoreTap s = Inr i"
      using ok s by (simp add: newFormulaID_Inr_iff)
    ultimately show ?thesis using id_ok_parts(3) [OF ok] s by (simp add: Parse_bare)
  qed
qed

lemma Parse_String: "id_ok i \<Longrightarrow> Parse (FormulaID_String i) = Inr i"
  by (simp add: Parse_Inr_iff)

lemma String_inj: "id_ok i \<Longrightarrow> id_ok j \<Longrightarrow> FormulaID_String i = FormulaID_String j \<Longrightarrow> i = j"
  by (metis Parse_String sum.inject(2))

lemma count_slash_String: "id_ok i \<Longrightarrow> count_list (FormulaID_String i) CHR ''/'' = 2"
  by (simp add: count_slash_split split_String)

lemma ParseTap_Inr_iff: "ParseTap s = Inr t \<longleftrightarrow> tap_ok t \<and> s = Tap_String t"
proof
  assume parse: "ParseTap s = Inr t"
  then have one: "count_list s CHR ''/'' = 1" by (simp add: ParseTap_def split: if_splits)
  then have split: "split_on CHR ''/'' s = [fst (cut_at CHR ''/'' s), snd (cut_at CHR ''/'' s)]"
    by (rule cut_at_split)
  from parse have "newTap (fst (cut_at CHR ''/'' s)) (snd (cut_at CHR ''/'' s)) = Inr t"
    by (simp add: ParseTap_def case_prod_beta split: if_splits sum.splits)
  then have t: "t = \<lparr>Tap_owner = fst (cut_at CHR ''/'' s), Tap_name = snd (cut_at CHR ''/'' s)\<rparr>
      \<and> tap_ok t"
    by (rule newTap_Inr_iff [THEN iffD1])
  from t [THEN conjunct1] t [THEN conjunct2] show "tap_ok t \<and> s = Tap_String t"
    using join_split [of "CHR ''/''" s] split by (simp add: Tap_String_ok)
next
  assume right: "tap_ok t \<and> s = Tap_String t"
  then have s: "s = join_with CHR ''/'' [Tap_owner t, Tap_name t]" by (simp add: Tap_String_ok)
  have parts: "CHR ''/'' \<notin> set (Tap_owner t)" "CHR ''/'' \<notin> set (Tap_name t)"
    "length (Tap_owner t) \<le> maxOwnerBytes" "length (Tap_name t) \<le> maxTapBytes"
    using right by (auto simp: tap_ok_iff dest: no_slash validate_lengths)
  then have split: "split_on CHR ''/'' s = [Tap_owner t, Tap_name t]"
    unfolding s by (intro split_join) auto
  then have one: "count_list s CHR ''/'' = 1" by (simp add: count_slash_split)
  from cut_at_split [OF one] split have cut: "cut_at CHR ''/'' s = (Tap_owner t, Tap_name t)"
    by (simp add: prod_eq_iff)
  have "length s \<le> maxTapIDBytes"
    using parts(3,4) unfolding s by (simp add: maxTapIDBytes_def)
  moreover have "newTap (Tap_owner t) (Tap_name t) = Inr t"
    using right by (simp add: newTap_Inr_iff)
  ultimately show "ParseTap s = Inr t" using one cut by (simp add: ParseTap_def)
qed

lemma parseRootsFrom_Inr_iff:
  "parseRootsFrom n seen roots = Inr ids \<longleftrightarrow>
     list_all2 (\<lambda>r i. Parse r = Inr i) roots ids \<and> distinct ids
     \<and> set ids \<inter> set (mkeys seen) = {}"
proof (induction roots arbitrary: n seen ids)
  case Nil
  then show ?case by auto
next
  case (Cons r roots)
  show ?case
  proof (cases "Parse r")
    case (Inl e)
    then show ?thesis by (cases ids) auto
  next
    case (Inr i)
    show ?thesis
    proof (cases "mget seen i")
      case None
      then have "i \<notin> set (mkeys seen)" by (simp add: map_of_eq_None_iff)
      have step: "parseRootsFrom n seen (r # roots) = Inr ids \<longleftrightarrow>
          (\<exists>ids'. ids = i # ids' \<and> parseRootsFrom (Suc n) (mput i n seen) roots = Inr ids')"
        using Inr None by (auto split: sum.splits)
      show ?thesis
        unfolding step Cons.IH using Inr \<open>i \<notin> set (mkeys seen)\<close> by (cases ids) auto
    next
      case (Some k)
      then have "i \<in> set (mkeys seen)" by (rule mget_Some_in_keys)
      with Inr Some show ?thesis by (cases ids) auto
    qed
  qed
qed

lemma grammar_id_ok:
  "id_ok i \<longleftrightarrow> owner_grammar (Tap_owner (FormulaID_tap i)) \<and> tap_grammar (Tap_name (FormulaID_tap i))
     \<and> formula_grammar (FormulaID_name i)"
proof -
  have tap: "validateTapName s = None \<longleftrightarrow> tap_grammar s" for s
    by (auto simp: validateTapName_def validateComponent_def tap_grammar_def maxTapBytes_def
        list_all_iff split: option.splits if_splits)
  have name: "validateFormulaName s = None \<longleftrightarrow> formula_grammar s" for s
    by (auto simp: validateFormulaName_def validateComponent_def formula_grammar_def
        maxFormulaBytes_def list_all_iff split: option.splits if_splits)
  show ?thesis
    by (simp add: id_ok_def tap_ok_iff tap name validateOwner_None_iff owner_grammar_def
        maxOwnerBytes_def)
qed

section \<open>Properties\<close>

text \<open>
  C33: A string parses to an identity exactly when the identity obeys the grammar of owners, taps
  and Formula names, and the string is its \<open>owner/tap/formula\<close> form, or its bare name where the tap
  is \<open>homebrew/core\<close>. Bare and qualified core names are therefore one identity, and nothing else is.
\<close>

theorem formula_id_parse_iff:
  "Parse s = Inr i \<longleftrightarrow>
     owner_grammar (Tap_owner (FormulaID_tap i)) \<and> tap_grammar (Tap_name (FormulaID_tap i))
     \<and> formula_grammar (FormulaID_name i)
     \<and> (s = Tap_owner (FormulaID_tap i) @ ''/'' @ Tap_name (FormulaID_tap i) @ ''/'' @ FormulaID_name i
        \<or> FormulaID_tap i = CoreTap \<and> s = FormulaID_name i)"
  using grammar_id_ok [of i] by (cases "id_ok i") (auto simp: Parse_Inr_iff FormulaID_String_ok)

text \<open>
  C34: A list of roots is accepted exactly when every root parses and the parsed identities are
  distinct; the result lists them in the order of the roots. A bare core name beside its
  \<open>homebrew/core\<close> form is therefore rejected.
\<close>

theorem parse_roots_iff:
  "ParseRoots roots = Inr ids \<longleftrightarrow> list_all2 (\<lambda>r i. Parse r = Inr i) roots ids \<and> distinct ids"
  by (simp add: ParseRoots_def parseRootsFrom_Inr_iff)

text \<open>
  C35: The wire form of a parsed Formula identity is canonical: it validates, parsing it again
  changes nothing, it is its tap and its name joined by a slash, the tap validates and splits into
  its owner and name, and it has at most 384 bytes.
\<close>

theorem wire_id_canonical:
  assumes "ParseFormulaID s = Inr w"
  shows "FormulaID_Validate w = None \<and> ParseFormulaID w = Inr w
    \<and> w = FormulaID_Tap w @ ''/'' @ FormulaID_Name w
    \<and> TapID_Validate (FormulaID_Tap w) = None
    \<and> FormulaID_Tap w = TapID_Owner (FormulaID_Tap w) @ ''/'' @ TapID_Name (FormulaID_Tap w)
    \<and> length w \<le> 384"
proof (intro conjI)
  from assms obtain i where "Parse s = Inr i" and w: "w = FormulaID_String i"
    by (auto simp: ParseFormulaID_def split: sum.splits)
  then have ok: "id_ok i" by (simp add: Parse_Inr_iff)
  then have tap: "tap_ok (FormulaID_tap i)" by (simp add: id_ok_def)
  note parse = Parse_String [OF ok] ParseTap_Inr_iff [of "Tap_String (FormulaID_tap i)"]
  have wtap: "FormulaID_Tap w = Tap_String (FormulaID_tap i)" "FormulaID_Name w = FormulaID_name i"
    by (simp_all add: FormulaID_Tap_def FormulaID_Name_def w parse)
  have ptap: "ParseTap (Tap_String (FormulaID_tap i)) = Inr (FormulaID_tap i)"
    using tap by (simp add: ParseTap_Inr_iff)
  show "FormulaID_Validate w = None" by (simp add: FormulaID_Validate_def w parse)
  show "ParseFormulaID w = Inr w" by (simp add: ParseFormulaID_def w parse)
  show "w = FormulaID_Tap w @ ''/'' @ FormulaID_Name w"
    using ok unfolding wtap by (simp add: w FormulaID_String_def)
  show "TapID_Validate (FormulaID_Tap w) = None" by (simp add: wtap TapID_Validate_def ptap)
  show "FormulaID_Tap w = TapID_Owner (FormulaID_Tap w) @ ''/'' @ TapID_Name (FormulaID_Tap w)"
    unfolding wtap TapID_Owner_def TapID_Name_def ptap using tap by (simp add: Tap_String_ok)
  show "length w \<le> 384"
    using length_String [OF ok] unfolding w
    by (simp add: maxFormulaIDBytes_def maxTapIDBytes_def maxOwnerBytes_def maxTapBytes_def
        maxFormulaBytes_def)
qed

theorem wire_id_canonical_witness:
  "ParseFormulaID ''curl'' = Inr ''homebrew/core/curl'' \<and>
   FormulaID_Validate ''homebrew/core/curl'' = None"
proof -
  have "ParseFormulaID ''curl'' = Inr ''homebrew/core/curl''" by code_simp
  with wire_id_canonical [OF this] show ?thesis by simp
qed

end
