(* ===== verification/Version.thy ===== *)
theory Version
  imports GoStd
begin

text \<open>
  \<open>internal/homebrew/version/version.go\<close>: the package version with its revision suffix, the OCI
  path and the file name of a bottle, and the ordering that decides whether a selected version
  meets the minimum a bottle tab records.

  The regular expressions of the source are written out: \<open>revisionSuffix\<close> splits at the last
  underscore, because the group after it holds only digits, and its \<open>.*\<close> does not match a newline.
  \<open>Compare\<close> works on tokens; the Unicode classes it uses are the argument \<open>U\<close>.
\<close>

section \<open>Package versions and bottle names\<close>

datatype version_error =
    AtoiError string
  | EmptyPackageVersion
  | InvalidName string
  | InvalidLabel string string

definition PkgVersion :: "string \<Rightarrow> int \<Rightarrow> string" where
  "PkgVersion stableVersion revision =
     (if 0 < revision then stableVersion @ ''_'' @ itoa revision else stableVersion)"

definition revisionSuffix :: "string \<Rightarrow> (string \<times> string) option" where
  "revisionSuffix v =
     (let parts = split_on CHR ''_'' v;
          pre = join_with CHR ''_'' (butlast parts);
          ds = last parts
      in if 2 \<le> length parts \<and> ds \<noteq> [] \<and> list_all ascii_digit ds \<and> CHR 0x0A \<notin> set pre
         then Some (pre, ds) else None)"

definition SplitPkgVersion :: "string \<Rightarrow> (version_error, string \<times> int) result" where
  "SplitPkgVersion v =
     (case revisionSuffix v of
        Some (pre, ds) \<Rightarrow>
          (case atoi ds of None \<Rightarrow> Inl (AtoiError ds) | Some n \<Rightarrow> Inr (pre, n))
      | None \<Rightarrow> if trim_space v = [] then Inl EmptyPackageVersion else Inr (v, 0))"

definition ImageTag :: "string \<Rightarrow> int \<Rightarrow> string" where
  "ImageTag pkgVersion bottleRebuild =
     (if 0 < bottleRebuild then pkgVersion @ ''-'' @ itoa bottleRebuild else pkgVersion)"

definition safeName :: "string \<Rightarrow> bool" where
  "safeName s =
     (case s of
        [] \<Rightarrow> False
      | c # r \<Rightarrow> isLowerAlphaNumeric c
          \<and> list_all (\<lambda>d. isLowerAlphaNumeric d \<or> d \<in> set ''+_.@-'') r)"

definition has_slash :: "string \<Rightarrow> bool" where
  "has_slash s = list_ex (\<lambda>c. c = CHR ''/'' \<or> c = CHR 0x5C) s"

definition OCIFormulaPath :: "string \<Rightarrow> (version_error, string) result" where
  "OCIFormulaPath name =
     (if \<not> safeName name \<or> has_slash name then Inl (InvalidName name)
      else Inr (map (\<lambda>c. if c = CHR ''@'' then CHR ''/'' else if c = CHR ''+'' then CHR ''x'' else c)
             name))"

text \<open>
  The labelled fields of a file name are checked in a range over a map; \<open>versionFirst\<close> says which
  of the two the range visits first, and so which error is reported where both are wrong.
\<close>

definition BottleFilename ::
  "bool \<Rightarrow> string \<Rightarrow> string \<Rightarrow> string \<Rightarrow> int \<Rightarrow> (version_error, string) result" where
  "BottleFilename versionFirst name pkgVersion bottleTag rebuild =
     (if \<not> safeName name \<or> has_slash name then Inl (InvalidName name)
      else
        let version = (''package version'', pkgVersion);
            tag = (''bottle tag'', bottleTag);
            check = (\<lambda>(label, v).
              if v = [] \<or> path_base v \<noteq> v \<or> has_slash v then Some (InvalidLabel label v) else None)
        in (case first_error check (if versionFirst then [version, tag] else [tag, version]) of
              Some e \<Rightarrow> Inl e
            | None \<Rightarrow>
                let suffix = (if 0 < rebuild then ''.'' @ itoa rebuild else [])
                in Inr (name @ ''--'' @ pkgVersion @ ''.'' @ bottleTag @ ''.bottle'' @ suffix
                     @ ''.tar.gz'')))"

section \<open>The ordering\<close>

record token =
  token_value :: string
  token_numeric :: bool

definition flush :: "nat \<Rightarrow> string \<Rightarrow> token list \<Rightarrow> token list" where
  "flush kind b out =
     (if b = [] then out else out @ [\<lparr>token_value = b, token_numeric = (kind = 1)\<rparr>])"

definition rune_kind :: "unicode_tables \<Rightarrow> rune \<Rightarrow> nat" where
  "rune_kind U r = (if isDigit U r then 1 else if isLetter U r then 2 else 0)"

fun tokenizeLoop ::
  "unicode_tables \<Rightarrow> rune list \<Rightarrow> nat \<Rightarrow> string \<Rightarrow> token list \<Rightarrow> token list" where
  "tokenizeLoop U [] kind b out = flush kind b out"
| "tokenizeLoop U (r # rs) kind b out =
     (let k = rune_kind U r
      in if k = 0 then tokenizeLoop U rs 0 [] (flush kind b out)
         else if kind \<noteq> 0 \<and> kind \<noteq> k
         then tokenizeLoop U rs k (encode_rune r) (flush kind b out)
         else tokenizeLoop U rs k (b @ encode_rune r) out)"

definition tokenize :: "unicode_tables \<Rightarrow> string \<Rightarrow> token list" where
  "tokenize U v = tokenizeLoop U (runes (to_lower U v)) 0 [] []"

text \<open>\<open>strings.TrimLeft(s, "0")\<close>, and a number of zeros only is one zero.\<close>

definition trim_zeros :: "string \<Rightarrow> string" where
  "trim_zeros s = (let t = dropWhile (\<lambda>c. c = CHR ''0'') s in if t = [] then ''0'' else t)"

definition compareNumeric :: "string \<Rightarrow> string \<Rightarrow> int" where
  "compareNumeric a0 b0 =
     (let a = trim_zeros a0; b = trim_zeros b0
      in if length a < length b then -1
         else if length b < length a then 1
         else strings_Compare a b)"

definition alphaRank :: "string \<Rightarrow> int" where
  "alphaRank value =
     (case mget
        [(''dev'', -5), (''alpha'', -4), (''a'', -4), (''beta'', -3), (''b'', -3), (''pre'', -2),
         (''preview'', -2), (''rc'', -1), (''p'', 1), (''patch'', 1), (''pl'', 1)] value of
        Some rank \<Rightarrow> rank
      | None \<Rightarrow> 1)"

fun compareEndToRemainder :: "token list \<Rightarrow> int" where
  "compareEndToRemainder [] = 0"
| "compareEndToRemainder (t # rest) =
     (if token_numeric t
      then if compareNumeric (token_value t) ''0'' \<noteq> 0 then -1 else compareEndToRemainder rest
      else if alphaRank (token_value t) < 0 then 1 else -1)"

definition compareAlpha :: "string \<Rightarrow> string \<Rightarrow> int" where
  "compareAlpha a b =
     (if a = b then 0
      else let oa = alphaRank a; ob = alphaRank b
           in if oa \<noteq> ob then (if oa < ob then -1 else 1) else strings_Compare a b)"

text \<open>The loop of \<open>Compare\<close>, on what is left of the two token lists at index \<open>i\<close>.\<close>

fun compareTokens :: "token list \<Rightarrow> token list \<Rightarrow> int" where
  "compareTokens [] [] = 0"
| "compareTokens [] (y # ys) = compareEndToRemainder (y # ys)"
| "compareTokens (x # xs) [] = - compareEndToRemainder (x # xs)"
| "compareTokens (x # xs) (y # ys) =
     (if token_numeric x \<and> token_numeric y
      then let c = compareNumeric (token_value x) (token_value y)
           in if c \<noteq> 0 then c else compareTokens xs ys
      else if token_numeric x \<noteq> token_numeric y
      then if token_numeric x then 1 else -1
      else let c = compareAlpha (token_value x) (token_value y)
           in if c \<noteq> 0 then c else compareTokens xs ys)"

definition Compare :: "unicode_tables \<Rightarrow> string \<Rightarrow> string \<Rightarrow> int" where
  "Compare U a b = compareTokens (tokenize U a) (tokenize U b)"

definition AtLeast :: "unicode_tables \<Rightarrow> string \<Rightarrow> int \<Rightarrow> string \<Rightarrow> int \<Rightarrow> bool" where
  "AtLeast U selectedVersion selectedRevision minimumVersion minimumRevision =
     (let c = Compare U selectedVersion minimumVersion
      in if c \<noteq> 0 then 0 < c else minimumRevision \<le> selectedRevision)"

section \<open>Reference orders\<close>

text \<open>
  A release version is a dotted list of numbers, and two of them compare as their lists do once
  trailing zeros are dropped.
\<close>

definition three_way :: "'a::linorder \<Rightarrow> 'a \<Rightarrow> int" where
  "three_way x y = (if x = y then 0 else if x < y then -1 else 1)"

definition dotted :: "nat list \<Rightarrow> string" where
  "dotted ns = join_with CHR ''.'' (map itoa_nat ns)"

definition strip_zeros :: "nat list \<Rightarrow> nat list" where
  "strip_zeros ns = rev (dropWhile (\<lambda>n. n = 0) (rev ns))"

section \<open>Comparison of tokens\<close>

lemma compareNumeric_antisym: "compareNumeric b a = - compareNumeric a b"
  unfolding compareNumeric_def Let_def by (auto simp: strings_Compare_def)

lemma compareNumeric_range: "compareNumeric a b \<in> {-1, 0, 1}"
  unfolding compareNumeric_def Let_def using strings_Compare_range by simp

lemma compareAlpha_antisym: "compareAlpha b a = - compareAlpha a b"
  unfolding compareAlpha_def Let_def by (auto simp: strings_Compare_def)

lemma compareAlpha_range: "compareAlpha a b \<in> {-1, 0, 1}"
  unfolding compareAlpha_def Let_def using strings_Compare_range by simp

lemma compareEnd_range: "compareEndToRemainder ts \<in> {-1, 0, 1}"
  by (induction ts) auto

lemma compareTokens_antisym: "compareTokens ys xs = - compareTokens xs ys"
proof (induction xs ys rule: compareTokens.induct)
  case (4 x xs y ys)
  then show ?case
    using compareNumeric_antisym [of "token_value y" "token_value x"]
      compareAlpha_antisym [of "token_value y" "token_value x"]
    by (auto simp: Let_def)
qed simp_all

lemma compareTokens_range: "compareTokens xs ys \<in> {-1, 0, 1}"
proof (induction xs ys rule: compareTokens.induct)
  case (2 y ys)
  then show ?case using compareEnd_range [of "y # ys"] by (simp del: compareEndToRemainder.simps)
next
  case (3 x xs)
  then show ?case
    using compareEnd_range [of "x # xs"] by (auto simp del: compareEndToRemainder.simps)
next
  case (4 x xs y ys)
  then show ?case
    using compareNumeric_range [of "token_value x" "token_value y"]
      compareAlpha_range [of "token_value x" "token_value y"]
    by (auto simp: Let_def)
qed simp

section \<open>Numbers of any length\<close>

lemma digits_val_Nil: "digits_val [] = 0"
  by (simp add: digits_val_def)

lemma digits_val_Cons: "digits_val (c # s) = (byte c - 48) * 10 ^ length s + digits_val s"
proof (induction s rule: rev_induct)
  case (snoc x s)
  have "digits_val (c # s @ [x]) = 10 * digits_val (c # s) + (byte x - 48)"
    using digits_val_snoc [of "c # s"] by simp
  with snoc show ?case by (simp add: digits_val_snoc algebra_simps)
qed (simp add: digits_val_def)

lemma digits_val_less: "list_all ascii_digit s \<Longrightarrow> digits_val s < 10 ^ length s"
proof (induction s)
  case (Cons c s)
  then have "byte c - 48 \<le> 9" by (auto simp: ascii_digit_byte)
  then have "(byte c - 48) * 10 ^ length s \<le> 9 * 10 ^ length s" by (rule mult_right_mono) simp
  moreover from Cons have "digits_val s < 10 ^ length s" by simp
  ultimately have "(byte c - 48) * 10 ^ length s + digits_val s < 10 * 10 ^ length s" by linarith
  then show ?case by (simp add: digits_val_Cons)
qed (simp add: digits_val_def)

lemma digits_val_strip: "digits_val (dropWhile (\<lambda>c. c = CHR ''0'') s) = digits_val s"
  by (induction s) (auto simp: digits_val_Cons)

lemma digits_val_lead:
  assumes "list_all ascii_digit (c # s)" and "c \<noteq> CHR ''0''"
  shows "10 ^ length s \<le> digits_val (c # s)"
proof -
  have "byte c \<noteq> byte (CHR ''0'')" using assms(2) by (simp only: of_char_eq_iff not_False_eq_True)
  then have "byte c \<noteq> 48" by simp
  with assms(1) have "1 \<le> byte c - 48" by (auto simp: ascii_digit_byte)
  then have "1 * 10 ^ length s \<le> (byte c - 48) * 10 ^ length s" by (rule mult_right_mono) simp
  then show ?thesis unfolding digits_val_Cons by linarith
qed

lemma digits_val_lex:
  assumes "length a = length b" and "list_all ascii_digit a" and "list_all ascii_digit b"
  shows "a < b \<longleftrightarrow> digits_val a < digits_val b"
  using assms
proof (induction a b rule: list_induct2)
  case (Cons x xs y ys)
  have vx: "digits_val xs < 10 ^ length xs" and vy: "digits_val ys < 10 ^ length xs"
    using Cons.prems digits_val_less [of xs] digits_val_less [of ys] Cons.hyps by auto
  have step: "u < v \<Longrightarrow> u * 10 ^ length xs + p < v * 10 ^ length xs + q"
    if "p < 10 ^ length xs" for u v p q :: nat
  proof -
    assume "u < v"
    then have "(u + 1) * 10 ^ length xs \<le> v * 10 ^ length xs" by (intro mult_right_mono) simp_all
    with that show ?thesis by simp
  qed
  have ge: "48 \<le> byte x" "48 \<le> byte y" using Cons.prems by (auto simp: ascii_digit_byte)
  consider "byte x < byte y" | "byte y < byte x" | "x = y"
    by (metis linorder_neqE_nat of_char_eq_iff)
  then show ?case
  proof cases
    case 1
    with ge have "byte x - 48 < byte y - 48" by linarith
    from step [OF vx this, of "digits_val ys"] 1 Cons.hyps show ?thesis
      by (simp add: digits_val_Cons less_char_def)
  next
    case 2
    with ge have "byte y - 48 < byte x - 48" by linarith
    from step [OF vy this, of "digits_val xs"] 2 Cons.hyps show ?thesis
      by (auto simp: digits_val_Cons less_char_def)
  next
    case 3
    with Cons show ?thesis by (simp add: digits_val_Cons)
  qed
qed (simp add: digits_val_def)

lemma trim_zeros_shape:
  assumes "list_all ascii_digit s"
  shows "list_all ascii_digit (trim_zeros s)" and "trim_zeros s \<noteq> []"
    and "digits_val (trim_zeros s) = digits_val s"
    and "2 \<le> length (trim_zeros s) \<Longrightarrow> 10 ^ (length (trim_zeros s) - 1) \<le> digits_val s"
proof -
  define t where "t = dropWhile (\<lambda>c. c = CHR ''0'') s"
  have digits: "list_all ascii_digit t"
    using assms unfolding t_def list_all_iff by (blast dest: set_dropWhileD)
  have val: "digits_val t = digits_val s" by (simp add: t_def digits_val_strip)
  have trim: "trim_zeros s = (if t = [] then ''0'' else t)" by (simp add: trim_zeros_def t_def Let_def)
  have zero: "digits_val ''0'' = 0" "list_all ascii_digit ''0''"
    by (simp_all add: digits_val_def ascii_digit_byte)
  have empty: "digits_val [] = 0" by (simp add: digits_val_def)
  show "list_all ascii_digit (trim_zeros s)" and "trim_zeros s \<noteq> []"
    using digits zero by (auto simp: trim)
  show "digits_val (trim_zeros s) = digits_val s"
    using zero val empty by (cases "t = []") (simp_all add: trim)
  assume long: "2 \<le> length (trim_zeros s)"
  then obtain c r where t: "t = c # r" by (cases t) (auto simp: trim)
  then have "c \<noteq> CHR ''0''" unfolding t_def by (simp add: dropWhile_eq_Cons_conv)
  with digits have "10 ^ length r \<le> digits_val t" unfolding t by (intro digits_val_lead)
  then show "10 ^ (length (trim_zeros s) - 1) \<le> digits_val s" using val by (simp add: trim t)
qed

lemma compareNumeric_shorter:
  assumes "list_all ascii_digit a" "list_all ascii_digit b"
    and "length (trim_zeros a) < length (trim_zeros b)"
  shows "digits_val a < digits_val b"
proof -
  note a = trim_zeros_shape [OF assms(1)] and b = trim_zeros_shape [OF assms(2)]
  have "1 \<le> length (trim_zeros a)" using a(2) by (cases "trim_zeros a") simp_all
  with assms(3) have "10 ^ (length (trim_zeros b) - 1) \<le> digits_val b" by (intro b(4)) simp
  moreover have "digits_val a < 10 ^ length (trim_zeros a)"
    using digits_val_less [OF a(1)] a(3) by simp
  moreover have "(10::nat) ^ length (trim_zeros a) \<le> 10 ^ (length (trim_zeros b) - 1)"
    using assms(3) by (intro power_increasing) simp_all
  ultimately show ?thesis by linarith
qed

lemma compareNumeric_val:
  assumes "list_all ascii_digit a" "list_all ascii_digit b"
  shows "compareNumeric a b = three_way (digits_val a) (digits_val b)"
proof -
  note a = trim_zeros_shape [OF assms(1)] and b = trim_zeros_shape [OF assms(2)]
  consider "length (trim_zeros a) < length (trim_zeros b)"
    | "length (trim_zeros b) < length (trim_zeros a)"
    | "length (trim_zeros a) = length (trim_zeros b)" by linarith
  then show ?thesis
  proof cases
    case 1
    with compareNumeric_shorter [OF assms] show ?thesis
      by (simp add: compareNumeric_def three_way_def)
  next
    case 2
    with compareNumeric_shorter [OF assms(2,1)] show ?thesis
      by (simp add: compareNumeric_def three_way_def)
  next
    case 3
    have less: "trim_zeros a < trim_zeros b \<longleftrightarrow> digits_val a < digits_val b"
      "trim_zeros b < trim_zeros a \<longleftrightarrow> digits_val b < digits_val a"
      using digits_val_lex [OF 3 a(1) b(1)] digits_val_lex [OF 3 [symmetric] b(1) a(1)] a(3) b(3)
      by simp_all
    then have "trim_zeros a = trim_zeros b \<longleftrightarrow> digits_val a = digits_val b"
      by (metis linorder_neqE less_irrefl)
    with less 3 show ?thesis
      by (simp add: compareNumeric_def strings_Compare_def three_way_def Let_def)
  qed
qed

section \<open>Release versions\<close>

abbreviation num :: "nat \<Rightarrow> token" where
  "num n \<equiv> \<lparr>token_value = itoa_nat n, token_numeric = True\<rparr>"

lemma strip_zeros_simps [simp]:
  "strip_zeros [] = []"
  "strip_zeros (n # ns) = (if n = 0 \<and> strip_zeros ns = [] then [] else n # strip_zeros ns)"
proof -
  show "strip_zeros (n # ns) = (if n = 0 \<and> strip_zeros ns = [] then [] else n # strip_zeros ns)"
    unfolding strip_zeros_def by (auto simp: dropWhile_append)
qed (simp add: strip_zeros_def)

lemma compareNumeric_num: "compareNumeric (itoa_nat n) (itoa_nat m) = three_way n m"
  by (simp add: compareNumeric_val itoa_nat_digits)

lemma compareNumeric_zero: "compareNumeric (itoa_nat n) ''0'' = three_way n 0"
  using compareNumeric_val [OF itoa_nat_digits [of n], of "''0''"]
  by (simp add: digits_val_Cons digits_val_Nil ascii_digit_byte)

lemma compareEnd_num:
  "compareEndToRemainder (map num ns) = three_way [] (strip_zeros ns)"
  by (induction ns) (auto simp: compareNumeric_zero three_way_def)

lemma three_way_antisym: "three_way y x = - three_way x y"
  by (auto simp: three_way_def)

lemma compareTokens_num:
  "compareTokens (map num ns) (map num ms) = three_way (strip_zeros ns) (strip_zeros ms)"
proof (induction ns arbitrary: ms)
  case Nil
  show ?case using compareEnd_num [of ms] by (cases ms) (simp_all add: three_way_def)
next
  case (Cons n ns)
  show ?case
  proof (cases ms)
    case Nil
    then show ?thesis
      using compareEnd_num [of "n # ns"] three_way_antisym [of "[]" "strip_zeros (n # ns)"]
      by (simp del: compareEndToRemainder.simps strip_zeros_simps(2))
  next
    case (Cons m ms')
    then show ?thesis
      by (auto simp: compareNumeric_num Cons.IH three_way_def)
  qed
qed

lemma tokenizeLoop_digits:
  assumes "ascii_conform U"
  shows "list_all ascii_digit ds \<Longrightarrow> ds \<noteq> [] \<Longrightarrow> kind = 0 \<or> kind = 1 \<Longrightarrow>
    tokenizeLoop U (map byte ds @ rs) kind b out = tokenizeLoop U rs 1 (b @ ds) out"
proof (induction ds arbitrary: kind b)
  case (Cons d ds)
  have d: "rune_kind U (byte d) = 1" "encode_rune (byte d) = [d]"
    using Cons.prems(1) assms
    by (auto simp: ascii_digit_byte rune_kind_def ascii_conform_def ascii_tables_def encode_rune_def)
  show ?case
    using Cons d by (cases "ds = []") (auto simp: Let_def)
qed simp

lemma tokenizeLoop_dotted:
  assumes "ascii_conform U"
  shows "tokenizeLoop U (map byte (dotted ns)) 0 [] out = out @ map num ns"
proof (induction ns arbitrary: out)
  case Nil
  then show ?case by (simp add: dotted_def flush_def)
next
  case (Cons n ns)
  have dot: "rune_kind U 46 = 0"
    using assms by (simp add: rune_kind_def ascii_conform_def ascii_tables_def)
  note digits = tokenizeLoop_digits [OF assms itoa_nat_digits itoa_nat_not_Nil]
  show ?case
  proof (cases ns)
    case Nil
    then show ?thesis using digits [of 0 n "[]"] by (simp add: dotted_def flush_def)
  next
    case (Cons m ms)
    then have "dotted (n # ns) = itoa_nat n @ CHR ''.'' # dotted ns" by (simp add: dotted_def)
    then show ?thesis
      using digits [of 0 n "map byte (CHR ''.'' # dotted ns)"] Cons.IH dot
      by (simp add: flush_def)
  qed
qed

lemma dotted_chars: "c \<in> set (dotted ns) \<Longrightarrow> ascii_digit c \<or> c = CHR ''.''"
proof (induction ns)
  case (Cons n ns)
  then show ?case
    using itoa_nat_digits [of n] by (cases ns) (auto simp: dotted_def list_all_iff)
qed (simp add: dotted_def)

lemma tokenize_dotted:
  assumes "ascii_conform U"
  shows "tokenize U (dotted ns) = map num ns"
proof -
  have "\<forall>c \<in> set (dotted ns). byte c < 128 \<and> \<not> (65 \<le> byte c \<and> byte c \<le> 90)"
    by (auto dest!: dotted_chars simp: ascii_digit_byte)
  note lower = to_lower_id [OF assms this]
  show ?thesis by (simp add: tokenize_def lower tokenizeLoop_dotted [OF assms])
qed

section \<open>Revision suffixes\<close>

lemma revisionSuffix_Some_iff:
  "revisionSuffix v = Some (s, ds) \<longleftrightarrow>
     v = s @ ''_'' @ ds \<and> ds \<noteq> [] \<and> list_all ascii_digit ds \<and> CHR 0x0A \<notin> set s"
proof
  assume suffix: "revisionSuffix v = Some (s, ds)"
  let ?parts = "split_on CHR ''_'' v"
  from suffix have len: "2 \<le> length ?parts" and s: "s = join_with CHR ''_'' (butlast ?parts)"
    and ds: "ds = last ?parts" "ds \<noteq> []" "list_all ascii_digit ds" "CHR 0x0A \<notin> set s"
    by (auto simp: revisionSuffix_def Let_def split: if_splits)
  have "butlast ?parts \<noteq> []" using len length_butlast [of ?parts] by fastforce
  from join_with_snoc [OF this, of "CHR ''_''" "last ?parts"] have "v = s @ CHR ''_'' # ds"
    by (simp add: s ds(1))
  with ds show "v = s @ ''_'' @ ds \<and> ds \<noteq> [] \<and> list_all ascii_digit ds \<and> CHR 0x0A \<notin> set s"
    by simp
next
  assume r: "v = s @ ''_'' @ ds \<and> ds \<noteq> [] \<and> list_all ascii_digit ds \<and> CHR 0x0A \<notin> set s"
  then have "CHR ''_'' \<notin> set ds" by (auto simp: list_all_iff ascii_digit_byte)
  from split_on_snoc [OF this, of s] r
  have parts: "split_on CHR ''_'' v = split_on CHR ''_'' s @ [ds]" by simp
  have "1 \<le> length (split_on CHR ''_'' s)" by (cases "split_on CHR ''_'' s") simp_all
  with r show "revisionSuffix v = Some (s, ds)"
    unfolding revisionSuffix_def parts by (simp add: Let_def)
qed

section \<open>Properties\<close>

text \<open>
  C37: The ordering of versions is three-valued and antisymmetric for all byte strings and all
  Unicode tables: swapping the arguments negates the answer, and a version equals itself.
\<close>

theorem compare_antisym:
  "Compare U a b \<in> {-1, 0, 1} \<and> Compare U b a = - Compare U a b \<and> Compare U a a = 0"
proof (intro conjI)
  show "Compare U a b \<in> {-1, 0, 1}" unfolding Compare_def by (rule compareTokens_range)
  show "Compare U b a = - Compare U a b" unfolding Compare_def by (rule compareTokens_antisym)
  show "Compare U a a = 0"
    using compareTokens_antisym [of "tokenize U a" "tokenize U a"] unfolding Compare_def by simp
qed

text \<open>
  C38: On release versions, dotted lists of decimal numbers of any size, \<open>Compare\<close> is the
  lexicographic order of the numbers with trailing zeros dropped, and \<open>AtLeast\<close> breaks ties by the
  revision. The digit strings are never converted to machine integers, so no number overflows.
\<close>

theorem compare_release_versions:
  assumes "ascii_conform U"
  shows "Compare U (dotted ns) (dotted ms) = three_way (strip_zeros ns) (strip_zeros ms)
    \<and> (AtLeast U (dotted ns) r (dotted ms) q \<longleftrightarrow>
        strip_zeros ms < strip_zeros ns \<or> strip_zeros ms = strip_zeros ns \<and> q \<le> r)"
proof -
  have c: "Compare U (dotted ns) (dotted ms) = three_way (strip_zeros ns) (strip_zeros ms)"
    by (simp add: Compare_def tokenize_dotted [OF assms] compareTokens_num)
  then show ?thesis by (auto simp: AtLeast_def three_way_def)
qed

theorem compare_release_versions_witness:
  "Compare ascii_tables (dotted [1, 10]) (dotted [1, 9, 3]) = 1
   \<and> AtLeast ascii_tables (dotted [1, 10]) 0 (dotted [1, 9, 3]) 4"
proof -
  have "ascii_conform ascii_tables" by (simp add: ascii_conform_def)
  from compare_release_versions [OF this, of "[1, 10]" "[1, 9, 3]" 0 4] show ?thesis
    by (simp add: three_way_def)
qed

text \<open>
  C39: The revision suffix survives a round trip: splitting the package version built from a stable
  version and a revision gives both back. A positive revision needs only a version without a
  newline; revision 0 writes no suffix, so there the version must not be blank or end in one itself.
\<close>

theorem split_pkg_version_roundtrip:
  assumes "0 \<le> r" and "r \<le> max_int64" and "CHR 0x0A \<notin> set v"
    and "r = 0 \<Longrightarrow> revisionSuffix v = None \<and> trim_space v \<noteq> []"
  shows "SplitPkgVersion (PkgVersion v r) = Inr (v, r)"
proof (cases "r = 0")
  case True
  with assms(4) show ?thesis by (simp add: PkgVersion_def SplitPkgVersion_def)
next
  case False
  with assms(1) have r: "PkgVersion v r = v @ ''_'' @ itoa r" "itoa r = itoa_nat (nat r)"
    by (simp_all add: PkgVersion_def itoa_def)
  then have "revisionSuffix (PkgVersion v r) = Some (v, itoa r)"
    using assms(3) by (subst revisionSuffix_Some_iff) (simp add: itoa_nat_digits)
  then show ?thesis using atoi_itoa [OF assms(1,2)] by (simp add: SplitPkgVersion_def)
qed

theorem split_pkg_version_roundtrip_witness:
  "SplitPkgVersion (PkgVersion ''1.2.3'' 4) = Inr (''1.2.3'', 4)"
  by (rule split_pkg_version_roundtrip) (simp_all add: max_int64_def)

text \<open>
  C40: The ordering is not transitive once a suffix that ranks as a post-release is involved: \<open>1\<close> is
  below \<open>1p\<close>, \<open>1p\<close> is below \<open>1.0\<close>, and \<open>1.0\<close> equals \<open>1\<close>. The end of a version is compared with a
  trailing zero as equal, but an alphabetic token is below every number, zero included.
\<close>

theorem compare_not_transitive:
  assumes "ascii_conform U"
  shows "Compare U ''1'' ''1p'' = -1 \<and> Compare U ''1p'' ''1.0'' = -1 \<and> Compare U ''1.0'' ''1'' = 0"
proof -
  have plain: "runes (to_lower U s) = map byte s"
    if "\<forall>c \<in> set s. byte c < 128 \<and> \<not> (65 \<le> byte c \<and> byte c \<le> 90)" for s
    using to_lower_id [OF assms that] by simp
  have kinds: "rune_kind U 49 = 1" "rune_kind U 48 = 1" "rune_kind U 46 = 0" "rune_kind U 112 = 2"
    using assms by (simp_all add: rune_kind_def ascii_conform_def ascii_tables_def)
  have chars: "encode_rune 49 = ''1''" "encode_rune 48 = ''0''" "encode_rune 112 = ''p''"
    by code_simp+
  have tokens: "tokenize U ''1'' = [\<lparr>token_value = ''1'', token_numeric = True\<rparr>]"
    "tokenize U ''1p'' = [\<lparr>token_value = ''1'', token_numeric = True\<rparr>,
       \<lparr>token_value = ''p'', token_numeric = False\<rparr>]"
    "tokenize U ''1.0'' = [\<lparr>token_value = ''1'', token_numeric = True\<rparr>,
       \<lparr>token_value = ''0'', token_numeric = True\<rparr>]"
    by (simp_all add: tokenize_def plain kinds flush_def chars)
  show ?thesis
    by (simp add: Compare_def tokens compareNumeric_def trim_zeros_def strings_Compare_def
        alphaRank_def)
qed

theorem compare_not_transitive_witness:
  "Compare ascii_tables ''1'' ''1p'' = -1 \<and> Compare ascii_tables ''1p'' ''1.0'' = -1
   \<and> Compare ascii_tables ''1.0'' ''1'' = 0"
  by (rule compare_not_transitive) (simp add: ascii_conform_def)

end
