(* ===== verification/OciReference.thy ===== *)
theory OciReference
  imports Formulaid Version
begin

text \<open>
  \<open>internal/homebrew/oci/reference.go\<close> and \<open>identity.go\<close>: where a Formula's bottles live in the
  registry, and the authenticated identity of a Formula of a public tap.

  \<^item> The regular expressions are predicates on strings that read them left to right.
  \<^item> \<open>strings.ToLower\<close> takes the Unicode tables \<open>U\<close>, and \<open>url.Parse\<close> is the argument \<open>P\<close>.
  \<^item> The lemmas show that a repository determines its tap, that names are kept up to the escaping of
    \<open>+\<close>, and that the names computed here are those of package \<open>version\<close>.
\<close>

section \<open>Types\<close>

record OBottleFile =
  ob_Cellar :: string
  ob_SHA256 :: string

record OFormula =
  of_Name :: string
  of_FullName :: string
  of_StableVersion :: string
  of_Revision :: int
  of_VersionScheme :: int
  of_BottleRebuild :: int
  of_License :: string
  of_KegOnly :: bool
  of_BottleFiles :: "(string, OBottleFile) gomap"

record FormulaReference =
  fr_Name :: string
  fr_FullName :: string
  fr_PkgVersion :: string
  fr_Registry :: string
  fr_Repository :: string
  fr_CanonicalRepository :: string
  fr_IndexTag :: string

record AuthenticatedFormulaIdentity =
  ai_id :: FormulaID
  ai_homebrewFullName :: string
  ai_sourceRepository :: string
  ai_sourceCommit :: string
  ai_formulaPath :: string

record AuthenticatedFormula =
  af_Identity :: AuthenticatedFormulaIdentity
  af_BottleRootURL :: string
  af_StableVersion :: string
  af_Revision :: int
  af_VersionScheme :: int
  af_BottleRebuild :: int
  af_License :: string
  af_KegOnly :: bool
  af_BottleFiles :: "(string, OBottleFile) gomap"

datatype (plugins only: code size) reference_error =
    FormulaNameInvalid string
  | FormulaNameVersioned string
  | NonCoreIdentity string string
  | NegativeScheme string int
  | NegativeRevision int
  | NegativeRebuild int
  | VersionEmpty
  | VersionUnsafe string
  | TagInvalid string
  | BottleTagUnsupported string
  | RepositoryInvalid string
  | RepositorySegment string
  | RepositoryEscapes string
  | IdentityEmpty
  | IdentityNotCanonical
  | IdentityParse formulaid_error
  | FullNameMismatch string
  | SourceRepositoryMismatch string
  | SourceCommitInvalid
  | SourcePathInvalid
  | SourcePathUnclean string
  | SourcePathBase string
  | SourcePathChars string
  | RootUnparsable string
  | RootMismatch string
  | RootNotGHCR string
  | BottleCellarEmpty string
  | ChecksumInvalid string

definition GHCRRegistry :: string where
  "GHCRRegistry = ''ghcr.io''"

definition HomebrewCoreRepository :: string where
  "HomebrewCoreRepository = ''homebrew/core''"

definition BottleTagX8664Linux :: string where
  "BottleTagX8664Linux = ''x86_64_linux''"

definition BottleTagARM64Linux :: string where
  "BottleTagARM64Linux = ''arm64_linux''"

definition BottleTagAll :: string where
  "BottleTagAll = ''all''"

section \<open>Names, repositories and tags\<close>

definition formulaNameRE :: "string \<Rightarrow> bool" where
  "formulaNameRE s =
     (case s of
        [] \<Rightarrow> False
      | c # r \<Rightarrow> isLowerAlphaNumeric c
          \<and> list_all (\<lambda>d. isLowerAlphaNumeric d \<or> d \<in> set ''@+._-'') r)"

text \<open>A separator is one dot, one or two underscores, or hyphens.\<close>

definition separator :: "string \<Rightarrow> bool" where
  "separator s = (s = ''.'' \<or> s = ''_'' \<or> s = ''__'' \<or> (s \<noteq> [] \<and> list_all (\<lambda>c. c = CHR ''-'') s))"

function segmentTail :: "string \<Rightarrow> bool" where
  "segmentTail s =
     (let r = dropWhile isLowerAlphaNumeric s
      in if r = [] then True
         else let t = dropWhile (\<lambda>c. \<not> isLowerAlphaNumeric c) r
              in separator (takeWhile (\<lambda>c. \<not> isLowerAlphaNumeric c) r) \<and> t \<noteq> [] \<and> segmentTail t)"
  by pat_completeness auto
termination
proof (relation "measure length", goal_cases)
  case (2 s r t)
  then obtain c r' where r: "r = c # r'" "\<not> isLowerAlphaNumeric c"
    by (metis hd_dropWhile list.exhaust_sel)
  have "length t \<le> length r'" using 2(3) r by (simp add: length_dropWhile_le)
  moreover have "length r \<le> length s" using 2(1) by (simp add: length_dropWhile_le)
  ultimately show ?case using r(1) by simp
qed simp

declare segmentTail.simps [simp del]

definition repositorySegmentRE :: "string \<Rightarrow> bool" where
  "repositorySegmentRE s = (s \<noteq> [] \<and> isLowerAlphaNumeric (hd s) \<and> segmentTail s)"

definition tagChar :: "char \<Rightarrow> bool" where
  "tagChar c = (isLowerAlphaNumeric c \<or> CHR ''A'' \<le> c \<and> c \<le> CHR ''Z'' \<or> c = CHR ''_'')"

definition ociTagRE :: "string \<Rightarrow> bool" where
  "ociTagRE s =
     (case s of
        [] \<Rightarrow> False
      | c # r \<Rightarrow> tagChar c \<and> length r \<le> 127
          \<and> list_all (\<lambda>d. tagChar d \<or> d = CHR ''.'' \<or> d = CHR ''-'') r)"

definition validateRepository :: "unicode_tables \<Rightarrow> string \<Rightarrow> reference_error option" where
  "validateRepository U repository =
     (if repository = [] \<or> 255 < length repository \<or> to_lower U repository \<noteq> repository
      then Some (RepositoryInvalid repository)
      else first_error (\<lambda>segment. if repositorySegmentRE segment then None
             else Some (RepositorySegment segment)) (split_on CHR ''/'' repository))"

definition oci_validateFormulaName :: "string \<Rightarrow> reference_error option" where
  "oci_validateFormulaName name =
     (if \<not> formulaNameRE name then Some (FormulaNameInvalid name)
      else if 1 < count_list name CHR ''@'' \<or> suffix ''@'' name then Some (FormulaNameVersioned name)
      else None)"

definition escape_char :: "char \<Rightarrow> char" where
  "escape_char c = (if c = CHR ''@'' then CHR ''/'' else if c = CHR ''+'' then CHR ''x'' else c)"

definition EscapeFormulaName :: "unicode_tables \<Rightarrow> string \<Rightarrow> (reference_error, string) result" where
  "EscapeFormulaName U name =
     (case oci_validateFormulaName name of
        Some e \<Rightarrow> Inl e
      | None \<Rightarrow>
          let escaped = map escape_char name
          in case validateRepository U escaped of Some e \<Rightarrow> Inl e | None \<Rightarrow> Inr escaped)"

definition RepositoryPath :: "unicode_tables \<Rightarrow> string \<Rightarrow> (reference_error, string) result" where
  "RepositoryPath U name =
     (case EscapeFormulaName U name of
        Inl e \<Rightarrow> Inl e
      | Inr escaped \<Rightarrow>
          let repository = HomebrewCoreRepository @ ''/'' @ escaped
          in case validateRepository U repository of Some e \<Rightarrow> Inl e | None \<Rightarrow> Inr repository)"

definition CanonicalRepository :: "unicode_tables \<Rightarrow> string \<Rightarrow> (reference_error, string) result" where
  "CanonicalRepository U name =
     (case RepositoryPath U name of Inl e \<Rightarrow> Inl e | Inr r \<Rightarrow> Inr (GHCRRegistry @ ''/'' @ r))"

definition oci_validateFormulaID :: "FormulaID \<Rightarrow> reference_error option" where
  "oci_validateFormulaID i =
     (if FormulaID_String i = [] then Some IdentityEmpty
      else case Parse (FormulaID_String i) of
          Inl e \<Rightarrow> Some (IdentityParse e)
        | Inr parsed \<Rightarrow> if parsed \<noteq> i then Some IdentityNotCanonical else None)"

definition oci_validateTap :: "Tap \<Rightarrow> reference_error option" where
  "oci_validateTap t =
     (if Tap_String t = [] then Some IdentityEmpty
      else case ParseTap (Tap_String t) of
          Inl e \<Rightarrow> Some (IdentityParse e)
        | Inr parsed \<Rightarrow> if parsed \<noteq> t then Some IdentityNotCanonical else None)"

definition RepositoryPathForFormulaID ::
  "unicode_tables \<Rightarrow> FormulaID \<Rightarrow> (reference_error, string) result" where
  "RepositoryPathForFormulaID U i =
     (case oci_validateFormulaID i of
        Some e \<Rightarrow> Inl e
      | None \<Rightarrow>
          (case EscapeFormulaName U (FormulaID_name i) of
             Inl e \<Rightarrow> Inl e
           | Inr escaped \<Rightarrow>
               let pre = Tap_owner (FormulaID_tap i) @ ''/'' @ Tap_name (FormulaID_tap i);
                   repository = pre @ ''/'' @ escaped
               in case validateRepository U repository of
                    Some e \<Rightarrow> Inl e
                  | None \<Rightarrow>
                      if \<not> prefix (pre @ ''/'') repository \<or> repository = pre
                      then Inl (RepositoryEscapes repository) else Inr repository))"

definition CanonicalRepositoryForFormulaID ::
  "unicode_tables \<Rightarrow> FormulaID \<Rightarrow> (reference_error, string) result" where
  "CanonicalRepositoryForFormulaID U i =
     (case RepositoryPathForFormulaID U i of Inl e \<Rightarrow> Inl e | Inr r \<Rightarrow> Inr (GHCRRegistry @ ''/'' @ r))"

definition oci_PkgVersion :: "string \<Rightarrow> int \<Rightarrow> (reference_error, string) result" where
  "oci_PkgVersion version revision =
     (if trim_space version \<noteq> version \<or> version = [] then Inl VersionEmpty
      else if contains_any version [CHR ''/'', CHR 0x5C, CHR 0x00, CHR 0x0D, CHR 0x0A, CHR 0x09, CHR '' '']
      then Inl (VersionUnsafe version)
      else if revision < 0 then Inl (NegativeRevision revision)
      else if revision = 0 then Inr version
      else Inr (version @ ''_'' @ itoa revision))"

definition IndexTag :: "string \<Rightarrow> int \<Rightarrow> (reference_error, string) result" where
  "IndexTag pkgVersion rebuild =
     (if rebuild < 0 then Inl (NegativeRebuild rebuild)
      else let tag = pkgVersion @ (if 0 < rebuild then ''-'' @ itoa rebuild else [])
           in if ociTagRE tag then Inr tag else Inl (TagInvalid tag))"

definition validBottleTag :: "string \<Rightarrow> bool" where
  "validBottleTag tag = (tag = BottleTagX8664Linux \<or> tag = BottleTagARM64Linux \<or> tag = BottleTagAll)"

definition ChildTag :: "string \<Rightarrow> string \<Rightarrow> int \<Rightarrow> (reference_error, string) result" where
  "ChildTag pkgVersion bottleTag rebuild =
     (if \<not> validBottleTag bottleTag then Inl (BottleTagUnsupported bottleTag)
      else if rebuild < 0 then Inl (NegativeRebuild rebuild)
      else let tag = pkgVersion @ ''.'' @ bottleTag @ (if 0 < rebuild then ''.'' @ itoa rebuild else [])
           in if ociTagRE tag then Inr tag else Inl (TagInvalid tag))"

definition oci_BottleFilename ::
  "string \<Rightarrow> string \<Rightarrow> string \<Rightarrow> int \<Rightarrow> (reference_error, string) result" where
  "oci_BottleFilename name pkgVersion bottleTag rebuild =
     (case oci_validateFormulaName name of
        Some e \<Rightarrow> Inl e
      | None \<Rightarrow>
          (case IndexTag pkgVersion 0 of
             Inl e \<Rightarrow> Inl e
           | Inr _ \<Rightarrow>
               if \<not> validBottleTag bottleTag then Inl (BottleTagUnsupported bottleTag)
               else if rebuild < 0 then Inl (NegativeRebuild rebuild)
               else Inr (name @ ''--'' @ pkgVersion @ ''.'' @ bottleTag @ ''.bottle''
                      @ (if 0 < rebuild then ''.'' @ itoa rebuild else []) @ ''.tar.gz'')))"

definition canonicalFullName :: "string \<Rightarrow> string" where
  "canonicalFullName name = HomebrewCoreRepository @ ''/'' @ name"

definition validateFormulaIdentity :: "OFormula \<Rightarrow> reference_error option" where
  "validateFormulaIdentity f =
     (case oci_validateFormulaName (of_Name f) of
        Some e \<Rightarrow> Some e
      | None \<Rightarrow>
          if of_FullName f \<noteq> [] \<and> of_FullName f \<noteq> of_Name f
             \<and> of_FullName f \<noteq> canonicalFullName (of_Name f)
          then Some (NonCoreIdentity (of_Name f) (of_FullName f))
          else if of_VersionScheme f < 0 then Some (NegativeScheme (of_Name f) (of_VersionScheme f))
          else (case oci_PkgVersion (of_StableVersion f) (of_Revision f) of
                  Inl e \<Rightarrow> Some e
                | Inr _ \<Rightarrow>
                    if of_BottleRebuild f < 0 then Some (NegativeRebuild (of_BottleRebuild f)) else None))"

definition ResolveFormulaReference ::
  "unicode_tables \<Rightarrow> OFormula \<Rightarrow> (reference_error, FormulaReference) result" where
  "ResolveFormulaReference U f =
     (case validateFormulaIdentity f of
        Some e \<Rightarrow> Inl e
      | None \<Rightarrow>
          (case RepositoryPath U (of_Name f) of
             Inl e \<Rightarrow> Inl e
           | Inr repository \<Rightarrow>
          (case oci_PkgVersion (of_StableVersion f) (of_Revision f) of
             Inl e \<Rightarrow> Inl e
           | Inr pkgVersion \<Rightarrow>
          (case IndexTag pkgVersion (of_BottleRebuild f) of
             Inl e \<Rightarrow> Inl e
           | Inr indexTag \<Rightarrow>
               Inr \<lparr>fr_Name = of_Name f, fr_FullName = canonicalFullName (of_Name f),
                    fr_PkgVersion = pkgVersion, fr_Registry = GHCRRegistry,
                    fr_Repository = repository,
                    fr_CanonicalRepository = GHCRRegistry @ ''/'' @ repository,
                    fr_IndexTag = indexTag\<rparr>))))"

definition oci_validateSHA256Hex :: "string \<Rightarrow> reference_error option" where
  "oci_validateSHA256Hex value =
     (if length value = 64 \<and> list_all lower_hex_char value then None else Some (ChecksumInvalid value))"

definition validateBottleFile :: "string \<Rightarrow> OBottleFile \<Rightarrow> reference_error option" where
  "validateBottleFile tag file =
     (if \<not> validBottleTag tag then Some (BottleTagUnsupported tag)
      else if trim_space (ob_Cellar file) = [] then Some (BottleCellarEmpty tag)
      else oci_validateSHA256Hex (ob_SHA256 file))"

section \<open>Authenticated identities\<close>

definition maxFormulaSourcePathBytes :: nat where
  "maxFormulaSourcePathBytes = 1024"

definition oci_DefaultGitHubRepository :: "Tap \<Rightarrow> (reference_error, string) result" where
  "oci_DefaultGitHubRepository t =
     (case oci_validateTap t of
        Some e \<Rightarrow> Inl e
      | None \<Rightarrow> Inr (''https://github.com/'' @ Tap_owner t @ ''/homebrew-'' @ Tap_name t))"

definition HomebrewGHCRRootURL :: "Tap \<Rightarrow> (reference_error, string) result" where
  "HomebrewGHCRRootURL t =
     (case oci_validateTap t of
        Some e \<Rightarrow> Inl e
      | None \<Rightarrow> Inr (''https://'' @ GHCRRegistry @ ''/v2/'' @ Tap_owner t @ ''/'' @ Tap_name t))"

definition MatchHomebrewGHCRRoot ::
  "unicode_tables \<Rightarrow> url_parser \<Rightarrow> string \<Rightarrow> Tap \<Rightarrow> (reference_error, bool) result" where
  "MatchHomebrewGHCRRoot U P rootURL t =
     (case HomebrewGHCRRootURL t of
        Inl e \<Rightarrow> Inl e
      | Inr expected \<Rightarrow>
          (case P rootURL of
             None \<Rightarrow> Inl (RootUnparsable rootURL)
           | Some parsed \<Rightarrow>
               if trim_suffix ''.'' (to_lower U (url_Hostname parsed)) \<noteq> GHCRRegistry then Inr False
               else if rootURL \<noteq> expected then Inl (RootMismatch rootURL)
               else Inr True))"

definition validateSourceCommit :: "string \<Rightarrow> reference_error option" where
  "validateSourceCommit commit =
     (if length commit \<noteq> 40 then Some SourceCommitInvalid
      else if list_all lower_hex_char commit
      then None else Some SourceCommitInvalid)"

definition validateFormulaSourcePath :: "string \<Rightarrow> string \<Rightarrow> reference_error option" where
  "validateFormulaSourcePath value formulaName =
     (if value = [] \<or> maxFormulaSourcePathBytes < length value \<or> prefix ''/'' value
         \<or> CHR 0x5C \<in> set value then Some SourcePathInvalid
      else if path_clean value \<noteq> value \<or> value = ''.'' \<or> prefix ''../'' value
      then Some (SourcePathUnclean value)
      else if path_base value \<noteq> formulaName @ ''.rb'' then Some (SourcePathBase (path_base value))
      else if list_all (\<lambda>c. isLowerAlphaNumeric c \<or> CHR ''A'' \<le> c \<and> c \<le> CHR ''Z'' \<or> c \<in> set ''/@+._-'') value
      then None else Some (SourcePathChars value))"

definition identity_validate ::
  "unicode_tables \<Rightarrow> AuthenticatedFormulaIdentity \<Rightarrow> reference_error option" where
  "identity_validate U ident =
     (case oci_validateFormulaID (ai_id ident) of
        Some e \<Rightarrow> Some e
      | None \<Rightarrow>
          if ai_homebrewFullName ident \<noteq> FormulaID_String (ai_id ident)
          then Some (FullNameMismatch (ai_homebrewFullName ident))
          else (case RepositoryPathForFormulaID U (ai_id ident) of
             Inl e \<Rightarrow> Some e
           | Inr _ \<Rightarrow>
          (case oci_DefaultGitHubRepository (FormulaID_tap (ai_id ident)) of
             Inl e \<Rightarrow> Some e
           | Inr expected \<Rightarrow>
               if ai_sourceRepository ident \<noteq> expected
               then Some (SourceRepositoryMismatch (ai_sourceRepository ident))
               else case validateSourceCommit (ai_sourceCommit ident) of
                   Some e \<Rightarrow> Some e
                 | None \<Rightarrow> validateFormulaSourcePath (ai_formulaPath ident) (FormulaID_name (ai_id ident)))))"

definition NewAuthenticatedFormulaIdentity ::
  "unicode_tables \<Rightarrow> FormulaID \<Rightarrow> string \<Rightarrow> string \<Rightarrow> string \<Rightarrow> string
     \<Rightarrow> (reference_error, AuthenticatedFormulaIdentity) result" where
  "NewAuthenticatedFormulaIdentity U i fullName sourceRepository commit formulaPath =
     (let ident = \<lparr>ai_id = i, ai_homebrewFullName = fullName, ai_sourceRepository = sourceRepository,
                   ai_sourceCommit = commit, ai_formulaPath = formulaPath\<rparr>
      in case identity_validate U ident of Some e \<Rightarrow> Inl e | None \<Rightarrow> Inr ident)"

definition SourceURL :: "AuthenticatedFormulaIdentity \<Rightarrow> string" where
  "SourceURL ident =
     (if ai_sourceRepository ident = [] \<or> ai_sourceCommit ident = [] \<or> ai_formulaPath ident = [] then []
      else ai_sourceRepository ident @ ''/blob/'' @ ai_sourceCommit ident @ ''/'' @ ai_formulaPath ident)"

definition Publisher :: "AuthenticatedFormulaIdentity \<Rightarrow> string" where
  "Publisher ident = Tap_owner (FormulaID_tap (ai_id ident))"

definition validateAuthenticatedFormula ::
  "unicode_tables \<Rightarrow> url_parser \<Rightarrow> AuthenticatedFormula \<Rightarrow> reference_error option" where
  "validateAuthenticatedFormula U P f =
     (case identity_validate U (af_Identity f) of
        Some e \<Rightarrow> Some e
      | None \<Rightarrow>
          (case MatchHomebrewGHCRRoot U P (af_BottleRootURL f) (FormulaID_tap (ai_id (af_Identity f))) of
             Inl e \<Rightarrow> Some e
           | Inr matches \<Rightarrow>
               if \<not> matches then Some (RootNotGHCR (af_BottleRootURL f))
               else if af_VersionScheme f < 0
               then Some (NegativeScheme (FormulaID_name (ai_id (af_Identity f))) (af_VersionScheme f))
               else (case oci_PkgVersion (af_StableVersion f) (af_Revision f) of
                  Inl e \<Rightarrow> Some e
                | Inr _ \<Rightarrow>
                    if af_BottleRebuild f < 0 then Some (NegativeRebuild (af_BottleRebuild f)) else None)))"

definition ResolveAuthenticatedFormulaReference ::
  "unicode_tables \<Rightarrow> url_parser \<Rightarrow> AuthenticatedFormula \<Rightarrow> (reference_error, FormulaReference) result" where
  "ResolveAuthenticatedFormulaReference U P f =
     (case validateAuthenticatedFormula U P f of
        Some e \<Rightarrow> Inl e
      | None \<Rightarrow>
          (case RepositoryPathForFormulaID U (ai_id (af_Identity f)) of
             Inl e \<Rightarrow> Inl e
           | Inr repository \<Rightarrow>
          (case oci_PkgVersion (af_StableVersion f) (af_Revision f) of
             Inl e \<Rightarrow> Inl e
           | Inr pkgVersion \<Rightarrow>
          (case IndexTag pkgVersion (af_BottleRebuild f) of
             Inl e \<Rightarrow> Inl e
           | Inr indexTag \<Rightarrow>
               Inr \<lparr>fr_Name = FormulaID_name (ai_id (af_Identity f)),
                    fr_FullName = ai_homebrewFullName (af_Identity f),
                    fr_PkgVersion = pkgVersion, fr_Registry = GHCRRegistry,
                    fr_Repository = repository,
                    fr_CanonicalRepository = GHCRRegistry @ ''/'' @ repository,
                    fr_IndexTag = indexTag\<rparr>))))"

section \<open>Repositories determine taps\<close>

lemma oci_validateFormulaID_None: "oci_validateFormulaID i = None \<longleftrightarrow> id_ok i"
proof
  assume "oci_validateFormulaID i = None"
  then have "Parse (FormulaID_String i) = Inr i"
    by (auto simp: oci_validateFormulaID_def split: if_splits sum.splits)
  then show "id_ok i" by (simp add: Parse_Inr_iff)
next
  assume ok: "id_ok i"
  then have "FormulaID_String i \<noteq> []" by (simp add: FormulaID_String_ok)
  then show "oci_validateFormulaID i = None" using ok by (simp add: oci_validateFormulaID_def Parse_String)
qed

lemma EscapeFormulaName_Inr:
  "EscapeFormulaName U name = Inr escaped \<longleftrightarrow>
     oci_validateFormulaName name = None \<and> escaped = map escape_char name
     \<and> validateRepository U escaped = None"
  by (auto simp: EscapeFormulaName_def Let_def split: option.splits)

lemma RepositoryPathForFormulaID_Inr:
  assumes "RepositoryPathForFormulaID U i = Inr repository"
  shows "id_ok i \<and> repository = Tap_owner (FormulaID_tap i) @ ''/'' @ Tap_name (FormulaID_tap i)
      @ ''/'' @ map escape_char (FormulaID_name i) \<and> validateRepository U repository = None"
  using assms
  by (auto simp: RepositoryPathForFormulaID_def EscapeFormulaName_Inr oci_validateFormulaID_None Let_def
      split: option.splits sum.splits if_splits)

lemma split_repository:
  assumes "id_ok i"
  shows "split_on CHR ''/'' (Tap_owner (FormulaID_tap i) @ ''/'' @ Tap_name (FormulaID_tap i) @ ''/'' @ e)
    = Tap_owner (FormulaID_tap i) # Tap_name (FormulaID_tap i) # split_on CHR ''/'' e"
  using split_on_append [OF id_ok_parts(1) [OF assms]] split_on_append [OF id_ok_parts(2) [OF assms]]
  by simp

text \<open>The escaping of \<open>+\<close> alone; it is what the repository does not tell apart.\<close>

definition plus_to_x :: "string \<Rightarrow> string" where
  "plus_to_x s = map (\<lambda>c. if c = CHR ''+'' then CHR ''x'' else c) s"

lemma escape_plus:
  assumes "CHR ''/'' \<notin> set a" and "CHR ''/'' \<notin> set b"
  shows "map escape_char a = map escape_char b \<longleftrightarrow> plus_to_x a = plus_to_x b"
  using assms
proof (induction a arbitrary: b)
  case Nil
  then show ?case by (cases b) (auto simp: plus_to_x_def)
next
  case (Cons x a)
  then show ?case by (cases b) (auto simp: plus_to_x_def escape_char_def)
qed

text \<open>
  C18: A repository determines its tap. Two Formula identities are given the same registry repository
  only when they are in the same tap and their names differ at most by \<open>+\<close> against \<open>x\<close>, the one
  character pair Homebrew's escaping merges; every repository lies strictly below its tap's prefix.
\<close>

theorem repository_determines_tap:
  assumes "RepositoryPathForFormulaID U i = Inr r" and "RepositoryPathForFormulaID U j = Inr r'"
  shows "(r = r' \<longleftrightarrow> FormulaID_tap i = FormulaID_tap j
      \<and> plus_to_x (FormulaID_name i) = plus_to_x (FormulaID_name j))
    \<and> take 2 (split_on CHR ''/'' r) = [Tap_owner (FormulaID_tap i), Tap_name (FormulaID_tap i)]
    \<and> 2 < length (split_on CHR ''/'' r)"
proof -
  note i = RepositoryPathForFormulaID_Inr [OF assms(1)] and j = RepositoryPathForFormulaID_Inr [OF assms(2)]
  have ri: "split_on CHR ''/'' r = Tap_owner (FormulaID_tap i) # Tap_name (FormulaID_tap i)
      # split_on CHR ''/'' (map escape_char (FormulaID_name i))"
    using i split_repository by simp
  have rj: "split_on CHR ''/'' r' = Tap_owner (FormulaID_tap j) # Tap_name (FormulaID_tap j)
      # split_on CHR ''/'' (map escape_char (FormulaID_name j))"
    using j split_repository by simp
  have "r = r' \<longleftrightarrow> split_on CHR ''/'' r = split_on CHR ''/'' r'" by (metis join_split)
  also have "\<dots> \<longleftrightarrow> FormulaID_tap i = FormulaID_tap j
      \<and> map escape_char (FormulaID_name i) = map escape_char (FormulaID_name j)"
  proof -
    have "split_on CHR ''/'' a = split_on CHR ''/'' b \<longleftrightarrow> a = b" for a b by (metis join_split)
    moreover have "FormulaID_tap i = FormulaID_tap j \<longleftrightarrow> Tap_owner (FormulaID_tap i) = Tap_owner (FormulaID_tap j)
        \<and> Tap_name (FormulaID_tap i) = Tap_name (FormulaID_tap j)"
      by (cases "FormulaID_tap i"; cases "FormulaID_tap j") auto
    ultimately show ?thesis unfolding ri rj by auto
  qed
  finally show ?thesis
    using ri escape_plus i j id_ok_parts(3) by (auto simp: Suc_le_eq)
qed

lemma validateRepository_None:
  assumes "r \<noteq> []" and "length r \<le> 255" and "to_lower U r = r"
    and "list_all repositorySegmentRE (split_on CHR ''/'' r)"
  shows "validateRepository U r = None"
  using assms unfolding validateRepository_def by (auto simp: first_error_None_iff list_all_iff)

lemma validateRepository_ascii:
  assumes "r \<noteq> []" and "length r \<le> 255"
    and "list_all (\<lambda>c. byte c < 128 \<and> \<not> (65 \<le> byte c \<and> byte c \<le> 90)) r"
    and "list_all repositorySegmentRE (split_on CHR ''/'' r)"
  shows "validateRepository ascii_tables r = None"
  using assms
  by (intro validateRepository_None to_lower_id(1)) (simp_all add: ascii_conform_def list_all_iff)

theorem repository_determines_tap_witness:
  "RepositoryPathForFormulaID ascii_tables \<lparr>FormulaID_tap = CoreTap, FormulaID_name = ''g++''\<rparr>
     = Inr ''homebrew/core/gxx''
   \<and> RepositoryPathForFormulaID ascii_tables \<lparr>FormulaID_tap = CoreTap, FormulaID_name = ''gxx''\<rparr>
     = Inr ''homebrew/core/gxx''
   \<and> plus_to_x ''g++'' = plus_to_x ''gxx''"
proof -
  let ?i = "\<lambda>name. \<lparr>FormulaID_tap = CoreTap, FormulaID_name = name\<rparr>"
  have core: "Tap_owner CoreTap = ''homebrew''" "Tap_name CoreTap = ''core''" by (simp_all add: CoreTap_def)
  have ok: "id_ok (?i ''g++'')" "id_ok (?i ''gxx'')" by code_simp+
  have names: "oci_validateFormulaName ''g++'' = None" "oci_validateFormulaName ''gxx'' = None" by code_simp+
  have repo: "validateRepository ascii_tables ''gxx'' = None"
    "validateRepository ascii_tables ''homebrew/core/gxx'' = None"
    by (rule validateRepository_ascii; code_simp)+
  have both: "RepositoryPathForFormulaID ascii_tables (?i ''g++'') = Inr ''homebrew/core/gxx''"
    "RepositoryPathForFormulaID ascii_tables (?i ''gxx'') = Inr ''homebrew/core/gxx''"
    using ok [folded oci_validateFormulaID_None] names repo core
    by (simp_all add: RepositoryPathForFormulaID_def EscapeFormulaName_def escape_char_def)
  show ?thesis
    using repository_determines_tap [OF both, unfolded FormulaID.select_convs] both by blast
qed

section \<open>The names of package version\<close>

lemma oci_PkgVersion_Inr:
  "oci_PkgVersion v r = Inr p \<Longrightarrow> p = PkgVersion v r \<and> p \<noteq> [] \<and> v \<noteq> [] \<and> 0 \<le> r"
  by (auto simp: oci_PkgVersion_def PkgVersion_def split: if_splits)

lemma IndexTag_Inr: "IndexTag p b = Inr t \<Longrightarrow> t = ImageTag p b \<and> ociTagRE t \<and> 0 \<le> b"
  by (auto simp: IndexTag_def ImageTag_def Let_def split: if_splits)

lemma formulaName_safe:
  "oci_validateFormulaName name = None \<Longrightarrow> safeName name \<and> \<not> has_slash name \<and> name \<noteq> []"
  by (auto simp: oci_validateFormulaName_def formulaNameRE_def safeName_def has_slash_def list_ex_iff
      list_all_iff isLowerAlphaNumeric_def less_eq_char_def split: if_splits list.splits)

lemma tag_plain: "ociTagRE t \<Longrightarrow> t \<noteq> [] \<and> \<not> has_slash t"
  by (auto simp: ociTagRE_def has_slash_def list_ex_iff list_all_iff tagChar_def isLowerAlphaNumeric_def less_eq_char_def
      split: list.splits)

lemma validBottleTag_plain: "validBottleTag tag \<Longrightarrow> tag \<noteq> [] \<and> \<not> has_slash tag"
  by (auto simp: validBottleTag_def BottleTagX8664Linux_def BottleTagARM64Linux_def BottleTagAll_def
      has_slash_def)

lemma itoa_plain: "0 \<le> i \<Longrightarrow> \<not> has_slash (itoa i)"
  using itoa_nat_digits [of "nat i"]
  by (auto simp: itoa_def has_slash_def list_ex_iff list_all_iff ascii_digit_byte)

lemma has_slash_append [simp]: "has_slash (a @ b) \<longleftrightarrow> has_slash a \<or> has_slash b"
  by (simp add: has_slash_def)

lemma has_slash_iff: "has_slash s \<longleftrightarrow> CHR ''/'' \<in> set s \<or> CHR 0x5C \<in> set s"
  by (auto simp: has_slash_def list_ex_iff)

lemma oci_BottleFilename_Inr:
  assumes "oci_BottleFilename name p tag b = Inr filename"
  shows "BottleFilename first name p tag b = Inr filename \<and> path_base filename = filename
    \<and> \<not> has_slash filename \<and> filename \<noteq> [] \<and> validBottleTag tag"
proof -
  from assms have name: "oci_validateFormulaName name = None" and p: "ociTagRE p"
    and tag: "validBottleTag tag" and b: "0 \<le> b"
    and f: "filename = name @ ''--'' @ p @ ''.'' @ tag @ ''.bottle''
        @ (if 0 < b then ''.'' @ itoa b else []) @ ''.tar.gz''"
    by (auto simp: oci_BottleFilename_def IndexTag_def split: option.splits sum.splits if_splits)
  note plain = formulaName_safe [OF name] tag_plain [OF p] validBottleTag_plain [OF tag] itoa_plain [OF b]
  have slash: "\<not> has_slash filename" unfolding f using plain by (simp add: has_slash_def)
  moreover have ne: "filename \<noteq> []" unfolding f by simp
  moreover have base: "path_base s = s" if "s \<noteq> []" "\<not> has_slash s" for s
    using that by (intro path_base_plain) (auto simp: has_slash_iff)
  moreover have "BottleFilename first name p tag b = Inr filename"
    unfolding BottleFilename_def f using plain base by (simp add: Let_def)
  ultimately show ?thesis using tag by blast
qed

text \<open>
  C19: The two packages that name bottles agree. The reference resolved for a Formula has the package
  version, the image tag, the repository path and the file name that package \<open>version\<close> computes, and
  that file name is a plain base name without separators.
\<close>

theorem reference_names_agree:
  assumes "ResolveFormulaReference U f = Inr ref"
    and "oci_BottleFilename (of_Name f) (fr_PkgVersion ref) tag (of_BottleRebuild f) = Inr filename"
  shows "fr_PkgVersion ref = PkgVersion (of_StableVersion f) (of_Revision f)
    \<and> fr_IndexTag ref = ImageTag (fr_PkgVersion ref) (of_BottleRebuild f)
    \<and> (\<exists>e. OCIFormulaPath (of_Name f) = Inr e
        \<and> fr_CanonicalRepository ref = ''ghcr.io/homebrew/core/'' @ e)
    \<and> BottleFilename first (of_Name f) (fr_PkgVersion ref) tag (of_BottleRebuild f) = Inr filename
    \<and> path_base filename = filename \<and> \<not> has_slash filename"
proof -
  from assms(1) obtain repo p t where repo: "RepositoryPath U (of_Name f) = Inr repo"
    and p: "oci_PkgVersion (of_StableVersion f) (of_Revision f) = Inr p"
    and t: "IndexTag p (of_BottleRebuild f) = Inr t"
    and ref: "fr_PkgVersion ref = p" "fr_IndexTag ref = t" "fr_CanonicalRepository ref = ''ghcr.io/'' @ repo"
    by (auto simp: ResolveFormulaReference_def GHCRRegistry_def split: option.splits sum.splits)
  from repo obtain e where e: "EscapeFormulaName U (of_Name f) = Inr e" "repo = ''homebrew/core/'' @ e"
    by (auto simp: RepositoryPath_def HomebrewCoreRepository_def Let_def split: sum.splits option.splits)
  from e(1) have "OCIFormulaPath (of_Name f) = Inr e"
    using formulaName_safe by (auto simp: EscapeFormulaName_Inr OCIFormulaPath_def escape_char_def)
  then show ?thesis
    using oci_PkgVersion_Inr [OF p] IndexTag_Inr [OF t] oci_BottleFilename_Inr [OF assms(2)] ref e(2)
    by simp
qed

definition sample_oformula :: OFormula where
  "sample_oformula = \<lparr>of_Name = ''jq'', of_FullName = ''jq'', of_StableVersion = ''1.7'', of_Revision = 1,
     of_VersionScheme = 0, of_BottleRebuild = 2, of_License = ''MIT'', of_KegOnly = False,
     of_BottleFiles = [(''x86_64_linux'', \<lparr>ob_Cellar = '':any'', ob_SHA256 = replicate 64 (CHR ''a'')\<rparr>)]\<rparr>"

lemma sample_repository: "RepositoryPath ascii_tables ''jq'' = Inr ''homebrew/core/jq''"
proof -
  have "validateRepository ascii_tables ''jq'' = None"
    "validateRepository ascii_tables ''homebrew/core/jq'' = None"
    by (rule validateRepository_ascii; code_simp)+
  moreover have "oci_validateFormulaName ''jq'' = None" by code_simp
  ultimately show ?thesis
    by (simp add: RepositoryPath_def EscapeFormulaName_def escape_char_def HomebrewCoreRepository_def)
qed

lemma sample_version: "oci_PkgVersion ''1.7'' 1 = Inr ''1.7_1''"
proof -
  have "trim_space ''1.7'' = ''1.7''" by (simp add: trim_space_ascii ascii_def unicode_IsSpace_def)
  moreover have "itoa 1 = ''1''" by code_simp
  ultimately show ?thesis by (simp add: oci_PkgVersion_def contains_any_def)
qed

lemma sample_reference:
  "ResolveFormulaReference ascii_tables sample_oformula =
     Inr \<lparr>fr_Name = ''jq'', fr_FullName = ''homebrew/core/jq'', fr_PkgVersion = ''1.7_1'',
          fr_Registry = ''ghcr.io'', fr_Repository = ''homebrew/core/jq'',
          fr_CanonicalRepository = ''ghcr.io/homebrew/core/jq'', fr_IndexTag = ''1.7_1-2''\<rparr>"
proof -
  have "IndexTag ''1.7_1'' 2 = Inr ''1.7_1-2''" "oci_validateFormulaName ''jq'' = None" by code_simp+
  then show ?thesis
    using sample_repository sample_version
    by (simp add: ResolveFormulaReference_def validateFormulaIdentity_def sample_oformula_def
        GHCRRegistry_def canonicalFullName_def HomebrewCoreRepository_def)
qed

theorem reference_names_agree_witness:
  "BottleFilename True ''jq'' ''1.7_1'' ''x86_64_linux'' 2
    = Inr ''jq--1.7_1.x86_64_linux.bottle.2.tar.gz''"
proof -
  have computed: "oci_BottleFilename (of_Name sample_oformula) ''1.7_1'' ''x86_64_linux''
      (of_BottleRebuild sample_oformula) = Inr ''jq--1.7_1.x86_64_linux.bottle.2.tar.gz''" by code_simp
  have "BottleFilename True (of_Name sample_oformula) ''1.7_1'' ''x86_64_linux''
      (of_BottleRebuild sample_oformula) = Inr ''jq--1.7_1.x86_64_linux.bottle.2.tar.gz''"
    using reference_names_agree [OF sample_reference, unfolded FormulaReference.select_convs, OF computed,
        of True] by blast
  then show ?thesis by (simp add: sample_oformula_def)
qed

end
