(* ===== verification/Resolution.thy ===== *)
theory Resolution
  imports GoStd Topo
begin

text \<open>
  \<open>internal/resolution/record.go\<close>: the replay record, its canonical form and its validation.

  \<^item> The Go structs are records; \<open>Signature\<close> and \<open>KV\<close> are datatypes with the order of the source's
    comparators as their \<open>linorder\<close> instance.
  \<^item> A \<open>time.Time\<close> is the number of nanoseconds since its zero value, so \<open>IsZero\<close> is \<open>= 0\<close>, and
    \<open>UTC().Round(0)\<close> does not change it.
  \<^item> \<open>go-digest\<close> and \<open>distribution/reference\<close> are the arguments \<open>D\<close> and \<open>R\<close>.
  \<^item> \<open>Validate\<close> returns the list of the errors it joins. A range over a map literal adds its errors in
    the order the literal is written; Go leaves that order open, and it only permutes the list.
\<close>

section \<open>Libraries\<close>

record digest_lib =
  dg_Parse :: "string \<Rightarrow> string option"
  dg_Algorithm :: "string \<Rightarrow> string"
  dg_Validate :: "string \<Rightarrow> bool"

text \<open>
  A normalized reference: its domain, its path, and the digest of a digested one.
\<close>

record named_ref =
  nr_Domain :: string
  nr_Path :: string
  nr_Digest :: "string option"

type_synonym reference_lib = "string \<Rightarrow> named_ref option"

section \<open>The record\<close>

record Platform =
  p_OS :: string
  p_Architecture :: string
  p_Variant :: string

record Input =
  in_DalecSpecDigest :: string
  in_TargetKey :: string
  in_Platform :: Platform

datatype Signature = Signature (sig_KeyID: string) (sig_Algorithm: string) (sig_Verified: bool)

datatype KV = KV (kv_Key: string) (kv_Value: string)

record MetadataSnapshot =
  ms_Digest :: string
  ms_FormulaDigest :: string
  ms_MigrationDigest :: string
  ms_FormulaEnvelopeDigest :: string
  ms_MigrationEnvelopeDigest :: string
  ms_FormulaFreshnessSource :: string
  ms_MigrationFreshnessSource :: string
  ms_GeneratedAt :: int
  ms_FetchedAt :: int
  ms_Signatures :: "Signature list"
  ms_FormulaSignatures :: "Signature list"
  ms_MigrationSignatures :: "Signature list"
  ms_FormulaURL :: string
  ms_MigrationURL :: string

record RequestedRoot =
  rr_Requested :: string
  rr_Canonical :: string
  rr_KegOnly :: bool

record Requirement =
  rq_Name :: string
  rq_Minimum :: string
  rq_Revision :: int
  rq_BottleRebuild :: int
  rq_Direct :: bool

record Descriptor =
  d_Digest :: string
  d_Size :: int
  d_MediaType :: string
  d_Platform :: "Platform option"
  d_Metadata :: "(string, string) gomap"

record BuiltOn =
  bo_OS :: string
  bo_OSVersion :: string
  bo_CPUFamily :: string
  bo_OldestCPUFamily :: string
  bo_GlibcVersion :: string

record RuntimeDependency =
  rd_FullName :: string
  rd_Version :: string
  rd_Revision :: int
  rd_BottleRebuild :: int
  rd_PkgVersion :: string
  rd_DeclaredDirectly :: bool

record BottleTab =
  bt_HomebrewVersion :: string
  bt_Arch :: string
  bt_Compiler :: string
  bt_ChangedFiles :: "string list"
  bt_BuiltOn :: BuiltOn
  bt_Dependencies :: "RuntimeDependency list"

record NodeBottle =
  nb_Tag :: string
  nb_Filename :: string
  nb_Repository :: string
  nb_Index :: Descriptor
  nb_Manifest :: Descriptor
  nb_Config :: Descriptor
  nb_Layer :: Descriptor
  nb_HomebrewSHA256 :: string
  nb_Cellar :: string
  nb_Tab :: BottleTab
  nb_SelectedAnnotations :: "KV list"

record Node =
  n_Name :: string
  n_FullName :: string
  n_FormulaVersion :: string
  n_FormulaRevision :: int
  n_PkgVersion :: string
  n_VersionScheme :: int
  n_BottleRebuild :: int
  n_License :: string
  n_KegOnly :: bool
  n_Dependencies :: "Requirement list"
  n_Bottle :: NodeBottle
  n_ExecutablePaths :: "string list"
  n_UpstreamFormulaID :: string
  n_PolicyFormulaID :: string

record Components =
  co_FrontendRef :: string
  co_RuntimeBaseRef :: string
  co_MaterializerRef :: string
  co_HomebrewCommit :: string
  co_RubyRuntime :: string
  co_VerificationKeys :: string
  co_DalecModule :: string
  co_BuildKitModule :: string

record RuntimePolicy =
  rp_Profile :: string
  rp_User :: string
  rp_UID :: int
  rp_GID :: int
  rp_GeneratedPATH :: "string list"
  rp_WritablePaths :: "string list"
  rp_CPUBaseline :: string

record AttestationPolicy =
  ap_Identity :: string
  ap_Waiver :: string

record Record =
  r_SchemaVersion :: string
  r_PolicyVersion :: string
  r_Input :: Input
  r_Metadata :: MetadataSnapshot
  r_ResolvedAt :: int
  r_SourceDateEpoch :: int
  r_Requested :: "RequestedRoot list"
  r_Nodes :: "Node list"
  r_InstallOrder :: "string list"
  r_Components :: Components
  r_Runtime :: RuntimePolicy
  r_AttestationPolicy :: AttestationPolicy
  r_PruningPolicyDigest :: string

definition SchemaVersion :: string where
  "SchemaVersion = ''dalec-homebrew-resolution/v1''"

definition PolicyVersion :: string where
  "PolicyVersion = ''homebrew-runtime-v1''"

section \<open>The orders of the canonical form\<close>

text \<open>The comparator of \<open>sortSignatures\<close>, and that of the annotations.\<close>

definition cmp_string :: "string \<Rightarrow> string \<Rightarrow> int" where
  "cmp_string a b = (if a = b then 0 else if a < b then -1 else 1)"

definition cmp_Signature :: "Signature \<Rightarrow> Signature \<Rightarrow> int" where
  "cmp_Signature a b =
     (let c = cmp_string (sig_KeyID a) (sig_KeyID b)
      in if c \<noteq> 0 then c
         else let c = cmp_string (sig_Algorithm a) (sig_Algorithm b)
              in if c \<noteq> 0 then c
                 else if sig_Verified a = sig_Verified b then 0
                 else if \<not> sig_Verified a then -1 else 1)"

definition cmp_KV :: "KV \<Rightarrow> KV \<Rightarrow> int" where
  "cmp_KV a b =
     (let c = cmp_string (kv_Key a) (kv_Key b)
      in if c \<noteq> 0 then c else cmp_string (kv_Value a) (kv_Value b))"

instantiation Signature :: linorder
begin

definition less_eq_Signature :: "Signature \<Rightarrow> Signature \<Rightarrow> bool" where
  "less_eq_Signature a b = (cmp_Signature a b \<le> 0)"

definition less_Signature :: "Signature \<Rightarrow> Signature \<Rightarrow> bool" where
  "less_Signature a b = (cmp_Signature a b < 0)"

instance
proof
  fix x y z :: Signature
  show "(x < y) = (x \<le> y \<and> \<not> y \<le> x)" and "x \<le> x" and "x \<le> y \<or> y \<le> x"
    by (cases x; cases y; auto simp: less_eq_Signature_def less_Signature_def cmp_Signature_def
        cmp_string_def Let_def)+
  show "x \<le> y \<Longrightarrow> y \<le> x \<Longrightarrow> x = y"
    by (cases x; cases y)
      (auto simp: less_eq_Signature_def cmp_Signature_def cmp_string_def Let_def split: if_splits)
  show "x \<le> y \<Longrightarrow> y \<le> z \<Longrightarrow> x \<le> z"
    by (cases x; cases y; cases z)
      (auto simp: less_eq_Signature_def cmp_Signature_def cmp_string_def Let_def split: if_splits)
qed

end

instantiation KV :: linorder
begin

definition less_eq_KV :: "KV \<Rightarrow> KV \<Rightarrow> bool" where
  "less_eq_KV a b = (cmp_KV a b \<le> 0)"

definition less_KV :: "KV \<Rightarrow> KV \<Rightarrow> bool" where
  "less_KV a b = (cmp_KV a b < 0)"

instance
proof
  fix x y z :: KV
  show "(x < y) = (x \<le> y \<and> \<not> y \<le> x)" and "x \<le> x" and "x \<le> y \<or> y \<le> x"
    by (cases x; cases y; auto simp: less_eq_KV_def less_KV_def cmp_KV_def cmp_string_def Let_def)+
  show "x \<le> y \<Longrightarrow> y \<le> x \<Longrightarrow> x = y"
    by (cases x; cases y)
      (auto simp: less_eq_KV_def cmp_KV_def cmp_string_def Let_def split: if_splits)
  show "x \<le> y \<Longrightarrow> y \<le> z \<Longrightarrow> x \<le> z"
    by (cases x; cases y; cases z)
      (auto simp: less_eq_KV_def cmp_KV_def cmp_string_def Let_def split: if_splits)
qed

end

section \<open>Canonical form\<close>

text \<open>
  \<open>slices.SortFunc\<close> by name is the stable \<open>sort_key\<close>; the two agree where names are distinct, which
  \<open>Validate\<close> demands. An empty metadata map and a nil one are the same list.
\<close>

definition canonicalNode :: "Node \<Rightarrow> Node" where
  "canonicalNode n =
     n\<lparr>n_Dependencies := sort_key rq_Name (n_Dependencies n),
       n_ExecutablePaths := sort (n_ExecutablePaths n),
       n_Bottle := (n_Bottle n)\<lparr>
         nb_Tab := (nb_Tab (n_Bottle n))\<lparr>bt_ChangedFiles := sort (bt_ChangedFiles (nb_Tab (n_Bottle n)))\<rparr>,
         nb_SelectedAnnotations := sort (nb_SelectedAnnotations (n_Bottle n))\<rparr>\<rparr>"

definition canonicalize :: "Record \<Rightarrow> Record" where
  "canonicalize r =
     r\<lparr>r_Metadata := (r_Metadata r)\<lparr>
         ms_Signatures := sort (ms_Signatures (r_Metadata r)),
         ms_FormulaSignatures := sort (ms_FormulaSignatures (r_Metadata r)),
         ms_MigrationSignatures := sort (ms_MigrationSignatures (r_Metadata r))\<rparr>,
       r_Nodes := map canonicalNode (sort_key n_Name (r_Nodes r)),
       r_Runtime := (r_Runtime r)\<lparr>rp_WritablePaths := sort (rp_WritablePaths (r_Runtime r))\<rparr>\<rparr>"

section \<open>Validation\<close>

datatype (plugins only: code size) record_error =
    UnsupportedSchema string
  | UnsupportedPolicy string
  | UnsupportedPlatform string string
  | FieldDigest string
  | BadEpoch
  | BadTimestamps
  | NoRoots
  | NoNodes
  | NodeIdentity string string
  | DuplicateNode string
  | NodeVersion string
  | UnsafeFilename string string
  | IncompleteBottle string
  | AllBottleArch string string
  | AllBottlePlatform string
  | TabArch string string string
  | ManifestPlatform string
  | BottleTag string string
  | NodeDescriptor string string
  | NodeChecksum string
  | LayerMismatch string
  | EmptyDependency string
  | DuplicateDependency string string
  | MissingRoot string string
  | MissingNode string string
  | OrderLength nat nat
  | OrderUnknown string
  | OrderDuplicate string
  | OrderOmits string
  | OrderPlaces string string
  | Unreachable string
  | RuntimeIdentity
  | RuntimeProfile
  | Attestation
  | FreshnessSource string string
  | NoVerifiedSignature string
  | ComponentRef string
  | MissingRuby
  | BadCommit
  | VerificationKeys
  | MissingModules
  | PruningPolicy
  | UnsupportedWaiver string

definition err_if :: "bool \<Rightarrow> 'e \<Rightarrow> 'e list" where
  "err_if b e = (if b then [e] else [])"

definition validateDigest :: "digest_lib \<Rightarrow> string \<Rightarrow> bool" where
  "validateDigest D s =
     (case dg_Parse D s of
        None \<Rightarrow> False
      | Some d \<Rightarrow> dg_Algorithm D d = ''sha256'' \<and> dg_Validate D d)"

definition validateDescriptor :: "digest_lib \<Rightarrow> Descriptor \<Rightarrow> bool" where
  "validateDescriptor D d =
     (validateDigest D (d_Digest d) \<and> 0 < d_Size d \<and> trim_space (d_MediaType d) \<noteq> [])"

definition validateSHA256Hex :: "string \<Rightarrow> bool" where
  "validateSHA256Hex s = (length s = 64 \<and> hex_ok s)"

definition validateRuntimeIdentity :: "RuntimePolicy \<Rightarrow> bool" where
  "validateRuntimeIdentity rt =
     (if rp_UID rt \<le> 0 \<or> rp_GID rt \<le> 0 then False
      else
        let user = trim_space (rp_User rt)
        in if user = ''linuxbrew'' \<or> user = ''linuxbrew:linuxbrew''
           then rp_UID rt = 1000 \<and> rp_GID rt = 1000
           else case split_on CHR '':'' user of
             [u, g] \<Rightarrow>
               (case (atoi u, atoi g) of
                  (Some uid, Some gid) \<Rightarrow> 0 < uid \<and> 0 < gid \<and> uid = rp_UID rt \<and> gid = rp_GID rt
                | _ \<Rightarrow> False)
           | _ \<Rightarrow> False)"

definition headerErrors :: "digest_lib \<Rightarrow> Record \<Rightarrow> record_error list" where
  "headerErrors D r =
     (let p = in_Platform (r_Input r); m = r_Metadata r
      in err_if (r_SchemaVersion r \<noteq> SchemaVersion) (UnsupportedSchema (r_SchemaVersion r))
       @ err_if (r_PolicyVersion r \<noteq> PolicyVersion) (UnsupportedPolicy (r_PolicyVersion r))
       @ err_if (p_OS p \<noteq> ''linux'' \<or> (p_Architecture p \<noteq> ''amd64'' \<and> p_Architecture p \<noteq> ''arm64'')
             \<or> p_Variant p \<noteq> []) (UnsupportedPlatform (p_OS p) (p_Architecture p))
       @ concat (map (\<lambda>(field, v). err_if (\<not> validateDigest D v) (FieldDigest field))
           [(''input.dalec_spec_digest'', in_DalecSpecDigest (r_Input r)),
            (''metadata.digest'', ms_Digest m), (''metadata.formula_digest'', ms_FormulaDigest m),
            (''metadata.migration_digest'', ms_MigrationDigest m)])
       @ err_if (r_SourceDateEpoch r \<le> 0) BadEpoch
       @ err_if (r_ResolvedAt r = 0 \<or> ms_GeneratedAt m = 0 \<or> ms_FetchedAt m = 0) BadTimestamps
       @ err_if (r_Requested r = []) NoRoots
       @ err_if (r_Nodes r = []) NoNodes)"

definition bottleErrors :: "Platform \<Rightarrow> Node \<Rightarrow> record_error list" where
  "bottleErrors target n =
     (let b = n_Bottle n; name = n_Name n;
          arm = (p_Architecture target = ''arm64'');
          expectedTag = (if arm then ''arm64_linux'' else ''x86_64_linux'');
          expectedTabArch = (if arm then ''arm64'' else ''x86_64'')
      in if nb_Tag b = ''all''
         then err_if (bt_Arch (nb_Tab b) \<noteq> []) (AllBottleArch name (bt_Arch (nb_Tab b)))
            @ err_if (d_Platform (nb_Manifest b) \<noteq> None) (AllBottlePlatform name)
         else if nb_Tag b = expectedTag
         then err_if (bt_Arch (nb_Tab b) \<noteq> expectedTabArch)
                (TabArch name (bt_Arch (nb_Tab b)) expectedTabArch)
            @ (case d_Platform (nb_Manifest b) of
                 None \<Rightarrow> [ManifestPlatform name]
               | Some p \<Rightarrow> err_if (p_OS p \<noteq> ''linux'' \<or> p_Architecture p \<noteq> p_Architecture target
                             \<or> p_Variant p \<noteq> []) (ManifestPlatform name))
         else [BottleTag name (nb_Tag b)])"

fun duplicateErrors :: "string \<Rightarrow> string list \<Rightarrow> Requirement list \<Rightarrow> record_error list" where
  "duplicateErrors name seen [] = []"
| "duplicateErrors name seen (dep # ds) =
     err_if (rq_Name dep = []) (EmptyDependency name)
     @ err_if (rq_Name dep \<in> set seen) (DuplicateDependency name (rq_Name dep))
     @ duplicateErrors name (rq_Name dep # seen) ds"

definition nodeErrors ::
  "unicode_tables \<Rightarrow> digest_lib \<Rightarrow> Platform \<Rightarrow> (string, Node) gomap \<Rightarrow> Node \<Rightarrow> record_error list" where
  "nodeErrors U D target nodes n =
     (let b = n_Bottle n; name = n_Name n
      in err_if (name = [] \<or> n_FullName n \<noteq> ''homebrew/core/'' @ name) (NodeIdentity name (n_FullName n))
       @ err_if (mhas nodes name) (DuplicateNode name)
       @ err_if (n_FormulaVersion n = [] \<or> n_PkgVersion n = []) (NodeVersion name)
       @ err_if (nb_Filename b \<noteq> [] \<and> (path_base (nb_Filename b) \<noteq> nb_Filename b
             \<or> list_ex (\<lambda>c. c = CHR ''/'' \<or> c = CHR 0x5C) (nb_Filename b)))
           (UnsafeFilename name (nb_Filename b))
       @ err_if (nb_Repository b = [] \<or> nb_Filename b = [] \<or> nb_Tag b = []) (IncompleteBottle name)
       @ bottleErrors target n
       @ concat (map (\<lambda>(label, d). err_if (\<not> validateDescriptor D d) (NodeDescriptor name label))
           [(''index'', nb_Index b), (''manifest'', nb_Manifest b), (''config'', nb_Config b),
            (''layer'', nb_Layer b)])
       @ err_if (\<not> validateSHA256Hex (nb_HomebrewSHA256 b)) (NodeChecksum name)
       @ err_if (d_Digest (nb_Layer b) \<noteq> ''sha256:'' @ to_lower U (nb_HomebrewSHA256 b)) (LayerMismatch name)
       @ duplicateErrors name [] (n_Dependencies n))"

text \<open>The first loop over the nodes also fills the map \<open>nodes\<close>; the last node of a name stays.\<close>

fun nodesLoop ::
  "unicode_tables \<Rightarrow> digest_lib \<Rightarrow> Platform \<Rightarrow> (string, Node) gomap \<Rightarrow> Node list
     \<Rightarrow> record_error list \<times> (string, Node) gomap" where
  "nodesLoop U D target nodes [] = ([], nodes)"
| "nodesLoop U D target nodes (n # ns) =
     (let (errs, nodes') = nodesLoop U D target (mput (n_Name n) n nodes) ns
      in (nodeErrors U D target nodes n @ errs, nodes'))"

definition rootErrors :: "(string, Node) gomap \<Rightarrow> Record \<Rightarrow> record_error list" where
  "rootErrors nodes r =
     concat (map (\<lambda>root. err_if (\<not> mhas nodes (rr_Canonical root))
         (MissingRoot (rr_Requested root) (rr_Canonical root))) (r_Requested r))"

definition dependencyErrors :: "(string, Node) gomap \<Rightarrow> Record \<Rightarrow> record_error list" where
  "dependencyErrors nodes r =
     concat (map (\<lambda>n. concat (map (\<lambda>dep. err_if (\<not> mhas nodes (rq_Name dep))
         (MissingNode (n_Name n) (rq_Name dep))) (n_Dependencies n))) (r_Nodes r))"

fun positionsLoop ::
  "(string, Node) gomap \<Rightarrow> nat \<Rightarrow> (string, nat) gomap \<Rightarrow> string list
     \<Rightarrow> record_error list \<times> (string, nat) gomap" where
  "positionsLoop nodes i position [] = ([], position)"
| "positionsLoop nodes i position (name # names) =
     (let (errs, position') = positionsLoop nodes (Suc i) (mput name i position) names
      in (err_if (\<not> mhas nodes name) (OrderUnknown name)
          @ err_if (mhas position name) (OrderDuplicate name) @ errs, position'))"

definition placeErrors :: "(string, nat) gomap \<Rightarrow> Node \<Rightarrow> record_error list" where
  "placeErrors position n =
     (case mget position (n_Name n) of
        None \<Rightarrow> [OrderOmits (n_Name n)]
      | Some i \<Rightarrow>
          concat (map (\<lambda>dep.
            case mget position (rq_Name dep) of
              None \<Rightarrow> [OrderPlaces (n_Name n) (rq_Name dep)]
            | Some j \<Rightarrow> err_if (i \<le> j) (OrderPlaces (n_Name n) (rq_Name dep))) (n_Dependencies n)))"

definition orderErrors :: "(string, Node) gomap \<Rightarrow> Record \<Rightarrow> record_error list" where
  "orderErrors nodes r =
     (if length (r_InstallOrder r) \<noteq> length nodes
      then [OrderLength (length (r_InstallOrder r)) (length nodes)]
      else let (errs, position) = positionsLoop nodes 0 [] (r_InstallOrder r)
           in errs @ concat (map (placeErrors position) (r_Nodes r)))"

definition nodeGraph :: "(string, Node) gomap \<Rightarrow> string graph" where
  "nodeGraph nodes = map (\<lambda>(name, n). (name, map rq_Name (n_Dependencies n))) nodes"

definition reachErrors :: "(string, Node) gomap \<Rightarrow> Record \<Rightarrow> record_error list" where
  "reachErrors nodes r =
     (let marked = walk (nodeGraph nodes) (map rr_Canonical (r_Requested r)) []
      in concat (map (\<lambda>name. err_if (name \<notin> set marked) (Unreachable name)) (mkeys nodes)))"

definition Validate :: "unicode_tables \<Rightarrow> digest_lib \<Rightarrow> Record \<Rightarrow> record_error list" where
  "Validate U D r =
     (let (nodeErrs, nodes) = nodesLoop U D (in_Platform (r_Input r)) [] (r_Nodes r)
      in headerErrors D r @ nodeErrs @ rootErrors nodes r @ dependencyErrors nodes r
       @ orderErrors nodes r @ reachErrors nodes r
       @ err_if (\<not> validateRuntimeIdentity (r_Runtime r)) RuntimeIdentity
       @ err_if (rp_Profile (r_Runtime r) \<noteq> []) RuntimeProfile
       @ err_if ((ap_Identity (r_AttestationPolicy r) = []) = (ap_Waiver (r_AttestationPolicy r) = []))
           Attestation)"

section \<open>References and the checks before materialization\<close>

definition ValidatePinnedReference :: "digest_lib \<Rightarrow> reference_lib \<Rightarrow> string \<Rightarrow> bool" where
  "ValidatePinnedReference D R ref =
     (trim_space ref \<noteq> [] \<and>
      (case R ref of
         None \<Rightarrow> False
       | Some named \<Rightarrow>
           (case nr_Digest named of None \<Rightarrow> False | Some d \<Rightarrow> validateDigest D d)))"

text \<open>\<open>strings.EqualFold\<close> on the hostnames is the argument \<open>equalFold\<close>.\<close>

definition SameReferenceRepository ::
  "(string \<Rightarrow> string \<Rightarrow> bool) \<Rightarrow> reference_lib \<Rightarrow> string \<Rightarrow> string \<Rightarrow> bool" where
  "SameReferenceRepository equalFold R a b =
     (case (R a, R b) of
        (Some x, Some y) \<Rightarrow> equalFold (nr_Domain x) (nr_Domain y) \<and> nr_Path x = nr_Path y
      | _ \<Rightarrow> False)"

definition isLowerHex :: "string \<Rightarrow> bool" where
  "isLowerHex value = list_all (\<lambda>r. 48 \<le> r \<and> r \<le> 57 \<or> 97 \<le> r \<and> r \<le> 102) (runes value)"

definition hasVerified :: "Signature list \<Rightarrow> bool" where
  "hasVerified values = list_ex sig_Verified values"

definition ValidateForMaterialization ::
  "unicode_tables \<Rightarrow> digest_lib \<Rightarrow> reference_lib \<Rightarrow> Record \<Rightarrow> record_error list" where
  "ValidateForMaterialization U D R r =
     (let m = r_Metadata r; c = r_Components r; w = ap_Waiver (r_AttestationPolicy r)
      in Validate U D r
       @ concat (map (\<lambda>(label, v). err_if (\<not> validateDigest D v) (FieldDigest label))
           [(''Formula envelope'', ms_FormulaEnvelopeDigest m),
            (''migration envelope'', ms_MigrationEnvelopeDigest m)])
       @ concat (map (\<lambda>(label, v). err_if (v \<noteq> ''signed-payload'' \<and> v \<noteq> ''http-last-modified'')
             (FreshnessSource label v))
           [(''Formula freshness source'', ms_FormulaFreshnessSource m),
            (''migration freshness source'', ms_MigrationFreshnessSource m)])
       @ err_if (\<not> hasVerified (ms_FormulaSignatures m)) (NoVerifiedSignature ''Formula'')
       @ err_if (\<not> hasVerified (ms_MigrationSignatures m)) (NoVerifiedSignature ''migration'')
       @ concat (map (\<lambda>(name, ref). err_if (\<not> ValidatePinnedReference D R ref) (ComponentRef name))
           [(''frontend'', co_FrontendRef c), (''runtime base'', co_RuntimeBaseRef c),
            (''materializer'', co_MaterializerRef c)])
       @ err_if (trim_space (co_RubyRuntime c) = []) MissingRuby
       @ err_if (length (co_HomebrewCommit c) \<noteq> 40 \<or> \<not> isLowerHex (co_HomebrewCommit c)) BadCommit
       @ err_if (\<not> validateDigest D (co_VerificationKeys c)) VerificationKeys
       @ err_if (co_DalecModule c = [] \<or> co_DalecModule c = ''unknown'' \<or> co_BuildKitModule c = []
             \<or> co_BuildKitModule c = ''unknown'') MissingModules
       @ err_if (\<not> validateDigest D (r_PruningPolicyDigest r)) PruningPolicy
       @ err_if (w \<noteq> [] \<and> w \<noteq> ''homebrew-jws-and-verified-oci-chain-v1'') (UnsupportedWaiver w))"

section \<open>What a valid closure is\<close>

definition recordGraph :: "Record \<Rightarrow> string graph" where
  "recordGraph r = map (\<lambda>n. (n_Name n, map rq_Name (n_Dependencies n))) (r_Nodes r)"

definition roots_of :: "Record \<Rightarrow> string list" where
  "roots_of r = map rr_Canonical (r_Requested r)"

definition closure_ok :: "Record \<Rightarrow> bool" where
  "closure_ok r \<longleftrightarrow>
     distinct (map n_Name (r_Nodes r)) \<and>
     reachable (deps (recordGraph r)) (roots_of r) = n_Name ` set (r_Nodes r) \<and>
     distinct (r_InstallOrder r) \<and> set (r_InstallOrder r) = n_Name ` set (r_Nodes r) \<and>
     deps_first (deps (recordGraph r)) (r_InstallOrder r)"

text \<open>The errors about the shape of the closure, as opposed to the contents of its parts.\<close>

fun structural :: "record_error \<Rightarrow> bool" where
  "structural (DuplicateNode _) = True"
| "structural (MissingRoot _ _) = True"
| "structural (MissingNode _ _) = True"
| "structural (OrderLength _ _) = True"
| "structural (OrderUnknown _) = True"
| "structural (OrderDuplicate _) = True"
| "structural (OrderOmits _) = True"
| "structural (OrderPlaces _ _) = True"
| "structural (Unreachable _) = True"
| "structural _ = False"

abbreviation clean :: "record_error list \<Rightarrow> bool" where
  "clean errs \<equiv> list_all (\<lambda>e. \<not> structural e) errs"

section \<open>Lemmas\<close>

lemma clean_err_if [simp]: "clean (err_if b e) \<longleftrightarrow> (b \<longrightarrow> \<not> structural e)"
  by (simp add: err_if_def)

lemma clean_concat [simp]: "clean (concat (map f xs)) \<longleftrightarrow> (\<forall>x \<in> set xs. clean (f x))"
  by (induction xs) auto

lemma clean_duplicateErrors [simp]: "clean (duplicateErrors name seen ds)"
  by (induction name seen ds rule: duplicateErrors.induct) auto

lemma clean_bottleErrors [simp]: "clean (bottleErrors target n)"
  by (auto simp: bottleErrors_def Let_def split: option.split)

lemma clean_nodeErrors [simp]: "clean (nodeErrors U D target nodes n) \<longleftrightarrow> \<not> mhas nodes (n_Name n)"
  by (simp add: nodeErrors_def Let_def)

lemma clean_headerErrors [simp]: "clean (headerErrors D r)"
  by (simp add: headerErrors_def Let_def)

lemma clean_nodesLoop:
  "clean (fst (nodesLoop U D target nodes ns)) \<longleftrightarrow>
     distinct (map n_Name ns) \<and> n_Name ` set ns \<inter> fst ` set nodes = {}"
  by (induction ns arbitrary: nodes) (auto simp: mhas_iff case_prod_beta)

lemma nodesLoop_nodes:
  "distinct (map n_Name ns) \<Longrightarrow> n_Name ` set ns \<inter> fst ` set nodes = {} \<Longrightarrow>
     snd (nodesLoop U D target nodes ns) = nodes @ map (\<lambda>n. (n_Name n, n)) ns"
proof (induction ns arbitrary: nodes)
  case (Cons n ns)
  then have "mput (n_Name n) n nodes = nodes @ [(n_Name n, n)]" by (intro mput_fresh) auto
  with Cons show ?case by (auto simp: case_prod_beta)
qed simp

lemma positionsLoop_clean:
  "clean (fst (positionsLoop nodes i position names)) \<longleftrightarrow>
     set names \<subseteq> fst ` set nodes \<and> distinct names \<and> set names \<inter> fst ` set position = {}"
  by (induction names arbitrary: i position) (auto simp: mhas_iff case_prod_beta)

lemma positionsLoop_positions:
  "distinct names \<Longrightarrow> set names \<inter> fst ` set position = {} \<Longrightarrow>
     snd (positionsLoop nodes i position names) = position @ zip names [i..<i + length names]"
proof (induction names arbitrary: i position)
  case (Cons name names)
  then have put: "mput name i position = position @ [(name, i)]" by (intro mput_fresh) auto
  have idx: "[i..<i + length (name # names)] = i # [Suc i..<Suc i + length names]"
    by (subst upt_conv_Cons) simp_all
  show ?case unfolding idx using Cons put by (auto simp: case_prod_beta)
qed simp

lemma position_of:
  assumes "distinct order"
  shows "mget (zip order [0..<length order]) name = Some i \<longleftrightarrow> i < length order \<and> order ! i = name"
  using assms by (auto simp: map_of_zip_nth map_of_eq_Some_iff in_set_zip)

text \<open>The errors about the shape, once the nodes have distinct names.\<close>

lemma deps_recordGraph:
  assumes "distinct (map n_Name (r_Nodes r))" and "n \<in> set (r_Nodes r)"
  shows "deps (recordGraph r) (n_Name n) = map rq_Name (n_Dependencies n)"
proof -
  have "mget (recordGraph r) (n_Name n) = Some (map rq_Name (n_Dependencies n))"
    using assms by (intro map_of_is_SomeI) (auto simp: recordGraph_def comp_def)
  then show ?thesis by (simp add: deps_def)
qed

lemma deps_recordGraph_outside: "name \<notin> n_Name ` set (r_Nodes r) \<Longrightarrow> deps (recordGraph r) name = []"
proof -
  assume "name \<notin> n_Name ` set (r_Nodes r)"
  then have "mget (recordGraph r) name = None"
    by (simp add: map_of_eq_None_iff recordGraph_def image_image)
  then show ?thesis by (simp add: deps_def)
qed

abbreviation named :: "Record \<Rightarrow> (string, Node) gomap" where
  "named r \<equiv> map (\<lambda>n. (n_Name n, n)) (r_Nodes r)"

lemma keys_named [simp]: "fst ` set (named r) = n_Name ` set (r_Nodes r)"
  by (simp add: image_image)

lemma nodeGraph_named: "nodeGraph (named r) = recordGraph r"
  by (simp add: nodeGraph_def recordGraph_def)

lemma rootErrors_clean:
  "clean (rootErrors (named r) r) \<longleftrightarrow> set (roots_of r) \<subseteq> n_Name ` set (r_Nodes r)"
  by (auto simp: rootErrors_def mhas_iff roots_of_def image_image)

lemma dependencyErrors_clean:
  assumes "distinct (map n_Name (r_Nodes r))"
  shows "clean (dependencyErrors (named r) r) \<longleftrightarrow>
    (\<forall>n \<in> set (r_Nodes r). set (deps (recordGraph r) (n_Name n)) \<subseteq> n_Name ` set (r_Nodes r))"
  by (auto simp: dependencyErrors_def mhas_iff image_image deps_recordGraph [OF assms])

lemma reachErrors_clean:
  "clean (reachErrors (named r) r) \<longleftrightarrow>
     n_Name ` set (r_Nodes r) \<subseteq> reachable (deps (recordGraph r)) (roots_of r)"
  by (auto simp: reachErrors_def Let_def nodeGraph_named walk_reachable roots_of_def)

lemma placeErrors_clean:
  assumes "distinct (map n_Name (r_Nodes r))" and "distinct order"
    and "set order = n_Name ` set (r_Nodes r)"
  shows "(\<forall>n \<in> set (r_Nodes r). clean (placeErrors (zip order [0..<length order]) n)) \<longleftrightarrow>
    deps_first (deps (recordGraph r)) order"
proof -
  let ?pos = "mget (zip order [0..<length order])"
  have one: "clean (placeErrors (zip order [0..<length order]) n) \<longleftrightarrow>
      (\<forall>d \<in> set (deps (recordGraph r) (n_Name n)). d \<in> set (take i order))"
    if n: "n \<in> set (r_Nodes r)" and i: "i < length order" "order ! i = n_Name n" for n i
  proof -
    have pos: "?pos (n_Name n) = Some i" using i by (simp add: position_of [OF assms(2)])
    have tk: "d \<in> set (take i order) \<longleftrightarrow> (\<exists>j < i. ?pos d = Some j)" for d
      using i(1) by (auto simp: position_of [OF assms(2)] in_set_conv_nth)
    have opt: "clean (case p of None \<Rightarrow> [OrderPlaces a d] | Some j \<Rightarrow> err_if (i \<le> j) (OrderPlaces a d))
        \<longleftrightarrow> (\<exists>j < i. p = Some j)" for a d p
      by (cases p) (simp_all add: not_le)
    note dep = opt [where p = "?pos x" and d = x for x, folded tk]
    show ?thesis
      unfolding placeErrors_def pos deps_recordGraph [OF assms(1) n] by (simp add: dep)
  qed
  have "deps_first (deps (recordGraph r)) order \<longleftrightarrow>
      (\<forall>i < length order. \<forall>d \<in> set (deps (recordGraph r) (order ! i)). d \<in> set (take i order))"
    unfolding deps_first_def by blast
  also have "\<dots> \<longleftrightarrow> (\<forall>n \<in> set (r_Nodes r). clean (placeErrors (zip order [0..<length order]) n))"
  proof safe
    fix n assume all: "\<forall>i < length order. \<forall>d \<in> set (deps (recordGraph r) (order ! i)). d \<in> set (take i order)"
      and n: "n \<in> set (r_Nodes r)"
    then obtain i where i: "i < length order" "order ! i = n_Name n"
      using assms(3) by (metis imageI in_set_conv_nth)
    with all one [OF n i] show "clean (placeErrors (zip order [0..<length order]) n)" by auto
  next
    fix i d assume all: "\<forall>n \<in> set (r_Nodes r). clean (placeErrors (zip order [0..<length order]) n)"
      and i: "i < length order" and d: "d \<in> set (deps (recordGraph r) (order ! i))"
    then obtain n where n: "n \<in> set (r_Nodes r)" "order ! i = n_Name n"
      using assms(3) nth_mem [OF i] by auto
    with all one [OF n(1) i n(2)] d show "d \<in> set (take i order)" by auto
  qed
  finally show ?thesis by blast
qed

lemma orderErrors_clean:
  assumes "distinct (map n_Name (r_Nodes r))"
  shows "clean (orderErrors (named r) r) \<longleftrightarrow>
    distinct (r_InstallOrder r) \<and> set (r_InstallOrder r) = n_Name ` set (r_Nodes r) \<and>
    deps_first (deps (recordGraph r)) (r_InstallOrder r)"
proof -
  let ?order = "r_InstallOrder r" and ?names = "n_Name ` set (r_Nodes r)"
  have card: "card ?names = length (r_Nodes r)" using assms by (metis distinct_card length_map set_map)
  have full: "set ?order = ?names \<longleftrightarrow> length ?order = length (r_Nodes r)"
    if "distinct ?order" "set ?order \<subseteq> ?names"
    using that card by (metis card_subset_eq distinct_card finite_imageI finite_set)
  show ?thesis
  proof (cases "distinct ?order \<and> set ?order \<subseteq> ?names \<and> length ?order = length (r_Nodes r)")
    case True
    then have eq: "set ?order = ?names" using full by blast
    have pos: "positionsLoop (named r) 0 [] ?order = (fst (positionsLoop (named r) 0 [] ?order),
        zip ?order [0..<length ?order])"
      using positionsLoop_positions [of ?order "[]" "named r" 0] True by (simp add: prod_eq_iff)
    have "clean (orderErrors (named r) r) \<longleftrightarrow> clean (fst (positionsLoop (named r) 0 [] ?order)) \<and>
        (\<forall>n \<in> set (r_Nodes r). clean (placeErrors (zip ?order [0..<length ?order]) n))"
      unfolding orderErrors_def by (subst pos) (use True in simp)
    with True eq placeErrors_clean [OF assms _ eq] show ?thesis
      by (simp add: positionsLoop_clean image_image)
  next
    case False
    have "\<not> clean (orderErrors (named r) r)"
    proof
      assume ok: "clean (orderErrors (named r) r)"
      then have len: "length ?order = length (r_Nodes r)" by (auto simp: orderErrors_def split: if_splits)
      with ok have "clean (fst (positionsLoop (named r) 0 [] ?order))"
        by (auto simp: orderErrors_def case_prod_beta)
      with False len show False by (simp add: positionsLoop_clean image_image)
    qed
    moreover have "\<not> (distinct ?order \<and> set ?order = ?names)"
      using False full by (metis order_refl)
    ultimately show ?thesis by blast
  qed
qed

lemma reachable_in_nodes:
  assumes "set (roots_of r) \<subseteq> n_Name ` set (r_Nodes r)"
    and "\<forall>n \<in> set (r_Nodes r). set (deps (recordGraph r) (n_Name n)) \<subseteq> n_Name ` set (r_Nodes r)"
  shows "reachable (deps (recordGraph r)) (roots_of r) \<subseteq> n_Name ` set (r_Nodes r)"
  using assms by (intro reachable_least) auto

lemma Validate_clean_iff: "clean (Validate U D r) \<longleftrightarrow> closure_ok r"
proof (cases "distinct (map n_Name (r_Nodes r))")
  case False
  then show ?thesis
    by (auto simp: Validate_def case_prod_beta clean_nodesLoop closure_ok_def)
next
  case True
  let ?loop = "nodesLoop U D (in_Platform (r_Input r)) [] (r_Nodes r)"
  have nodes: "snd ?loop = named r" and errs: "clean (fst ?loop)"
    using True by (simp_all add: nodesLoop_nodes clean_nodesLoop)
  have "clean (Validate U D r) \<longleftrightarrow> clean (rootErrors (named r) r) \<and> clean (dependencyErrors (named r) r)
      \<and> clean (orderErrors (named r) r) \<and> clean (reachErrors (named r) r)"
    unfolding Validate_def case_prod_beta Let_def nodes using errs by simp
  also have "\<dots> \<longleftrightarrow> closure_ok r"
  proof
    assume "clean (rootErrors (named r) r) \<and> clean (dependencyErrors (named r) r)
      \<and> clean (orderErrors (named r) r) \<and> clean (reachErrors (named r) r)"
    then have roots: "set (roots_of r) \<subseteq> n_Name ` set (r_Nodes r)"
      and dps: "\<forall>n \<in> set (r_Nodes r). set (deps (recordGraph r) (n_Name n)) \<subseteq> n_Name ` set (r_Nodes r)"
      and order: "distinct (r_InstallOrder r)" "set (r_InstallOrder r) = n_Name ` set (r_Nodes r)"
        "deps_first (deps (recordGraph r)) (r_InstallOrder r)"
      and reach: "n_Name ` set (r_Nodes r) \<subseteq> reachable (deps (recordGraph r)) (roots_of r)"
      unfolding rootErrors_clean dependencyErrors_clean [OF True] orderErrors_clean [OF True]
        reachErrors_clean by simp_all
    from equalityI [OF reachable_in_nodes [OF roots dps] reach] order True show "closure_ok r"
      unfolding closure_ok_def by simp
  next
    assume ok: "closure_ok r"
    then have order: "set (r_InstallOrder r) = n_Name ` set (r_Nodes r)"
      "deps_first (deps (recordGraph r)) (r_InstallOrder r)" by (auto simp: closure_ok_def)
    have "set (deps (recordGraph r) (n_Name n)) \<subseteq> n_Name ` set (r_Nodes r)" if "n \<in> set (r_Nodes r)" for n
      using deps_first_closed [OF order(2), of "n_Name n"] that unfolding order(1) by blast
    moreover have "set (roots_of r) \<subseteq> n_Name ` set (r_Nodes r)"
      using ok reachable_root [of _ "roots_of r" "deps (recordGraph r)"] unfolding closure_ok_def by blast
    ultimately show "clean (rootErrors (named r) r) \<and> clean (dependencyErrors (named r) r)
      \<and> clean (orderErrors (named r) r) \<and> clean (reachErrors (named r) r)"
      using ok unfolding rootErrors_clean dependencyErrors_clean [OF True] orderErrors_clean [OF True]
        reachErrors_clean closure_ok_def by simp
  qed
  finally show ?thesis .
qed

section \<open>Canonical form\<close>

lemma canonicalNode_name [simp]: "n_Name (canonicalNode n) = n_Name n"
  by (simp add: canonicalNode_def)

lemma canonicalNode_idem: "canonicalNode (canonicalNode n) = canonicalNode n"
  by (simp add: canonicalNode_def sort_key_id_if_sorted sorted_sort_id)

lemma sort_key_sorted [simp]: "sort_key f (sort_key f xs) = sort_key f xs"
  by (rule sort_key_id_if_sorted) simp

lemma canonicalize_idem: "canonicalize (canonicalize r) = canonicalize r"
proof -
  have names: "map n_Name (map canonicalNode ns) = map n_Name ns" for ns by simp
  have "sort_key n_Name (map canonicalNode (sort_key n_Name ns)) = map canonicalNode (sort_key n_Name ns)" for ns
    by (rule sort_key_id_if_sorted) (simp only: names sorted_sort_key)
  then show ?thesis by (simp add: canonicalize_def canonicalNode_idem)
qed

lemma names_sort_key: "n_Name ` set (sort_key n_Name ns) = n_Name ` set ns"
  by simp

lemma deps_canonicalize:
  assumes "distinct (map n_Name (r_Nodes r))"
  shows "set (deps (recordGraph (canonicalize r)) name) = set (deps (recordGraph r) name)"
proof (cases "name \<in> n_Name ` set (r_Nodes r)")
  case True
  then obtain n where n: "n \<in> set (r_Nodes r)" "name = n_Name n" by blast
  have dist: "distinct (map n_Name (r_Nodes (canonicalize r)))"
    using assms by (simp add: canonicalize_def comp_def distinct_map)
  have "canonicalNode n \<in> set (r_Nodes (canonicalize r))" using n(1) by (simp add: canonicalize_def)
  from deps_recordGraph [OF dist this] deps_recordGraph [OF assms n(1)] show ?thesis
    by (simp add: n(2) canonicalNode_def)
next
  case False
  moreover from False have "name \<notin> n_Name ` set (r_Nodes (canonicalize r))"
    by (simp add: canonicalize_def image_image)
  ultimately show ?thesis by (simp add: deps_recordGraph_outside)
qed

lemma closure_ok_canonicalize: "closure_ok (canonicalize r) \<longleftrightarrow> closure_ok r"
proof (cases "distinct (map n_Name (r_Nodes r))")
  case True
  have sets: "set (deps (recordGraph (canonicalize r)) name) = set (deps (recordGraph r) name)" for name
    by (rule deps_canonicalize [OF True])
  have same: "edge_rel (deps (recordGraph (canonicalize r))) = edge_rel (deps (recordGraph r))"
    by (simp add: edge_rel_def sets)
  have fields: "r_InstallOrder (canonicalize r) = r_InstallOrder r" "roots_of (canonicalize r) = roots_of r"
    "n_Name ` set (r_Nodes (canonicalize r)) = n_Name ` set (r_Nodes r)"
    "distinct (map n_Name (r_Nodes (canonicalize r)))"
    using True by (simp_all add: canonicalize_def roots_of_def image_image comp_def distinct_map)
  show ?thesis
    unfolding closure_ok_def reachable_def deps_first_def same sets fields using True fields(4) by blast
next
  case False
  then have "\<not> distinct (map n_Name (r_Nodes (canonicalize r)))"
    by (simp add: canonicalize_def comp_def distinct_map)
  with False show ?thesis by (simp add: closure_ok_def)
qed

text \<open>
  What a record says apart from the order in which it lists things: the lists that the canonical form
  sorts are multisets, everything else is kept.
\<close>

definition node_rest :: "Node \<Rightarrow> Node" where
  "node_rest n = n\<lparr>n_Dependencies := [], n_ExecutablePaths := [],
     n_Bottle := (n_Bottle n)\<lparr>nb_Tab := (nb_Tab (n_Bottle n))\<lparr>bt_ChangedFiles := []\<rparr>, nb_SelectedAnnotations := []\<rparr>\<rparr>"

definition node_meaning :: "Node \<Rightarrow> Node \<times> Requirement multiset \<times> string multiset \<times> string multiset \<times> KV multiset" where
  "node_meaning n = (node_rest n, mset (n_Dependencies n), mset (n_ExecutablePaths n),
     mset (bt_ChangedFiles (nb_Tab (n_Bottle n))), mset (nb_SelectedAnnotations (n_Bottle n)))"

definition record_rest :: "Record \<Rightarrow> Record" where
  "record_rest r = r\<lparr>r_Metadata := (r_Metadata r)\<lparr>ms_Signatures := [], ms_FormulaSignatures := [], ms_MigrationSignatures := []\<rparr>,
     r_Nodes := [], r_Runtime := (r_Runtime r)\<lparr>rp_WritablePaths := []\<rparr>\<rparr>"

definition same_content :: "Record \<Rightarrow> Record \<Rightarrow> bool" where
  "same_content r r' \<longleftrightarrow> record_rest r = record_rest r'
     \<and> mset (map node_meaning (r_Nodes r)) = mset (map node_meaning (r_Nodes r'))
     \<and> mset (ms_Signatures (r_Metadata r)) = mset (ms_Signatures (r_Metadata r'))
     \<and> mset (ms_FormulaSignatures (r_Metadata r)) = mset (ms_FormulaSignatures (r_Metadata r'))
     \<and> mset (ms_MigrationSignatures (r_Metadata r)) = mset (ms_MigrationSignatures (r_Metadata r'))
     \<and> mset (rp_WritablePaths (r_Runtime r)) = mset (rp_WritablePaths (r_Runtime r'))"

text \<open>The names by which the canonical form sorts are distinct, which \<open>Validate\<close> demands.\<close>

definition distinct_names :: "Record \<Rightarrow> bool" where
  "distinct_names r \<longleftrightarrow> distinct (map n_Name (r_Nodes r)) \<and> (\<forall>n \<in> set (r_Nodes r). distinct (map rq_Name (n_Dependencies n)))"

lemma node_meaning_canonical: "node_meaning (canonicalNode n) = node_meaning n"
  by (simp add: node_meaning_def node_rest_def canonicalNode_def)

lemma same_content_canonicalize: "same_content (canonicalize r) r"
proof -
  have "map node_meaning (r_Nodes (canonicalize r)) = map node_meaning (sort_key n_Name (r_Nodes r))"
    by (simp add: canonicalize_def node_meaning_canonical)
  then have "mset (map node_meaning (r_Nodes (canonicalize r))) = mset (map node_meaning (r_Nodes r))" by simp
  then show ?thesis by (simp add: same_content_def) (simp add: record_rest_def canonicalize_def)
qed

lemma same_content_trans: "same_content a b \<Longrightarrow> same_content b c \<Longrightarrow> same_content a c"
  by (simp add: same_content_def)

lemma same_content_sym: "same_content a b \<Longrightarrow> same_content b a"
  by (simp add: same_content_def)

lemma canonicalNode_rest:
  "canonicalNode n = (node_rest n)\<lparr>n_Dependencies := sort_key rq_Name (n_Dependencies n),
     n_ExecutablePaths := sort (n_ExecutablePaths n),
     n_Bottle := (n_Bottle (node_rest n))\<lparr>
       nb_Tab := (nb_Tab (n_Bottle (node_rest n)))\<lparr>bt_ChangedFiles := sort (bt_ChangedFiles (nb_Tab (n_Bottle n)))\<rparr>,
       nb_SelectedAnnotations := sort (nb_SelectedAnnotations (n_Bottle n))\<rparr>\<rparr>"
  by (simp add: canonicalNode_def node_rest_def)

lemma canonicalNode_meaning:
  assumes "node_meaning n = node_meaning n'" and "distinct (map rq_Name (n_Dependencies n))"
  shows "canonicalNode n = canonicalNode n'"
proof -
  from assms(1) have m: "node_rest n = node_rest n'" "mset (n_Dependencies n) = mset (n_Dependencies n')"
    "mset (n_ExecutablePaths n) = mset (n_ExecutablePaths n')"
    "mset (bt_ChangedFiles (nb_Tab (n_Bottle n))) = mset (bt_ChangedFiles (nb_Tab (n_Bottle n')))"
    "mset (nb_SelectedAnnotations (n_Bottle n)) = mset (nb_SelectedAnnotations (n_Bottle n'))"
    by (simp_all add: node_meaning_def)
  have "inj_on rq_Name (set (n_Dependencies n))" using assms(2) by (simp add: distinct_map)
  note sorts = sort_key_perm_eq [OF m(2) this] m(3-5) [THEN sort_perm_eq]
  show ?thesis by (simp only: canonicalNode_rest [of n] canonicalNode_rest [of n'] m(1) sorts)
qed

lemma map_canonical_nodes: "map canonicalNode (sort_key n_Name ns) = sort_key n_Name (map canonicalNode ns)"
  by (simp add: sort_key_map comp_def)

lemma canonicalize_rest:
  "canonicalize r = (record_rest r)\<lparr>r_Metadata := (r_Metadata (record_rest r))\<lparr>
         ms_Signatures := sort (ms_Signatures (r_Metadata r)),
         ms_FormulaSignatures := sort (ms_FormulaSignatures (r_Metadata r)),
         ms_MigrationSignatures := sort (ms_MigrationSignatures (r_Metadata r))\<rparr>,
       r_Nodes := map canonicalNode (sort_key n_Name (r_Nodes r)),
       r_Runtime := (r_Runtime (record_rest r))\<lparr>rp_WritablePaths := sort (rp_WritablePaths (r_Runtime r))\<rparr>\<rparr>"
  by (simp add: canonicalize_def record_rest_def)

lemma canonical_nodes_meaning:
  assumes "mset (map node_meaning ns) = mset (map node_meaning ns')" and "distinct (map n_Name ns)"
    and "\<forall>n \<in> set ns \<union> set ns'. distinct (map rq_Name (n_Dependencies n))"
  shows "map canonicalNode (sort_key n_Name ns) = map canonicalNode (sort_key n_Name ns')"
proof -
  define g where "g m = canonicalNode (SOME n. n \<in> set ns \<union> set ns' \<and> node_meaning n = m)" for m
  have g: "canonicalNode n = g (node_meaning n)" if "n \<in> set ns \<union> set ns'" for n
  proof -
    let ?n = "SOME n'. n' \<in> set ns \<union> set ns' \<and> node_meaning n' = node_meaning n"
    have "?n \<in> set ns \<union> set ns' \<and> node_meaning ?n = node_meaning n" by (rule someI [of _ n]) (use that in simp)
    with assms(3) have "canonicalNode ?n = canonicalNode n" by (intro canonicalNode_meaning) auto
    then show ?thesis by (simp add: g_def)
  qed
  have "map canonicalNode ns = map g (map node_meaning ns)" "map canonicalNode ns' = map g (map node_meaning ns')"
    using g by auto
  with assms(1) have same: "mset (map canonicalNode ns) = mset (map canonicalNode ns')" by (metis mset_map)
  have "inj_on n_Name (set (map canonicalNode ns))"
    using assms(2) by (auto simp: distinct_map inj_on_def)
  from sort_key_perm_eq [OF same this] show ?thesis by (simp only: map_canonical_nodes)
qed

lemma canonicalize_content:
  assumes "same_content r r'" and "distinct_names r" and "distinct_names r'"
  shows "canonicalize r = canonicalize r'"
proof -
  from assms(1) have c: "record_rest r = record_rest r'" "mset (map node_meaning (r_Nodes r)) = mset (map node_meaning (r_Nodes r'))"
    "mset (ms_Signatures (r_Metadata r)) = mset (ms_Signatures (r_Metadata r'))"
    "mset (ms_FormulaSignatures (r_Metadata r)) = mset (ms_FormulaSignatures (r_Metadata r'))"
    "mset (ms_MigrationSignatures (r_Metadata r)) = mset (ms_MigrationSignatures (r_Metadata r'))"
    "mset (rp_WritablePaths (r_Runtime r)) = mset (rp_WritablePaths (r_Runtime r'))"
    by (simp_all only: same_content_def)
  have "map canonicalNode (sort_key n_Name (r_Nodes r)) = map canonicalNode (sort_key n_Name (r_Nodes r'))"
    using assms(2,3) by (intro canonical_nodes_meaning [OF c(2)]) (auto simp: distinct_names_def)
  note nodes = this and sorts = c(3-6) [THEN sort_perm_eq]
  show ?thesis by (simp only: canonicalize_rest [of r] canonicalize_rest [of r'] c(1) nodes sorts)
qed

lemma duplicateErrors_distinct:
  "duplicateErrors name seen ds = [] \<Longrightarrow> distinct (map rq_Name ds) \<and> rq_Name ` set ds \<inter> set seen = {}"
proof (induction ds arbitrary: seen)
  case (Cons d ds)
  from Cons.prems Cons.IH [of "rq_Name d # seen"] show ?case by (auto simp: err_if_def split: if_splits)
qed simp

lemma nodesLoop_distinct_deps:
  "fst (nodesLoop U D target nodes ns) = [] \<Longrightarrow> \<forall>n \<in> set ns. distinct (map rq_Name (n_Dependencies n))"
proof (induction ns arbitrary: nodes)
  case (Cons n ns)
  then have "nodeErrors U D target nodes n = []" "fst (nodesLoop U D target (mput (n_Name n) n nodes) ns) = []"
    by (simp_all add: case_prod_beta)
  with Cons.IH show ?case by (auto simp: nodeErrors_def Let_def dest: duplicateErrors_distinct)
qed simp

lemma Validate_distinct_names: "Validate U D r = [] \<Longrightarrow> distinct_names r"
  using nodesLoop_distinct_deps [of U D "in_Platform (r_Input r)" "[]" "r_Nodes r"]
    clean_nodesLoop [of U D "in_Platform (r_Input r)" "[]" "r_Nodes r"]
  by (simp add: Validate_def distinct_names_def case_prod_beta)

lemma closure_acyclic:
  assumes "closure_ok r"
  shows "\<nexists>cyc. is_cycle (deps (recordGraph r)) cyc"
proof
  assume "\<exists>cyc. is_cycle (deps (recordGraph r)) cyc"
  then obtain cyc where cyc: "is_cycle (deps (recordGraph r)) cyc" by blast
  have "set cyc \<subseteq> fst ` set (recordGraph r)" by (rule cycle_in_graph [OF cyc])
  also have "\<dots> = set (r_InstallOrder r)"
    using assms by (simp add: closure_ok_def recordGraph_def image_image)
  finally show False
    using assms deps_first_no_cycle [OF _ _ cyc, of "r_InstallOrder r"] by (simp add: closure_ok_def)
qed

lemma err_if_Nil [simp]: "err_if b e = [] \<longleftrightarrow> \<not> b"
  by (simp add: err_if_def)

lemma nodesLoop_Nil:
  "fst (nodesLoop U D target nodes ns) = [] \<Longrightarrow> n \<in> set ns \<Longrightarrow> \<exists>nodes'. nodeErrors U D target nodes' n = []"
  by (induction ns arbitrary: nodes) (auto simp: case_prod_beta)

section \<open>A sample record\<close>

definition sample_digests :: digest_lib where
  "sample_digests = \<lparr>dg_Parse = (\<lambda>s. if prefix ''sha256:'' s \<and> length s = 71 then Some s else None),
     dg_Algorithm = (\<lambda>s. takeWhile (\<lambda>c. c \<noteq> CHR '':'') s), dg_Validate = (\<lambda>s. length s = 71)\<rparr>"

definition sample_sha256 :: string where
  "sample_sha256 = replicate 64 CHR ''a''"

definition sample_platform :: Platform where
  "sample_platform = \<lparr>p_OS = ''linux'', p_Architecture = ''amd64'', p_Variant = []\<rparr>"

definition sample_descriptor :: Descriptor where
  "sample_descriptor = \<lparr>d_Digest = ''sha256:'' @ sample_sha256, d_Size = 1, d_MediaType = ''layer'',
     d_Platform = Some sample_platform, d_Metadata = []\<rparr>"

definition sample_node :: "string \<Rightarrow> string list \<Rightarrow> Node" where
  "sample_node name ds =
     \<lparr>n_Name = name, n_FullName = ''homebrew/core/'' @ name, n_FormulaVersion = ''1'', n_FormulaRevision = 0,
      n_PkgVersion = ''1'', n_VersionScheme = 0, n_BottleRebuild = 0, n_License = [], n_KegOnly = False,
      n_Dependencies = map (\<lambda>d. \<lparr>rq_Name = d, rq_Minimum = ''1'', rq_Revision = 0, rq_BottleRebuild = 0,
        rq_Direct = True\<rparr>) ds,
      n_Bottle = \<lparr>nb_Tag = ''x86_64_linux'', nb_Filename = ''bottle'', nb_Repository = ''ghcr.io/core'',
        nb_Index = sample_descriptor, nb_Manifest = sample_descriptor, nb_Config = sample_descriptor,
        nb_Layer = sample_descriptor, nb_HomebrewSHA256 = sample_sha256, nb_Cellar = '':any'',
        nb_Tab = \<lparr>bt_HomebrewVersion = ''4'', bt_Arch = ''x86_64'', bt_Compiler = [], bt_ChangedFiles = [],
          bt_BuiltOn = \<lparr>bo_OS = [], bo_OSVersion = [], bo_CPUFamily = [], bo_OldestCPUFamily = [],
            bo_GlibcVersion = []\<rparr>, bt_Dependencies = []\<rparr>,
        nb_SelectedAnnotations = []\<rparr>,
      n_ExecutablePaths = [], n_UpstreamFormulaID = [], n_PolicyFormulaID = []\<rparr>"

definition sample_record :: Record where
  "sample_record =
     \<lparr>r_SchemaVersion = SchemaVersion, r_PolicyVersion = PolicyVersion,
      r_Input = \<lparr>in_DalecSpecDigest = d_Digest sample_descriptor, in_TargetKey = [],
        in_Platform = sample_platform\<rparr>,
      r_Metadata = \<lparr>ms_Digest = d_Digest sample_descriptor, ms_FormulaDigest = d_Digest sample_descriptor,
        ms_MigrationDigest = d_Digest sample_descriptor, ms_FormulaEnvelopeDigest = [],
        ms_MigrationEnvelopeDigest = [], ms_FormulaFreshnessSource = [], ms_MigrationFreshnessSource = [],
        ms_GeneratedAt = 1, ms_FetchedAt = 1, ms_Signatures = [], ms_FormulaSignatures = [],
        ms_MigrationSignatures = [], ms_FormulaURL = [], ms_MigrationURL = []\<rparr>,
      r_ResolvedAt = 1, r_SourceDateEpoch = 1,
      r_Requested = [\<lparr>rr_Requested = ''a'', rr_Canonical = ''a'', rr_KegOnly = False\<rparr>],
      r_Nodes = [sample_node ''a'' [''b''], sample_node ''b'' []], r_InstallOrder = [''b'', ''a''],
      r_Components = \<lparr>co_FrontendRef = [], co_RuntimeBaseRef = [], co_MaterializerRef = [],
        co_HomebrewCommit = [], co_RubyRuntime = [], co_VerificationKeys = [], co_DalecModule = [],
        co_BuildKitModule = []\<rparr>,
      r_Runtime = \<lparr>rp_Profile = [], rp_User = ''linuxbrew'', rp_UID = 1000, rp_GID = 1000,
        rp_GeneratedPATH = [], rp_WritablePaths = [], rp_CPUBaseline = []\<rparr>,
      r_AttestationPolicy = \<lparr>ap_Identity = ''id'', ap_Waiver = []\<rparr>, r_PruningPolicyDigest = []\<rparr>"

lemma sample_descriptor_ok:
  "validateDigest sample_digests (d_Digest sample_descriptor)"
  "validateDescriptor sample_digests sample_descriptor"
proof -
  show dg: "validateDigest sample_digests (d_Digest sample_descriptor)"
    by (simp add: validateDigest_def sample_digests_def sample_descriptor_def sample_sha256_def)
  have "trim_space ''layer'' \<noteq> []" by (rule trim_space_solid) (simp_all add: ascii_def unicode_IsSpace_def)
  with dg show "validateDescriptor sample_digests sample_descriptor"
    by (simp add: validateDescriptor_def) (simp add: sample_descriptor_def)
qed

lemma sample_node_ok:
  assumes "name \<noteq> []" and "\<not> mhas nodes name" and "distinct ds" and "[] \<notin> set ds"
  shows "nodeErrors ascii_tables sample_digests sample_platform nodes (sample_node name ds) = []"
proof -
  let ?b = "n_Bottle (sample_node name ds)"
  have lower: "to_lower ascii_tables sample_sha256 = sample_sha256"
    unfolding sample_sha256_def by (rule to_lower_id(1)) (simp_all add: ascii_conform_def)
  have dup: "duplicateErrors name seen (map (\<lambda>d. \<lparr>rq_Name = d, rq_Minimum = ''1'', rq_Revision = 0,
      rq_BottleRebuild = 0, rq_Direct = True\<rparr>) ds) = []" if "set seen \<inter> set ds = {}" for seen
    using assms(3,4) that by (induction ds arbitrary: seen) (auto simp: err_if_def)
  have hex: "validateSHA256Hex sample_sha256"
    by (simp add: validateSHA256Hex_def sample_sha256_def hex_ok_def hex_char_def list_all_iff)
  have base: "path_base ''bottle'' = ''bottle''" by code_simp
  have fields: "nb_Filename ?b = ''bottle''" "nb_Repository ?b = ''ghcr.io/core''" "nb_Tag ?b = ''x86_64_linux''"
    "nb_Index ?b = sample_descriptor" "nb_Manifest ?b = sample_descriptor" "nb_Config ?b = sample_descriptor"
    "nb_Layer ?b = sample_descriptor" "nb_HomebrewSHA256 ?b = sample_sha256"
    "bt_Arch (nb_Tab ?b) = ''x86_64''" "n_Name (sample_node name ds) = name"
    "n_FullName (sample_node name ds) = ''homebrew/core/'' @ name"
    "n_FormulaVersion (sample_node name ds) = ''1''" "n_PkgVersion (sample_node name ds) = ''1''"
    by (simp_all add: sample_node_def)
  have bottle: "bottleErrors sample_platform (sample_node name ds) = []"
    by (simp add: bottleErrors_def Let_def fields) (simp add: sample_platform_def sample_descriptor_def)
  have layer: "d_Digest sample_descriptor = ''sha256:'' @ sample_sha256" by (simp add: sample_descriptor_def)
  have "duplicateErrors name [] (n_Dependencies (sample_node name ds)) = []"
    using dup [of "[]"] by (simp add: sample_node_def)
  with assms(1,2) bottle hex base show ?thesis
    by (simp add: nodeErrors_def fields sample_descriptor_ok layer lower)
qed

lemma sample_record_valid: "Validate ascii_tables sample_digests sample_record = []"
proof -
  let ?a = "sample_node ''a'' [''b'']" and ?b = "sample_node ''b'' []"
  have user: "validateRuntimeIdentity (r_Runtime sample_record)"
  proof -
    have "trim_space ''linuxbrew'' = ''linuxbrew''"
      by (simp add: trim_space_ascii ascii_def unicode_IsSpace_def)
    then show ?thesis by (simp add: validateRuntimeIdentity_def sample_record_def)
  qed
  have fields: "r_Nodes sample_record = [?a, ?b]" "in_Platform (r_Input sample_record) = sample_platform"
    "r_Requested sample_record = [\<lparr>rr_Requested = ''a'', rr_Canonical = ''a'', rr_KegOnly = False\<rparr>]"
    "r_InstallOrder sample_record = [''b'', ''a'']" "rp_Profile (r_Runtime sample_record) = []"
    "ap_Identity (r_AttestationPolicy sample_record) = ''id''" "ap_Waiver (r_AttestationPolicy sample_record) = []"
    by (simp_all add: sample_record_def)
  have names: "n_Name ?a = ''a''" "n_Name ?b = ''b''" by (simp_all add: sample_node_def)
  have nodes: "nodesLoop ascii_tables sample_digests sample_platform [] [?a, ?b] = ([], [(''a'', ?a), (''b'', ?b)])"
    using sample_node_ok [of "''a''" "[]" "[''b'']"] sample_node_ok [of "''b''" "[(''a'', ?a)]" "[]"]
    by (simp add: names mhas_def)
  have header: "headerErrors sample_digests sample_record = []"
    unfolding headerErrors_def by (simp add: sample_record_def sample_descriptor_ok) (simp add: sample_platform_def)
  have dp: "n_Dependencies ?b = []" "map rq_Name (n_Dependencies ?a) = [''b'']"
    by (simp_all add: sample_node_def)
  obtain q where q: "n_Dependencies ?a = [q]" "rq_Name q = ''b''" using dp(2) by auto
  have "rootErrors [(''a'', ?a), (''b'', ?b)] sample_record = []"
    by (simp add: rootErrors_def fields mhas_def)
  moreover have "dependencyErrors [(''a'', ?a), (''b'', ?b)] sample_record = []"
    by (simp add: dependencyErrors_def fields dp(1) q mhas_def)
  moreover have "orderErrors [(''a'', ?a), (''b'', ?b)] sample_record = []"
    by (simp add: orderErrors_def fields mhas_def placeErrors_def names dp(1) q)
  moreover have "reachErrors [(''a'', ?a), (''b'', ?b)] sample_record = []"
    by (simp add: reachErrors_def fields nodeGraph_def dp deps_def)
  ultimately show ?thesis
    unfolding Validate_def fields nodes by (simp add: header user)
qed

section \<open>Properties\<close>

text \<open>
  C5: \<open>Validate\<close> reports no error about the shape of the closure exactly when the closure is right:
  node names are distinct, the requested roots reach exactly the nodes, and the install order lists
  every node once with its dependencies before it.
\<close>

theorem validate_closure_iff:
  "list_all (\<lambda>e. \<not> structural e) (Validate U D r) \<longleftrightarrow> closure_ok r"
  by (rule Validate_clean_iff)

text \<open>
  C6: A record that passes \<open>Validate\<close> has a closed, reachable and acyclic dependency graph, and every
  node is bound to its artifact: it is named in \<open>homebrew/core\<close>, its layer digest is its
  authenticated Homebrew checksum, its bottle tag is \<open>all\<close> or the target's, and its file name has no
  path separator.
\<close>

theorem validate_accepts:
  assumes "Validate U D r = []"
  shows "closure_ok r \<and> (\<nexists>cyc. is_cycle (deps (recordGraph r)) cyc) \<and>
    (\<forall>n \<in> set (r_Nodes r). n_Name n \<noteq> [] \<and> n_FullName n = ''homebrew/core/'' @ n_Name n
      \<and> d_Digest (nb_Layer (n_Bottle n)) = ''sha256:'' @ to_lower U (nb_HomebrewSHA256 (n_Bottle n))
      \<and> validateSHA256Hex (nb_HomebrewSHA256 (n_Bottle n))
      \<and> nb_Tag (n_Bottle n) \<in> {''all'', if p_Architecture (in_Platform (r_Input r)) = ''arm64''
           then ''arm64_linux'' else ''x86_64_linux''}
      \<and> CHR ''/'' \<notin> set (nb_Filename (n_Bottle n)))"
proof (intro conjI ballI)
  have "list_all (\<lambda>e. \<not> structural e) (Validate U D r)" using assms by simp
  then show ok: "closure_ok r" by (simp only: Validate_clean_iff)
  show "\<nexists>cyc. is_cycle (deps (recordGraph r)) cyc" by (rule closure_acyclic [OF ok])
  fix n assume n: "n \<in> set (r_Nodes r)"
  have "fst (nodesLoop U D (in_Platform (r_Input r)) [] (r_Nodes r)) = []"
    using assms by (simp add: Validate_def case_prod_beta Let_def)
  from nodesLoop_Nil [OF this n] obtain nodes' where
    errs: "nodeErrors U D (in_Platform (r_Input r)) nodes' n = []" by blast
  then have bottle: "bottleErrors (in_Platform (r_Input r)) n = []" by (simp add: nodeErrors_def Let_def)
  from errs show "n_Name n \<noteq> []" "n_FullName n = ''homebrew/core/'' @ n_Name n"
    "d_Digest (nb_Layer (n_Bottle n)) = ''sha256:'' @ to_lower U (nb_HomebrewSHA256 (n_Bottle n))"
    "validateSHA256Hex (nb_HomebrewSHA256 (n_Bottle n))"
    by (simp_all add: nodeErrors_def Let_def)
  from errs show "CHR ''/'' \<notin> set (nb_Filename (n_Bottle n))"
    by (auto simp: nodeErrors_def Let_def list_ex_iff)
  show "nb_Tag (n_Bottle n) \<in> {''all'', if p_Architecture (in_Platform (r_Input r)) = ''arm64''
           then ''arm64_linux'' else ''x86_64_linux''}"
    using bottle by (auto simp: bottleErrors_def Let_def split: if_splits)
qed

theorem validate_accepts_witness:
  "Validate ascii_tables sample_digests sample_record = [] \<and> closure_ok sample_record"
  using validate_accepts [OF sample_record_valid] sample_record_valid by blast

text \<open>
  C7: The canonical form is a normal form. It says what the record says, canonicalizing twice changes
  nothing, and it has a valid closure exactly when the record has. Two records whose node names
  and dependency names are distinct, as \<open>Validate\<close> demands, have the same canonical form exactly when
  they differ only in the order in which they list nodes, signatures of either document, writable
  paths, and the dependencies, executable paths, changed files and annotations of a node.
\<close>

theorem canonicalize_normal_form:
  assumes "distinct_names r" and "distinct_names r'"
  shows "canonicalize (canonicalize r) = canonicalize r \<and> same_content (canonicalize r) r
    \<and> (closure_ok (canonicalize r) \<longleftrightarrow> closure_ok r)
    \<and> (canonicalize r = canonicalize r' \<longleftrightarrow> same_content r r')"
proof (intro conjI)
  show "canonicalize r = canonicalize r' \<longleftrightarrow> same_content r r'"
  proof
    assume "canonicalize r = canonicalize r'"
    with same_content_canonicalize [of r'] have "same_content (canonicalize r) r'" by simp
    with same_content_canonicalize [of r, THEN same_content_sym] show "same_content r r'" by (rule same_content_trans)
  qed (rule canonicalize_content [OF _ assms])
qed (rule canonicalize_idem closure_ok_canonicalize same_content_canonicalize)+

theorem canonicalize_normal_form_witness:
  "canonicalize (sample_record\<lparr>r_Nodes := [sample_node ''b'' [], sample_node ''a'' [''b'']]\<rparr>) = canonicalize sample_record
   \<and> canonicalize (sample_record\<lparr>r_InstallOrder := [''a'', ''b'']\<rparr>) \<noteq> canonicalize sample_record"
proof -
  let ?swapped = "sample_record\<lparr>r_Nodes := [sample_node ''b'' [], sample_node ''a'' [''b'']]\<rparr>"
  let ?other = "sample_record\<lparr>r_InstallOrder := [''a'', ''b'']\<rparr>"
  have names: "distinct_names sample_record" "distinct_names ?swapped" "distinct_names ?other"
    by (simp_all add: distinct_names_def sample_record_def sample_node_def)
  have "same_content ?swapped sample_record" "\<not> same_content ?other sample_record"
    by (simp_all add: same_content_def record_rest_def sample_record_def)
  with canonicalize_normal_form [OF names(2,1)] canonicalize_normal_form [OF names(3,1)] show ?thesis by blast
qed

end
