(* ===== verification/OciClient.thy ===== *)
theory OciClient
  imports OciReference Resolution
begin

text \<open>
  \<open>internal/homebrew/oci/client.go\<close>: reading content from the registry and verifying it against its
  descriptor before anything else looks at it.

  \<^item> The transport is an argument: \<open>env_http\<close> maps a request path and an \<open>Accept\<close> value to the
    response, or to no response. It stands for \<open>doRegistryGET\<close> with its token exchange, and nothing
    is assumed about what it answers.
  \<^item> \<open>digest.FromBytes\<close>, \<open>mime.ParseMediaType\<close> and the decoding of JSON text into a Go type are
    further fields of that record; \<open>go-digest\<close> itself is \<open>env_digests\<close>.
  \<^item> A response body is the bytes the stream delivers and whether it then fails instead of ending.
\<close>

section \<open>OCI types\<close>

record OPlatform =
  op_Architecture :: string
  op_OS :: string
  op_OSVersion :: string
  op_OSFeatures :: "string list"
  op_Variant :: string

record ODescriptor =
  od_MediaType :: string
  od_Digest :: string
  od_Size :: int
  od_URLs :: "string list"
  od_Annotations :: "(string, string) gomap"
  od_Data :: string
  od_Platform :: "OPlatform option"
  od_ArtifactType :: string

record OIndex =
  oi_SchemaVersion :: int
  oi_MediaType :: string
  oi_ArtifactType :: string
  oi_Manifests :: "ODescriptor list"
  oi_Subject :: "ODescriptor option"
  oi_Annotations :: "(string, string) gomap"

record OManifest =
  om_SchemaVersion :: int
  om_MediaType :: string
  om_ArtifactType :: string
  om_Config :: ODescriptor
  om_Layers :: "ODescriptor list"
  om_Subject :: "ODescriptor option"
  om_Annotations :: "(string, string) gomap"

record OImage =
  ig_Architecture :: string
  ig_OS :: string
  ig_RootFSType :: string
  ig_DiffIDs :: "string list"

record runtimeDependencyWire =
  rw_FullName :: string
  rw_Version :: string
  rw_Revision :: int
  rw_BottleRebuild :: int
  rw_PkgVersion :: "string option"
  rw_DeclaredDirectly :: bool

record bottleTabWire =
  tw_HomebrewVersion :: string
  tw_Arch :: string
  tw_Compiler :: string
  tw_ChangedFiles :: "string list"
  tw_BuiltOn :: BuiltOn
  tw_Dependencies :: "runtimeDependencyWire list"

record http_response =
  hr_StatusCode :: int
  hr_ContentEncoding :: string
  hr_ContentType :: string
  hr_ContentLength :: int
  hr_DigestHeader :: string
  hr_Body :: string
  hr_BodyFails :: bool

record oci_env =
  env_unicode :: unicode_tables
  env_digests :: digest_lib
  env_FromBytes :: "string \<Rightarrow> string"
  env_ParseMediaType :: "string \<Rightarrow> string option"
  env_base :: string
  env_http :: "string \<Rightarrow> string \<Rightarrow> http_response option"
  env_index :: "string \<Rightarrow> OIndex option"
  env_manifest :: "string \<Rightarrow> OManifest option"
  env_image :: "string \<Rightarrow> OImage option"
  env_fields :: "string \<Rightarrow> (string, string) gomap option"
  env_tab :: "string \<Rightarrow> bottleTabWire option"
  env_string :: "string \<Rightarrow> string option"

record Limits =
  lm_IndexBytes :: int
  lm_ManifestBytes :: int
  lm_ConfigBytes :: int
  lm_BlobBytes :: int
  lm_TokenBytes :: int
  lm_ErrorBytes :: int

record Content =
  ct_Descriptor :: ODescriptor
  ct_Bytes :: string

definition MediaTypeImageIndex :: string where
  "MediaTypeImageIndex = ''application/vnd.oci.image.index.v1+json''"

definition MediaTypeImageManifest :: string where
  "MediaTypeImageManifest = ''application/vnd.oci.image.manifest.v1+json''"

definition MediaTypeImageConfig :: string where
  "MediaTypeImageConfig = ''application/vnd.oci.image.config.v1+json''"

definition MediaTypeImageLayerGzip :: string where
  "MediaTypeImageLayerGzip = ''application/vnd.oci.image.layer.v1.tar+gzip''"

definition AnnotationRefName :: string where
  "AnnotationRefName = ''org.opencontainers.image.ref.name''"

definition AnnotationTitle :: string where
  "AnnotationTitle = ''org.opencontainers.image.title''"

definition AnnotationVersion :: string where
  "AnnotationVersion = ''org.opencontainers.image.version''"

definition AnnotationVendor :: string where
  "AnnotationVendor = ''org.opencontainers.image.vendor''"

definition AnnotationSource :: string where
  "AnnotationSource = ''org.opencontainers.image.source''"

definition AnnotationRevision :: string where
  "AnnotationRevision = ''org.opencontainers.image.revision''"

definition annotationPackageType :: string where
  "annotationPackageType = ''com.github.package.type''"

definition annotationBottleDigest :: string where
  "annotationBottleDigest = ''sh.brew.bottle.digest''"

definition annotationBottleSize :: string where
  "annotationBottleSize = ''sh.brew.bottle.size''"

definition annotationBottleTab :: string where
  "annotationBottleTab = ''sh.brew.tab''"

definition annotationPathExecFiles :: string where
  "annotationPathExecFiles = ''sh.brew.path_exec_files''"

definition homebrewBottlePackageType :: string where
  "homebrewBottlePackageType = ''homebrew_bottle''"

datatype (plugins only: code size) oci_error =
    ReferenceError reference_error
  | UnsupportedTarget string string
  | TargetVariant
  | RegistryKind string
  | RegistryReference string
  | TransportFailed
  | StatusError int
  | EncodedResponse string
  | NoContentType
  | BadContentType string
  | UnexpectedMediaType string
  | LengthLimit int
  | LengthMismatch int
  | ReadFailed
  | ResponseTooLarge int
  | DigestAlgorithm string
  | DigestInvalid string
  | DigestHeaderMismatch string
  | SizeMismatch int
  | DigestMismatch string
  | DescriptorMediaType string
  | DescriptorSize int
  | DescriptorData
  | DescriptorURLs
  | DescriptorArtifact
  | InvalidTag string
  | DecodeFailed string
  | NoBottle string
  | BadIndex string
  | BadManifest string
  | BadConfig string
  | AnnotationMismatch string
  | ChildUnnamed nat
  | ChildDuplicate string
  | ChildMissing string
  | PlatformMismatch
  | ChecksumMismatch string
  | LayerCount nat
  | BadSize string
  | TabInvalid string
  | DependencyInvalid string
  | DependencyDuplicate string
  | ChangedFile string
  | ExecutablePath string

section \<open>Descriptors\<close>

definition DefaultLimits :: Limits where
  "DefaultLimits = \<lparr>lm_IndexBytes = 4 * 2 ^ 20, lm_ManifestBytes = 4 * 2 ^ 20, lm_ConfigBytes = 2 ^ 20,
     lm_BlobBytes = 8 * 2 ^ 30, lm_TokenBytes = 2 ^ 20, lm_ErrorBytes = 64 * 2 ^ 10\<rparr>"

definition validateLimits :: "Limits \<Rightarrow> bool" where
  "validateLimits l = list_all (\<lambda>value. 0 < value \<and> value \<noteq> max_int64)
     [lm_IndexBytes l, lm_ManifestBytes l, lm_ConfigBytes l, lm_BlobBytes l, lm_TokenBytes l, lm_ErrorBytes l]"

definition parseSHA256Digest :: "digest_lib \<Rightarrow> string \<Rightarrow> (oci_error, string) result" where
  "parseSHA256Digest D value =
     (case dg_Parse D value of
        None \<Rightarrow> Inl (DigestInvalid value)
      | Some parsed \<Rightarrow>
          if dg_Algorithm D parsed \<noteq> ''sha256'' then Inl (DigestAlgorithm (dg_Algorithm D parsed))
          else if \<not> dg_Validate D parsed then Inl (DigestInvalid value)
          else Inr parsed)"

definition oci_validateDescriptor ::
  "digest_lib \<Rightarrow> ODescriptor \<Rightarrow> string \<Rightarrow> int \<Rightarrow> oci_error option" where
  "oci_validateDescriptor D d mediaType limit =
     (if mediaType \<noteq> [] \<and> od_MediaType d \<noteq> mediaType then Some (DescriptorMediaType (od_MediaType d))
      else if od_MediaType d = [] then Some (DescriptorMediaType [])
      else case parseSHA256Digest D (od_Digest d) of
          Inl e \<Rightarrow> Some e
        | Inr _ \<Rightarrow>
            if od_Size d \<le> 0 then Some (DescriptorSize (od_Size d))
            else if limit < od_Size d then Some (DescriptorSize (od_Size d))
            else if od_Data d \<noteq> [] then Some DescriptorData
            else if od_URLs d \<noteq> [] then Some DescriptorURLs
            else if od_ArtifactType d \<noteq> [] then Some DescriptorArtifact
            else None)"

section \<open>Responses\<close>

definition registryURL ::
  "oci_env \<Rightarrow> string \<Rightarrow> string \<Rightarrow> string \<Rightarrow> (oci_error, string) result" where
  "registryURL E repository kind reference =
     (case validateRepository (env_unicode E) repository of
        Some e \<Rightarrow> Inl (ReferenceError e)
      | None \<Rightarrow>
          if kind \<noteq> ''manifests'' \<and> kind \<noteq> ''blobs'' \<and> kind \<noteq> ''referrers'' then Inl (RegistryKind kind)
          else if contains_any reference
               [CHR ''/'', CHR 0x5C, CHR ''?'', CHR ''#'', CHR 0x00, CHR 0x0D, CHR 0x0A] \<or> reference = []
          then Inl (RegistryReference reference)
          else Inr (trim_suffix ''/'' (env_base E) @ ''/v2/'' @ repository @ ''/'' @ kind @ ''/'' @ reference))"

definition validateContentLength :: "int \<Rightarrow> ODescriptor option \<Rightarrow> int \<Rightarrow> oci_error option" where
  "validateContentLength contentLength expected limit =
     (if limit < contentLength then Some (LengthLimit contentLength)
      else case expected of
          None \<Rightarrow> None
        | Some d \<Rightarrow>
            if 0 \<le> contentLength \<and> contentLength \<noteq> od_Size d then Some (LengthMismatch contentLength)
            else None)"

definition validateIdentityEncoding :: "http_response \<Rightarrow> oci_error option" where
  "validateIdentityEncoding r =
     (let encoding = trim_space (hr_ContentEncoding r)
      in if encoding \<noteq> [] \<and> \<not> equal_fold encoding ''identity'' then Some (EncodedResponse encoding)
         else None)"

definition responseMediaType :: "oci_env \<Rightarrow> http_response \<Rightarrow> (oci_error, string) result" where
  "responseMediaType E r =
     (if hr_ContentType r = [] then Inl NoContentType
      else case env_ParseMediaType E (hr_ContentType r) of
          None \<Rightarrow> Inl (BadContentType (hr_ContentType r))
        | Some mediaType \<Rightarrow> Inr mediaType)"

text \<open>
  A reader limited to \<open>limit + 1\<close> bytes reports the end of the stream once it has delivered them, so a
  later failure of the stream is not seen.
\<close>

definition readBounded :: "http_response \<Rightarrow> int \<Rightarrow> (oci_error, string) result" where
  "readBounded r limit =
     (if hr_BodyFails r \<and> int (length (hr_Body r)) \<le> limit then Inl ReadFailed
      else if limit < int (length (hr_Body r)) then Inl (ResponseTooLarge limit)
      else Inr (hr_Body r))"

definition digestHeader :: "digest_lib \<Rightarrow> http_response \<Rightarrow> string \<Rightarrow> oci_error option" where
  "digestHeader D r computed =
     (let header = trim_space (hr_DigestHeader r)
      in if header = [] then None
         else case parseSHA256Digest D header of
             Inl e \<Rightarrow> Some e
           | Inr headerDigest \<Rightarrow>
               if headerDigest \<noteq> computed then Some (DigestHeaderMismatch headerDigest) else None)"

definition fetchManifest ::
  "oci_env \<Rightarrow> string \<Rightarrow> string \<Rightarrow> ODescriptor option \<Rightarrow> string \<Rightarrow> int \<Rightarrow> (oci_error, Content) result" where
  "fetchManifest E repository reference expected mediaType limit =
     (case registryURL E repository ''manifests'' reference of
        Inl e \<Rightarrow> Inl e
      | Inr requestURL \<Rightarrow>
     (case env_http E requestURL mediaType of
        None \<Rightarrow> Inl TransportFailed
      | Some response \<Rightarrow>
     if hr_StatusCode response \<noteq> 200 then Inl (StatusError (hr_StatusCode response))
     else case validateIdentityEncoding response of
        Some e \<Rightarrow> Inl e
      | None \<Rightarrow>
     (case responseMediaType E response of
        Inl e \<Rightarrow> Inl e
      | Inr actualMediaType \<Rightarrow>
     if actualMediaType \<noteq> mediaType then Inl (UnexpectedMediaType actualMediaType)
     else case validateContentLength (hr_ContentLength response) expected limit of
        Some e \<Rightarrow> Inl e
      | None \<Rightarrow>
     (case readBounded response limit of
        Inl e \<Rightarrow> Inl e
      | Inr body \<Rightarrow>
          let computed = env_FromBytes E body
          in if dg_Algorithm (env_digests E) computed \<noteq> ''sha256'' then Inl (DigestAlgorithm computed)
             else case digestHeader (env_digests E) response computed of
                Some e \<Rightarrow> Inl e
              | None \<Rightarrow>
                  (case expected of
                     None \<Rightarrow>
                       Inr \<lparr>ct_Descriptor = \<lparr>od_MediaType = mediaType, od_Digest = computed,
                              od_Size = int (length body), od_URLs = [], od_Annotations = [],
                              od_Data = [], od_Platform = None, od_ArtifactType = []\<rparr>,
                            ct_Bytes = body\<rparr>
                   | Some d \<Rightarrow>
                       if int (length body) \<noteq> od_Size d then Inl (SizeMismatch (int (length body)))
                       else if computed \<noteq> od_Digest d then Inl (DigestMismatch computed)
                       else Inr \<lparr>ct_Descriptor = d, ct_Bytes = body\<rparr>)))))"

text \<open>The bytes copied to the destination are the first \<open>limit + 1\<close> of the stream.\<close>

definition fetchBlobTo ::
  "oci_env \<Rightarrow> string \<Rightarrow> ODescriptor \<Rightarrow> int \<Rightarrow> (oci_error, string) result" where
  "fetchBlobTo E repository d limit =
     (case oci_validateDescriptor (env_digests E) d [] limit of
        Some e \<Rightarrow> Inl e
      | None \<Rightarrow>
     (case registryURL E repository ''blobs'' (od_Digest d) of
        Inl e \<Rightarrow> Inl e
      | Inr requestURL \<Rightarrow>
     (case env_http E requestURL ''application/octet-stream'' of
        None \<Rightarrow> Inl TransportFailed
      | Some response \<Rightarrow>
     if hr_StatusCode response \<noteq> 200 then Inl (StatusError (hr_StatusCode response))
     else case validateIdentityEncoding response of
        Some e \<Rightarrow> Inl e
      | None \<Rightarrow>
     (case validateContentLength (hr_ContentLength response) (Some d) limit of
        Some e \<Rightarrow> Inl e
      | None \<Rightarrow>
     if hr_BodyFails response \<and> int (length (hr_Body response)) \<le> limit then Inl ReadFailed
     else if limit < int (length (hr_Body response)) then Inl (ResponseTooLarge limit)
     else if int (length (hr_Body response)) \<noteq> od_Size d
     then Inl (SizeMismatch (int (length (hr_Body response))))
     else if env_FromBytes E (hr_Body response) \<noteq> od_Digest d
     then Inl (DigestMismatch (env_FromBytes E (hr_Body response)))
     else Inr (hr_Body response)))))"

definition FetchIndex :: "oci_env \<Rightarrow> Limits \<Rightarrow> string \<Rightarrow> string \<Rightarrow> (oci_error, Content) result" where
  "FetchIndex E l repository tag =
     (if \<not> ociTagRE tag then Inl (InvalidTag tag)
      else fetchManifest E repository tag None MediaTypeImageIndex (lm_IndexBytes l))"

definition FetchManifest :: "oci_env \<Rightarrow> Limits \<Rightarrow> string \<Rightarrow> ODescriptor \<Rightarrow> (oci_error, Content) result" where
  "FetchManifest E l repository d =
     (case oci_validateDescriptor (env_digests E) d MediaTypeImageManifest (lm_ManifestBytes l) of
        Some e \<Rightarrow> Inl e
      | None \<Rightarrow> fetchManifest E repository (od_Digest d) (Some d) MediaTypeImageManifest (lm_ManifestBytes l))"

definition FetchConfig :: "oci_env \<Rightarrow> Limits \<Rightarrow> string \<Rightarrow> ODescriptor \<Rightarrow> (oci_error, Content) result" where
  "FetchConfig E l repository d =
     (case oci_validateDescriptor (env_digests E) d MediaTypeImageConfig (lm_ConfigBytes l) of
        Some e \<Rightarrow> Inl e
      | None \<Rightarrow>
          (case fetchBlobTo E repository d (lm_ConfigBytes l) of
             Inl e \<Rightarrow> Inl e
           | Inr body \<Rightarrow> Inr \<lparr>ct_Descriptor = d, ct_Bytes = body\<rparr>))"

definition FetchBlobTo :: "oci_env \<Rightarrow> Limits \<Rightarrow> string \<Rightarrow> ODescriptor \<Rightarrow> (oci_error, string) result" where
  "FetchBlobTo E l repository d =
     (case oci_validateDescriptor (env_digests E) d [] (lm_BlobBytes l) of
        Some e \<Rightarrow> Inl e
      | None \<Rightarrow> fetchBlobTo E repository d (lm_BlobBytes l))"

definition FetchBlob :: "oci_env \<Rightarrow> Limits \<Rightarrow> string \<Rightarrow> ODescriptor \<Rightarrow> (oci_error, Content) result" where
  "FetchBlob E l repository d =
     (case FetchBlobTo E l repository d of
        Inl e \<Rightarrow> Inl e
      | Inr body \<Rightarrow> Inr \<lparr>ct_Descriptor = d, ct_Bytes = body\<rparr>)"

section \<open>Verified content\<close>

text \<open>
  What the callers of the client rely on: bytes of exactly the described size and digest, within the
  limit the call was given. The locale is that contract for a fetch by descriptor; it is interpreted
  for manifests, configs and blobs.
\<close>

definition verified :: "oci_env \<Rightarrow> ODescriptor \<Rightarrow> string \<Rightarrow> int \<Rightarrow> bool" where
  "verified E d body limit \<longleftrightarrow> int (length body) = od_Size d \<and> env_FromBytes E body = od_Digest d
     \<and> od_Size d \<le> limit \<and> (\<exists>p. parseSHA256Digest (env_digests E) (od_Digest d) = Inr p)"

locale pinned_content =
  fixes fetch :: "oci_env \<Rightarrow> Limits \<Rightarrow> string \<Rightarrow> ODescriptor \<Rightarrow> (oci_error, Content) result"
    and limit_of :: "Limits \<Rightarrow> int"
  assumes fetch_descriptor: "fetch E l r d = Inr c \<Longrightarrow> ct_Descriptor c = d"
    and fetch_verified: "fetch E l r d = Inr c \<Longrightarrow> verified E d (ct_Bytes c) (limit_of l)"
begin

lemma fetch_bounded: "fetch E l r d = Inr c \<Longrightarrow> int (length (ct_Bytes c)) \<le> limit_of l"
  using fetch_verified [of E l r d c] by (simp add: verified_def)

text \<open>Two registries that answer a fetch of the same descriptor differently exhibit a collision.\<close>

lemma same_or_collision:
  assumes "fetch E l r d = Inr c" and "fetch E' l' r' d = Inr c'" and "env_FromBytes E' = env_FromBytes E"
  shows "c = c' \<or> ct_Bytes c \<noteq> ct_Bytes c'
    \<and> env_FromBytes E (ct_Bytes c) = env_FromBytes E (ct_Bytes c')"
  using fetch_descriptor [OF assms(1)] fetch_descriptor [OF assms(2)] fetch_verified [OF assms(1)]
    fetch_verified [OF assms(2)] assms(3)
  by (cases c; cases c') (auto simp: verified_def)

end

lemma oci_validateDescriptor_None:
  "oci_validateDescriptor D d mediaType limit = None \<longleftrightarrow>
     (mediaType = [] \<or> od_MediaType d = mediaType) \<and> od_MediaType d \<noteq> []
     \<and> (\<exists>p. parseSHA256Digest D (od_Digest d) = Inr p) \<and> 0 < od_Size d \<and> od_Size d \<le> limit
     \<and> od_Data d = [] \<and> od_URLs d = [] \<and> od_ArtifactType d = []"
  by (auto simp: oci_validateDescriptor_def split: sum.splits)

lemma readBounded_Inr:
  "readBounded r limit = Inr b \<longleftrightarrow>
     b = hr_Body r \<and> int (length b) \<le> limit \<and> \<not> hr_BodyFails r"
  by (auto simp: readBounded_def)

text \<open>What a manifest fetch has checked by the time it looks at the body.\<close>

lemma fetchManifest_Inr:
  assumes "fetchManifest E repository reference expected mediaType limit = Inr c"
  shows "int (length (ct_Bytes c)) \<le> limit
    \<and> dg_Algorithm (env_digests E) (env_FromBytes E (ct_Bytes c)) = ''sha256''
    \<and> (case expected of
        None \<Rightarrow> od_MediaType (ct_Descriptor c) = mediaType \<and> od_Annotations (ct_Descriptor c) = []
          \<and> od_Platform (ct_Descriptor c) = None
          \<and> od_Digest (ct_Descriptor c) = env_FromBytes E (ct_Bytes c)
          \<and> od_Size (ct_Descriptor c) = int (length (ct_Bytes c))
      | Some d \<Rightarrow> ct_Descriptor c = d \<and> int (length (ct_Bytes c)) = od_Size d
          \<and> env_FromBytes E (ct_Bytes c) = od_Digest d)"
  using assms
  by (auto simp: fetchManifest_def readBounded_Inr Let_def
      split: sum.splits option.splits if_splits)

lemma fetchBlobTo_Inr:
  assumes "fetchBlobTo E repository d limit = Inr body"
  shows "verified E d body limit"
  using assms
  by (auto simp: fetchBlobTo_def verified_def oci_validateDescriptor_None
      split: sum.splits option.splits if_splits)

lemma FetchManifest_verified:
  assumes "FetchManifest E l repository d = Inr c"
  shows "ct_Descriptor c = d \<and> verified E d (ct_Bytes c) (lm_ManifestBytes l)"
proof -
  from assms have d: "oci_validateDescriptor (env_digests E) d MediaTypeImageManifest (lm_ManifestBytes l) = None"
    and run: "fetchManifest E repository (od_Digest d) (Some d) MediaTypeImageManifest (lm_ManifestBytes l) = Inr c"
    by (auto simp: FetchManifest_def split: option.splits)
  from fetchManifest_Inr [OF run] d show ?thesis by (auto simp: verified_def oci_validateDescriptor_None)
qed

lemma FetchConfig_verified:
  "FetchConfig E l repository d = Inr c \<Longrightarrow> ct_Descriptor c = d \<and> verified E d (ct_Bytes c) (lm_ConfigBytes l)"
  by (auto simp: FetchConfig_def dest: fetchBlobTo_Inr split: option.splits sum.splits)

lemma FetchBlob_verified:
  "FetchBlob E l repository d = Inr c \<Longrightarrow> ct_Descriptor c = d \<and> verified E d (ct_Bytes c) (lm_BlobBytes l)"
  by (auto simp: FetchBlob_def FetchBlobTo_def dest: fetchBlobTo_Inr split: option.splits sum.splits)

interpretation manifests: pinned_content FetchManifest lm_ManifestBytes
  by unfold_locales (auto dest: FetchManifest_verified)

interpretation configs: pinned_content FetchConfig lm_ConfigBytes
  by unfold_locales (auto dest: FetchConfig_verified)

interpretation blobs: pinned_content FetchBlob lm_BlobBytes
  by unfold_locales (auto dest: FetchBlob_verified)

section \<open>Properties\<close>

text \<open>
  \<open>pins\<close>: whatever the registry answers, what the fetch returns for a descriptor has its size and its digest
  and fits the limit of the call, and two registries that return different bytes for one descriptor
  exhibit a hash collision.
\<close>

definition pins ::
  "(oci_env \<Rightarrow> Limits \<Rightarrow> string \<Rightarrow> ODescriptor \<Rightarrow> (oci_error, Content) result) \<Rightarrow> (Limits \<Rightarrow> int) \<Rightarrow> bool" where
  "pins fetch limit_of \<longleftrightarrow> (\<forall>E l repository d c. fetch E l repository d = Inr c \<longrightarrow>
     ct_Descriptor c = d \<and> int (length (ct_Bytes c)) = od_Size d \<and> env_FromBytes E (ct_Bytes c) = od_Digest d
     \<and> int (length (ct_Bytes c)) \<le> limit_of l
     \<and> (\<forall>E' l' repository' c'. fetch E' l' repository' d = Inr c' \<longrightarrow> env_FromBytes E' = env_FromBytes E \<longrightarrow>
          c = c' \<or> ct_Bytes c \<noteq> ct_Bytes c' \<and> env_FromBytes E (ct_Bytes c) = env_FromBytes E (ct_Bytes c')))"

lemma pinned_content_pins:
  assumes "pinned_content fetch limit_of"
  shows "pins fetch limit_of"
  unfolding pins_def
proof (intro allI impI)
  fix E l repository d c assume run: "fetch E l repository d = Inr c"
  show "ct_Descriptor c = d \<and> int (length (ct_Bytes c)) = od_Size d \<and> env_FromBytes E (ct_Bytes c) = od_Digest d
     \<and> int (length (ct_Bytes c)) \<le> limit_of l
     \<and> (\<forall>E' l' repository' c'. fetch E' l' repository' d = Inr c' \<longrightarrow> env_FromBytes E' = env_FromBytes E \<longrightarrow>
          c = c' \<or> ct_Bytes c \<noteq> ct_Bytes c' \<and> env_FromBytes E (ct_Bytes c) = env_FromBytes E (ct_Bytes c'))"
    using pinned_content.fetch_descriptor [OF assms run] pinned_content.fetch_verified [OF assms run]
      pinned_content.same_or_collision [OF assms run] by (auto simp: verified_def)
qed

text \<open>
  C17: Content is pinned by its descriptor. Whatever the registry answers, a manifest, a config or a blob is
  returned only with the size and the SHA-256 digest of its descriptor and within the limit of the
  call, and so is a blob that is streamed to a writer, for any limit; two registries that return
  different bytes for one descriptor exhibit a hash collision. An index fetched by tag fits its limit
  and carries the digest and the size of its own bytes.
\<close>

theorem content_pinned:
  "pins FetchManifest lm_ManifestBytes \<and> pins FetchConfig lm_ConfigBytes \<and> pins FetchBlob lm_BlobBytes
   \<and> (\<forall>E repository d limit body. fetchBlobTo E repository d limit = Inr body \<longrightarrow>
        int (length body) = od_Size d \<and> env_FromBytes E body = od_Digest d \<and> int (length body) \<le> limit)
   \<and> (\<forall>E l repository d body. FetchBlobTo E l repository d = Inr body \<longrightarrow>
        int (length body) = od_Size d \<and> env_FromBytes E body = od_Digest d \<and> int (length body) \<le> lm_BlobBytes l)
   \<and> (\<forall>E l repository tag i. FetchIndex E l repository tag = Inr i \<longrightarrow>
        od_Digest (ct_Descriptor i) = env_FromBytes E (ct_Bytes i)
        \<and> od_Size (ct_Descriptor i) = int (length (ct_Bytes i)) \<and> int (length (ct_Bytes i)) \<le> lm_IndexBytes l)"
proof (intro conjI)
  show "pins FetchManifest lm_ManifestBytes" "pins FetchConfig lm_ConfigBytes" "pins FetchBlob lm_BlobBytes"
    by (intro pinned_content_pins manifests.pinned_content_axioms configs.pinned_content_axioms blobs.pinned_content_axioms)+
  show "\<forall>E repository d limit body. fetchBlobTo E repository d limit = Inr body \<longrightarrow>
        int (length body) = od_Size d \<and> env_FromBytes E body = od_Digest d \<and> int (length body) \<le> limit"
    by (auto dest!: fetchBlobTo_Inr simp: verified_def)
  show "\<forall>E l repository d body. FetchBlobTo E l repository d = Inr body \<longrightarrow>
        int (length body) = od_Size d \<and> env_FromBytes E body = od_Digest d \<and> int (length body) \<le> lm_BlobBytes l"
    by (auto simp: FetchBlobTo_def verified_def dest!: fetchBlobTo_Inr split: option.splits)
  show "\<forall>E l repository tag i. FetchIndex E l repository tag = Inr i \<longrightarrow>
        od_Digest (ct_Descriptor i) = env_FromBytes E (ct_Bytes i)
        \<and> od_Size (ct_Descriptor i) = int (length (ct_Bytes i)) \<and> int (length (ct_Bytes i)) \<le> lm_IndexBytes l"
    by (auto simp: FetchIndex_def dest!: fetchManifest_Inr split: if_splits)
qed

text \<open>A registry that serves one index by tag, and one manifest and one config by digest.\<close>

definition sample_hash :: "string \<Rightarrow> string" where
  "sample_hash b = ''sha256:'' @ replicate 64 (case b of [] \<Rightarrow> CHR ''0'' | c # _ \<Rightarrow> c)"

definition sample_response :: "string \<Rightarrow> string \<Rightarrow> http_response" where
  "sample_response mediaType body = \<lparr>hr_StatusCode = 200, hr_ContentEncoding = [], hr_ContentType = mediaType,
     hr_ContentLength = int (length body), hr_DigestHeader = [], hr_Body = body, hr_BodyFails = False\<rparr>"

definition sample_http :: "string \<Rightarrow> string \<Rightarrow> http_response option" where
  "sample_http url accept =
     (if url = ''/v2/homebrew/core/jq/manifests/1.7_1-2'' then Some (sample_response accept ''1'')
      else if url = ''/v2/homebrew/core/jq/manifests/'' @ sample_hash ''2'' then Some (sample_response accept ''2'')
      else if url = ''/v2/homebrew/core/jq/blobs/'' @ sample_hash ''3'' then Some (sample_response accept ''3'')
      else None)"

definition sample_env :: "OIndex \<Rightarrow> OManifest \<Rightarrow> OImage \<Rightarrow> bottleTabWire \<Rightarrow> oci_env" where
  "sample_env idx man img tab = \<lparr>env_unicode = ascii_tables, env_digests = sample_digests,
     env_FromBytes = sample_hash, env_ParseMediaType = Some, env_base = [], env_http = sample_http,
     env_index = (\<lambda>b. if b = ''1'' then Some idx else None),
     env_manifest = (\<lambda>b. if b = ''2'' then Some man else None),
     env_image = (\<lambda>b. if b = ''3'' then Some img else None),
     env_fields = (\<lambda>b. if b = ''t'' then Some [(''homebrew_version'', ''v''), (''runtime_dependencies'', ''r'')]
        else None),
     env_tab = (\<lambda>b. if b = ''t'' then Some tab else None), env_string = Some\<rparr>"

definition sample_odescriptor :: "string \<Rightarrow> string \<Rightarrow> ODescriptor" where
  "sample_odescriptor mediaType body = \<lparr>od_MediaType = mediaType, od_Digest = sample_hash body, od_Size = 1,
     od_URLs = [], od_Annotations = [], od_Data = [], od_Platform = None, od_ArtifactType = []\<rparr>"

lemma sample_hash_facts:
  "length (sample_hash b) = 71" "takeWhile (\<lambda>c. c \<noteq> CHR '':'') (sample_hash b) = ''sha256''"
  "prefix ''sha256:'' (sample_hash b)" "sample_hash b \<noteq> []"
  by (simp_all add: sample_hash_def)

lemma sample_hash_parses: "parseSHA256Digest sample_digests (sample_hash b) = Inr (sample_hash b)"
  by (simp add: parseSHA256Digest_def sample_digests_def sample_hash_facts)

lemma sample_hash_plain:
  "b \<in> {''1'', ''2'', ''3'', ''4''} \<Longrightarrow> \<not> contains_any (sample_hash b)
     [CHR ''/'', CHR 0x5C, CHR ''?'', CHR ''#'', CHR 0x00, CHR 0x0D, CHR 0x0A]"
  by (auto simp: contains_any_def sample_hash_def list_ex_iff)

lemma sample_repository_valid: "validateRepository ascii_tables ''homebrew/core/jq'' = None"
  by (rule validateRepository_ascii; code_simp)

lemmas sample_env_fields = sample_env_def oci_env.select_convs

lemma sample_fetchManifest:
  assumes "sample_http (''/v2/homebrew/core/jq/manifests/'' @ reference) mediaType
      = Some (sample_response mediaType body)"
    and "reference \<noteq> []" and "mediaType \<noteq> []" and "1 \<le> limit" and "length body = 1"
    and "\<not> contains_any reference [CHR ''/'', CHR 0x5C, CHR ''?'', CHR ''#'', CHR 0x00, CHR 0x0D, CHR 0x0A]"
    and "case expected of None \<Rightarrow> True | Some d \<Rightarrow> od_Size d = 1 \<and> od_Digest d = sample_hash body"
  shows "fetchManifest (sample_env idx man img tab) ''homebrew/core/jq'' reference expected mediaType limit =
    Inr \<lparr>ct_Descriptor = (case expected of None \<Rightarrow> sample_odescriptor mediaType body | Some d \<Rightarrow> d),
         ct_Bytes = body\<rparr>"
proof -
  have trim: "trim_space [] = []" by (simp add: trim_space_def)
  have url: "registryURL (sample_env idx man img tab) ''homebrew/core/jq'' ''manifests'' reference =
      Inr (''/v2/homebrew/core/jq/manifests/'' @ reference)"
    using assms(2,6) sample_repository_valid
    by (simp add: registryURL_def sample_env_fields trim_suffix_def)
  have alg: "dg_Algorithm sample_digests (sample_hash body) = ''sha256''"
    by (simp add: sample_digests_def sample_hash_facts)
  have resp: "hr_StatusCode (sample_response mediaType body) = 200"
    "validateIdentityEncoding (sample_response mediaType body) = None"
    "responseMediaType (sample_env idx man img tab) (sample_response mediaType body) = Inr mediaType"
    "hr_ContentLength (sample_response mediaType body) = 1"
    "readBounded (sample_response mediaType body) limit = Inr body"
    "digestHeader D (sample_response mediaType body) x = None" for D x
    using assms(3,4,5) trim
    by (simp_all add: sample_response_def validateIdentityEncoding_def responseMediaType_def readBounded_def
        digestHeader_def sample_env_fields)
  have http: "env_http (sample_env idx man img tab) = sample_http" "env_FromBytes (sample_env idx man img tab) = sample_hash"
    "env_digests (sample_env idx man img tab) = sample_digests" by (simp_all add: sample_env_fields)
  have len: "validateContentLength 1 expected limit = None"
    using assms(4,7) by (auto simp: validateContentLength_def split: option.splits)
  show ?thesis
    unfolding fetchManifest_def url sum.case http assms(1) option.case resp len
    using assms(5,7) by (auto simp: alg Let_def sample_odescriptor_def split: option.splits)
qed

lemma sample_FetchManifest:
  assumes "od_MediaType d = MediaTypeImageManifest" and "od_Digest d = sample_hash ''2''" and "od_Size d = 1"
    and "od_Data d = []" and "od_URLs d = []" and "od_ArtifactType d = []"
  shows "FetchManifest (sample_env idx man img tab) DefaultLimits ''homebrew/core/jq'' d =
    Inr \<lparr>ct_Descriptor = d, ct_Bytes = ''2''\<rparr>"
proof -
  have "oci_validateDescriptor sample_digests d MediaTypeImageManifest (lm_ManifestBytes DefaultLimits) = None"
    using assms
    by (simp add: oci_validateDescriptor_None sample_hash_parses DefaultLimits_def MediaTypeImageManifest_def)
  moreover have "fetchManifest (sample_env idx man img tab) ''homebrew/core/jq'' (sample_hash ''2'') (Some d)
      MediaTypeImageManifest (lm_ManifestBytes DefaultLimits) = Inr \<lparr>ct_Descriptor = d, ct_Bytes = ''2''\<rparr>"
    using assms sample_hash_plain [of "''2''"]
    by (subst sample_fetchManifest [where body = "''2''"])
      (simp_all add: sample_http_def sample_hash_facts DefaultLimits_def MediaTypeImageManifest_def
        sample_hash_def)
  ultimately show ?thesis using assms(2) by (simp add: FetchManifest_def sample_env_fields)
qed

lemma sample_FetchIndex:
  "FetchIndex (sample_env idx man img tab) DefaultLimits ''homebrew/core/jq'' ''1.7_1-2'' =
    Inr \<lparr>ct_Descriptor = sample_odescriptor MediaTypeImageIndex ''1'', ct_Bytes = ''1''\<rparr>"
proof -
  have "ociTagRE ''1.7_1-2''" by code_simp
  then show ?thesis
    unfolding FetchIndex_def
    by (subst sample_fetchManifest [where body = "''1''"])
      (simp_all add: sample_http_def DefaultLimits_def MediaTypeImageIndex_def contains_any_def)
qed

definition sample_child :: ODescriptor where
  "sample_child = (sample_odescriptor MediaTypeImageManifest ''2'')
     \<lparr>od_Annotations := [(AnnotationRefName, ''1.7_1.x86_64_linux.2''),
        (annotationBottleDigest, sample_sha256), (annotationBottleTab, ''t'')],
      od_Platform := Some \<lparr>op_Architecture = ''amd64'', op_OS = ''linux'', op_OSVersion = [],
        op_OSFeatures = [], op_Variant = []\<rparr>\<rparr>"

definition sample_common :: "string \<Rightarrow> string \<Rightarrow> (string, string) gomap \<Rightarrow> (string, string) gomap" where
  "sample_common title refName extra = [(annotationPackageType, ''homebrew_bottle''), (AnnotationTitle, title),
     (AnnotationVersion, ''1.7_1''), (AnnotationRefName, refName)] @ extra"

definition sample_index :: "string \<Rightarrow> (string, string) gomap \<Rightarrow> OIndex" where
  "sample_index title extra = \<lparr>oi_SchemaVersion = 2, oi_MediaType = [], oi_ArtifactType = [],
     oi_Manifests = [sample_child], oi_Subject = None,
     oi_Annotations = sample_common title ''1.7_1-2'' extra\<rparr>"

definition sample_manifest :: "string \<Rightarrow> (string, string) gomap \<Rightarrow> OManifest" where
  "sample_manifest title extra = \<lparr>om_SchemaVersion = 2, om_MediaType = [], om_ArtifactType = [],
     om_Config = sample_odescriptor MediaTypeImageConfig ''3'',
     om_Layers = [(sample_odescriptor MediaTypeImageLayerGzip ''a'')
       \<lparr>od_Annotations := [(AnnotationTitle, ''jq--1.7_1.x86_64_linux.bottle.2.tar.gz'')]\<rparr>],
     om_Subject = None,
     om_Annotations = sample_common (title @ '' 1.7_1.x86_64_linux.2'') ''1.7_1.x86_64_linux.2''
       (extra @ [(annotationBottleDigest, sample_sha256), (annotationBottleTab, ''t'')])\<rparr>"

definition sample_image :: OImage where
  "sample_image = \<lparr>ig_Architecture = ''amd64'', ig_OS = ''linux'', ig_RootFSType = ''layers'',
     ig_DiffIDs = [sample_hash ''4'']\<rparr>"

definition sample_tab :: bottleTabWire where
  "sample_tab = \<lparr>tw_HomebrewVersion = ''4'', tw_Arch = ''x86_64'', tw_Compiler = [], tw_ChangedFiles = [],
     tw_BuiltOn = \<lparr>bo_OS = ''Linux'', bo_OSVersion = [], bo_CPUFamily = [], bo_OldestCPUFamily = [],
       bo_GlibcVersion = []\<rparr>, tw_Dependencies = []\<rparr>"

definition sample_registry :: "string \<Rightarrow> (string, string) gomap \<Rightarrow> oci_env" where
  "sample_registry title extra =
     sample_env (sample_index title extra) (sample_manifest title extra) sample_image sample_tab"

theorem content_pinned_witness:
  "FetchManifest (sample_registry ''jq'' []) DefaultLimits ''homebrew/core/jq'' sample_child
     = Inr \<lparr>ct_Descriptor = sample_child, ct_Bytes = ''2''\<rparr>
   \<and> env_FromBytes (sample_registry ''jq'' []) ''2'' = od_Digest sample_child
   \<and> (\<exists>i. FetchIndex (sample_registry ''jq'' []) DefaultLimits ''homebrew/core/jq'' ''1.7_1-2'' = Inr i
        \<and> od_Digest (ct_Descriptor i) = env_FromBytes (sample_registry ''jq'' []) (ct_Bytes i))"
proof -
  have fetch: "FetchManifest (sample_registry ''jq'' []) DefaultLimits ''homebrew/core/jq'' sample_child
     = Inr \<lparr>ct_Descriptor = sample_child, ct_Bytes = ''2''\<rparr>"
    unfolding sample_registry_def
    by (rule sample_FetchManifest) (simp_all add: sample_child_def sample_odescriptor_def)
  note index = sample_FetchIndex [of "sample_index ''jq'' []" "sample_manifest ''jq'' []" sample_image sample_tab,
      folded sample_registry_def]
  from content_pinned [THEN conjunct1, unfolded pins_def, rule_format, OF fetch]
    content_pinned [THEN conjunct2, THEN conjunct2, THEN conjunct2, THEN conjunct2, THEN conjunct2, rule_format, OF index]
    fetch index show ?thesis by simp
qed

end
