(* ===== verification/OciResolve.thy ===== *)
theory OciResolve
  imports OciClient
begin

text \<open>
  \<open>internal/homebrew/oci/resolve.go\<close>: from the authenticated metadata of a Formula to a verified chain
  of index, manifest, config and layer descriptors, and the closure node made from it.

  \<^item> \<open>resolveDescriptorChain\<close> is shared by the core and the public-tap entry points and takes their
    annotation check and tab parser as arguments, as in the source.
  \<^item> An annotation that is missing reads as the empty string (\<open>ann\<close>). Cloning a map or a descriptor
    does not change its value and is left out.
  \<^item> A check that ranges over a map literal reports its first mismatch in the order of the literal.
\<close>

record resolvedBottle =
  rb_reference :: FormulaReference
  rb_target :: OPlatform
  rb_selectedBottleTag :: string
  rb_selectedChildTag :: string
  rb_filename :: string
  rb_cellar :: string
  rb_homebrewSHA256 :: string
  rb_index :: ODescriptor
  rb_manifest :: ODescriptor
  rb_config :: ODescriptor
  rb_layer :: ODescriptor
  rb_tab :: BottleTab
  rb_selectedAnnotations :: "(string, string) gomap"
  rb_manifestAnnotations :: "(string, string) gomap"
  rb_executablePaths :: "string list"

text \<open>
  \<open>Result\<close> and \<open>AuthenticatedResult\<close> have the same fields but for the type of the Formula, and both
  entry points copy every field of a \<open>resolvedBottle\<close> into them.
\<close>

record 'f Result =
  rs_Formula :: 'f
  rs_Bottle :: resolvedBottle

definition ann :: "(string, string) gomap \<Rightarrow> string \<Rightarrow> string" where
  "ann m k = (case mget m k of None \<Rightarrow> [] | Some v \<Rightarrow> v)"

section \<open>Target and bottle\<close>

definition validateTarget :: "OPlatform \<Rightarrow> oci_error option" where
  "validateTarget target =
     (if op_OS target \<noteq> ''linux'' \<or> (op_Architecture target \<noteq> ''amd64'' \<and> op_Architecture target \<noteq> ''arm64'')
      then Some (UnsupportedTarget (op_OS target) (op_Architecture target))
      else if op_Variant target \<noteq> [] \<or> op_OSFeatures target \<noteq> [] then Some TargetVariant
      else None)"

definition targetBottleTag :: "OPlatform \<Rightarrow> (oci_error, string) result" where
  "targetBottleTag target =
     (case validateTarget target of
        Some e \<Rightarrow> Inl e
      | None \<Rightarrow> Inr (if op_Architecture target = ''arm64'' then BottleTagARM64Linux else BottleTagX8664Linux))"

definition selectBottleFileFromMap ::
  "string \<Rightarrow> (string, OBottleFile) gomap \<Rightarrow> OPlatform \<Rightarrow> (oci_error, string \<times> OBottleFile) result" where
  "selectBottleFileFromMap formulaLabel bottleFiles target =
     (case targetBottleTag target of
        Inl e \<Rightarrow> Inl e
      | Inr targetTag \<Rightarrow>
          (case mget bottleFiles targetTag of
             Some file \<Rightarrow>
               (case validateBottleFile targetTag file of
                  Some e \<Rightarrow> Inl (ReferenceError e) | None \<Rightarrow> Inr (targetTag, file))
           | None \<Rightarrow>
          (case mget bottleFiles BottleTagAll of
             Some file \<Rightarrow>
               (case validateBottleFile BottleTagAll file of
                  Some e \<Rightarrow> Inl (ReferenceError e) | None \<Rightarrow> Inr (BottleTagAll, file))
           | None \<Rightarrow> Inl (NoBottle formulaLabel))))"

section \<open>Annotations\<close>

definition parseCanonicalPositiveInt :: "string \<Rightarrow> (oci_error, int) result" where
  "parseCanonicalPositiveInt value =
     (if value = [] then Inl (BadSize value)
      else case atoi value of
          None \<Rightarrow> Inl (BadSize value)
        | Some parsed \<Rightarrow> if parsed \<le> 0 \<or> itoa parsed \<noteq> value then Inl (BadSize value) else Inr parsed)"

definition annotationsMatch ::
  "(string, string) gomap \<Rightarrow> (string \<times> string) list \<Rightarrow> oci_error option" where
  "annotationsMatch annotations expected =
     first_error (\<lambda>(key, v). if ann annotations key \<noteq> v then Some (AnnotationMismatch key) else None) expected"

definition validateCommonAnnotations ::
  "unicode_tables \<Rightarrow> string \<Rightarrow> (string, string) gomap \<Rightarrow> string \<Rightarrow> string \<Rightarrow> string \<Rightarrow> oci_error option" where
  "validateCommonAnnotations U formulaName annotations pkgVersion refName title =
     (case annotationsMatch annotations
        [(annotationPackageType, homebrewBottlePackageType), (AnnotationTitle, title),
         (AnnotationVersion, pkgVersion), (AnnotationRefName, refName)] of
        Some e \<Rightarrow> Some e
      | None \<Rightarrow>
          if \<not> equal_fold (ann annotations AnnotationVendor) ''homebrew''
          then Some (AnnotationMismatch AnnotationVendor)
          else if \<not> prefix ''https://github.com/homebrew/homebrew-core/''
                    (to_lower U (ann annotations AnnotationSource))
          then Some (AnnotationMismatch AnnotationSource)
          else if formulaName = [] then Some (ReferenceError (FormulaNameInvalid []))
          else None)"

definition validateAuthenticatedCommonAnnotations ::
  "unicode_tables \<Rightarrow> AuthenticatedFormulaIdentity \<Rightarrow> (string, string) gomap \<Rightarrow> string \<Rightarrow> string \<Rightarrow> string
     \<Rightarrow> oci_error option" where
  "validateAuthenticatedCommonAnnotations U ident annotations pkgVersion refName title =
     (case identity_validate U ident of
        Some e \<Rightarrow> Some (ReferenceError e)
      | None \<Rightarrow> annotationsMatch annotations
          [(annotationPackageType, homebrewBottlePackageType), (AnnotationVendor, Publisher ident),
           (AnnotationTitle, title), (AnnotationVersion, pkgVersion), (AnnotationRefName, refName),
           (AnnotationRevision, ai_sourceCommit ident), (AnnotationSource, SourceURL ident)])"

definition validateSelectedAnnotations ::
  "(string, string) gomap \<Rightarrow> OBottleFile \<Rightarrow> int \<Rightarrow> string \<Rightarrow> oci_error option" where
  "validateSelectedAnnotations annotations bottleFile maxLayerBytes childTag =
     (if ann annotations AnnotationRefName \<noteq> childTag then Some (AnnotationMismatch AnnotationRefName)
      else let checksum = ann annotations annotationBottleDigest in
      case oci_validateSHA256Hex checksum of
        Some e \<Rightarrow> Some (ReferenceError e)
      | None \<Rightarrow>
          if checksum \<noteq> ob_SHA256 bottleFile then Some (ChecksumMismatch checksum)
          else let rawSize = ann annotations annotationBottleSize;
                   rest = (if trim_space (ann annotations annotationBottleTab) = []
                           then Some (AnnotationMismatch annotationBottleTab) else None)
               in if rawSize = [] then rest
                  else case parseCanonicalPositiveInt rawSize of
                      Inl e \<Rightarrow> Some e
                    | Inr bytes \<Rightarrow> if maxLayerBytes < bytes then Some (BadSize rawSize) else rest)"

definition validateSelectedPlatform :: "OPlatform option \<Rightarrow> OPlatform \<Rightarrow> bool \<Rightarrow> oci_error option" where
  "validateSelectedPlatform platform target allBottle =
     (if allBottle then (if platform \<noteq> None then Some PlatformMismatch else None)
      else case platform of
          None \<Rightarrow> Some PlatformMismatch
        | Some p \<Rightarrow>
            if op_OS p \<noteq> op_OS target \<or> op_Architecture p \<noteq> op_Architecture target then Some PlatformMismatch
            else if op_Variant p \<noteq> [] \<or> op_OSFeatures p \<noteq> [] then Some PlatformMismatch
            else None)"

section \<open>The bottle tab\<close>

definition canonicalDependencyName :: "string \<Rightarrow> (oci_error, string) result" where
  "canonicalDependencyName fullName =
     (let check = (\<lambda>name. case oci_validateFormulaName name of
                     Some e \<Rightarrow> Inl (ReferenceError e) | None \<Rightarrow> Inr name)
      in if prefix (HomebrewCoreRepository @ ''/'') fullName
         then check (trim_prefix (HomebrewCoreRepository @ ''/'') fullName)
         else if CHR ''/'' \<in> set fullName then Inl (DependencyInvalid fullName)
         else check fullName)"

definition canonicalAuthenticatedDependencyName :: "string \<Rightarrow> (oci_error, string) result" where
  "canonicalAuthenticatedDependencyName fullName =
     (case Parse fullName of
        Inl e \<Rightarrow> Inl (ReferenceError (IdentityParse e)) | Inr i \<Rightarrow> Inr (FormulaID_String i))"

fun changedFilesFrom :: "string list \<Rightarrow> string list \<Rightarrow> oci_error option" where
  "changedFilesFrom seen [] = None"
| "changedFilesFrom seen (value # values) =
     (if value = [] \<or> prefix ''/'' value \<or> CHR 0x5C \<in> set value \<or> path_clean value \<noteq> value
         \<or> value = ''.'' \<or> prefix ''../'' value then Some (ChangedFile value)
      else if value \<in> set seen then Some (ChangedFile value)
      else changedFilesFrom (value # seen) values)"

definition validateChangedFiles :: "string list \<Rightarrow> (oci_error, string list) result" where
  "validateChangedFiles values =
     (case changedFilesFrom [] values of Some e \<Rightarrow> Inl e | None \<Rightarrow> Inr (sort values))"

fun executablePathsFrom :: "string list \<Rightarrow> string list \<Rightarrow> oci_error option" where
  "executablePathsFrom seen [] = None"
| "executablePathsFrom seen (item # items) =
     (if item = [] \<or> trim_space item \<noteq> item
         \<or> contains_any item [CHR 0x5C, CHR 0x00, CHR 0x0D, CHR 0x0A]
         \<or> prefix ''/'' item \<or> path_clean item \<noteq> item \<or> item = ''.'' \<or> item = ''..''
         \<or> prefix ''../'' item then Some (ExecutablePath item)
      else if item \<in> set seen then Some (ExecutablePath item)
      else executablePathsFrom (item # seen) items)"

definition parseExecutablePaths :: "string \<Rightarrow> (oci_error, string list) result" where
  "parseExecutablePaths value =
     (if value = [] then Inr []
      else let items = split_on CHR '','' value
           in case executablePathsFrom [] items of Some e \<Rightarrow> Inl e | None \<Rightarrow> Inr (sort items))"

text \<open>The body of the loop over the runtime dependencies of a tab.\<close>

definition tabDependency ::
  "oci_env \<Rightarrow> (string \<Rightarrow> (oci_error, string) result) \<Rightarrow> string list \<Rightarrow> runtimeDependencyWire
     \<Rightarrow> (oci_error, RuntimeDependency) result" where
  "tabDependency E canonicalizeDependency seen dependency =
     (case canonicalizeDependency (rw_FullName dependency) of
        Inl e \<Rightarrow> Inl e
      | Inr name \<Rightarrow>
          if name \<in> set seen then Inl (DependencyDuplicate name)
          else (case oci_PkgVersion (rw_Version dependency) (rw_Revision dependency) of
             Inl e \<Rightarrow> Inl (ReferenceError e)
           | Inr expected \<Rightarrow>
               (case (case rw_PkgVersion dependency of
                       None \<Rightarrow> Inr expected
                     | Some raw \<Rightarrow>
                         if trim_space raw = ''null'' then Inl (DependencyInvalid name)
                         else (case env_string E raw of
                             None \<Rightarrow> Inl (DecodeFailed raw)
                           | Some annotated \<Rightarrow>
                               if annotated \<noteq> expected then Inl (DependencyInvalid name) else Inr annotated)) of
                  Inl e \<Rightarrow> Inl e
                | Inr pkgVersion \<Rightarrow>
                    if rw_BottleRebuild dependency < 0 then Inl (DependencyInvalid name)
                    else Inr \<lparr>rd_FullName = name, rd_Version = rw_Version dependency,
                              rd_Revision = rw_Revision dependency,
                              rd_BottleRebuild = rw_BottleRebuild dependency, rd_PkgVersion = pkgVersion,
                              rd_DeclaredDirectly = rw_DeclaredDirectly dependency\<rparr>)))"

fun tabDependencies ::
  "oci_env \<Rightarrow> (string \<Rightarrow> (oci_error, string) result) \<Rightarrow> string list \<Rightarrow> runtimeDependencyWire list
     \<Rightarrow> (oci_error, RuntimeDependency list) result" where
  "tabDependencies E canonicalizeDependency seen [] = Inr []"
| "tabDependencies E canonicalizeDependency seen (dependency # rest) =
     (case tabDependency E canonicalizeDependency seen dependency of
        Inl e \<Rightarrow> Inl e
      | Inr d \<Rightarrow>
          (case tabDependencies E canonicalizeDependency (rd_FullName d # seen) rest of
             Inl e \<Rightarrow> Inl e | Inr ds \<Rightarrow> Inr (d # ds)))"

definition emptyBuiltOn :: BuiltOn where
  "emptyBuiltOn = \<lparr>bo_OS = [], bo_OSVersion = [], bo_CPUFamily = [], bo_OldestCPUFamily = [],
     bo_GlibcVersion = []\<rparr>"

definition tabPlatform :: "bottleTabWire \<Rightarrow> OPlatform \<Rightarrow> bool \<Rightarrow> oci_error option" where
  "tabPlatform wire target allBottle =
     (if allBottle
      then if tw_Arch wire \<noteq> [] \<or> tw_BuiltOn wire \<noteq> emptyBuiltOn then Some (TabInvalid ''all'') else None
      else let expectedArch = (if op_Architecture target = ''arm64'' then ''arm64'' else ''x86_64'')
           in if tw_Arch wire \<noteq> expectedArch then Some (TabInvalid ''arch'')
              else if bo_OS (tw_BuiltOn wire) \<noteq> ''Linux'' then Some (TabInvalid ''built_on'')
              else None)"

definition parseBottleTabWith ::
  "oci_env \<Rightarrow> (string \<Rightarrow> (oci_error, string) result) \<Rightarrow> string \<Rightarrow> OPlatform \<Rightarrow> bool
     \<Rightarrow> (oci_error, BottleTab) result" where
  "parseBottleTabWith E canonicalizeDependency value target allBottle =
     (case env_fields E value of
        None \<Rightarrow> Inl (DecodeFailed value)
      | Some rawFields \<Rightarrow>
     if \<not> mhas rawFields ''homebrew_version'' then Inl (TabInvalid ''homebrew_version'')
     else case mget rawFields ''runtime_dependencies'' of
        None \<Rightarrow> Inl (TabInvalid ''runtime_dependencies'')
      | Some rawDependencies \<Rightarrow>
     if trim_space rawDependencies = ''null'' then Inl (TabInvalid ''runtime_dependencies'')
     else case env_tab E value of
        None \<Rightarrow> Inl (DecodeFailed value)
      | Some wire \<Rightarrow>
     if trim_space (tw_HomebrewVersion wire) = [] then Inl (TabInvalid ''homebrew_version'')
     else case tabPlatform wire target allBottle of
        Some e \<Rightarrow> Inl e
      | None \<Rightarrow>
     (case tabDependencies E canonicalizeDependency [] (tw_Dependencies wire) of
        Inl e \<Rightarrow> Inl e
      | Inr dependencies \<Rightarrow>
     (case validateChangedFiles (tw_ChangedFiles wire) of
        Inl e \<Rightarrow> Inl e
      | Inr changed \<Rightarrow>
          Inr \<lparr>bt_HomebrewVersion = tw_HomebrewVersion wire, bt_Arch = tw_Arch wire,
               bt_Compiler = tw_Compiler wire, bt_ChangedFiles = changed, bt_BuiltOn = tw_BuiltOn wire,
               bt_Dependencies = sort_key rd_FullName dependencies\<rparr>)))"

definition parseBottleTab :: "oci_env \<Rightarrow> string \<Rightarrow> OPlatform \<Rightarrow> bool \<Rightarrow> (oci_error, BottleTab) result" where
  "parseBottleTab E value target allBottle =
     parseBottleTabWith E canonicalDependencyName value target allBottle"

definition parseAuthenticatedBottleTab ::
  "oci_env \<Rightarrow> string \<Rightarrow> OPlatform \<Rightarrow> bool \<Rightarrow> (oci_error, BottleTab) result" where
  "parseAuthenticatedBottleTab E value target allBottle =
     parseBottleTabWith E canonicalAuthenticatedDependencyName value target allBottle"

section \<open>Index, manifest and config\<close>

type_synonym annotation_check = "(string, string) gomap \<Rightarrow> string \<Rightarrow> string \<Rightarrow> string \<Rightarrow> oci_error option"
type_synonym tab_parser = "string \<Rightarrow> OPlatform \<Rightarrow> bool \<Rightarrow> (oci_error, BottleTab) result"

text \<open>The loop over the children of an index; \<open>selected\<close> is the child found so far.\<close>

fun selectChild ::
  "digest_lib \<Rightarrow> int \<Rightarrow> string \<Rightarrow> nat \<Rightarrow> string list \<Rightarrow> ODescriptor option \<Rightarrow> ODescriptor list
     \<Rightarrow> (oci_error, ODescriptor option) result" where
  "selectChild D limit childTag i seen selected [] = Inr selected"
| "selectChild D limit childTag i seen selected (d # ds) =
     (case oci_validateDescriptor D d MediaTypeImageManifest limit of
        Some e \<Rightarrow> Inl e
      | None \<Rightarrow>
          let refName = ann (od_Annotations d) AnnotationRefName
          in if refName = [] then Inl (ChildUnnamed i)
             else if refName \<in> set seen then Inl (ChildDuplicate refName)
             else selectChild D limit childTag (Suc i) (refName # seen)
                    (if refName = childTag then Some d else selected) ds)"

definition validateAndSelectIndexWith ::
  "oci_env \<Rightarrow> Limits \<Rightarrow> OIndex \<Rightarrow> FormulaReference \<Rightarrow> OPlatform \<Rightarrow> string \<Rightarrow> string \<Rightarrow> OBottleFile \<Rightarrow> string
     \<Rightarrow> annotation_check \<Rightarrow> tab_parser \<Rightarrow> (oci_error, ODescriptor \<times> BottleTab \<times> string list) result" where
  "validateAndSelectIndexWith E l index reference target selectedBottleTag childTag bottleFile indexTitle
      validateAnnotations parseTab =
     (if oi_SchemaVersion index \<noteq> 2 then Inl (BadIndex ''schemaVersion'')
      else if oi_MediaType index \<noteq> [] \<and> oi_MediaType index \<noteq> MediaTypeImageIndex
      then Inl (BadIndex ''mediaType'')
      else if oi_ArtifactType index \<noteq> [] \<or> oi_Subject index \<noteq> None then Inl (BadIndex ''artifact'')
      else if oi_Manifests index = [] then Inl (BadIndex ''manifests'')
      else case validateAnnotations (oi_Annotations index) (fr_PkgVersion reference) (fr_IndexTag reference)
             indexTitle of
        Some e \<Rightarrow> Inl e
      | None \<Rightarrow>
     (case selectChild (env_digests E) (lm_ManifestBytes l) childTag 0 [] None (oi_Manifests index) of
        Inl e \<Rightarrow> Inl e
      | Inr None \<Rightarrow> Inl (ChildMissing childTag)
      | Inr (Some selected) \<Rightarrow>
     (case validateSelectedPlatform (od_Platform selected) target (selectedBottleTag = BottleTagAll) of
        Some e \<Rightarrow> Inl e
      | None \<Rightarrow>
     (case validateSelectedAnnotations (od_Annotations selected) bottleFile (lm_BlobBytes l) childTag of
        Some e \<Rightarrow> Inl e
      | None \<Rightarrow>
     (case parseTab (ann (od_Annotations selected) annotationBottleTab) target
             (selectedBottleTag = BottleTagAll) of
        Inl e \<Rightarrow> Inl e
      | Inr tab \<Rightarrow>
     (case parseExecutablePaths (ann (od_Annotations selected) annotationPathExecFiles) of
        Inl e \<Rightarrow> Inl e
      | Inr executablePaths \<Rightarrow> Inr (selected, tab, executablePaths)))))))"

definition validateManifestWith ::
  "oci_env \<Rightarrow> Limits \<Rightarrow> OManifest \<Rightarrow> FormulaReference \<Rightarrow> ODescriptor \<Rightarrow> string \<Rightarrow> string \<Rightarrow> OBottleFile
     \<Rightarrow> string \<Rightarrow> annotation_check \<Rightarrow> oci_error option" where
  "validateManifestWith E l manifest reference selected childTag filename bottleFile manifestTitle
      validateAnnotations =
     (if om_SchemaVersion manifest \<noteq> 2 then Some (BadManifest ''schemaVersion'')
      else if om_MediaType manifest \<noteq> [] \<and> om_MediaType manifest \<noteq> MediaTypeImageManifest
      then Some (BadManifest ''mediaType'')
      else if om_ArtifactType manifest \<noteq> [] \<or> om_Subject manifest \<noteq> None then Some (BadManifest ''artifact'')
      else case oci_validateDescriptor (env_digests E) (om_Config manifest) MediaTypeImageConfig
             (lm_ConfigBytes l) of
        Some e \<Rightarrow> Some e
      | None \<Rightarrow>
     if od_Platform (om_Config manifest) \<noteq> None then Some (BadManifest ''config'')
     else case om_Layers manifest of
        [layer] \<Rightarrow>
          (case oci_validateDescriptor (env_digests E) layer MediaTypeImageLayerGzip (lm_BlobBytes l) of
             Some e \<Rightarrow> Some e
           | None \<Rightarrow>
          if od_Platform layer \<noteq> None then Some (BadManifest ''layer'')
          else case validateAnnotations (om_Annotations manifest) (fr_PkgVersion reference) childTag
                 manifestTitle of
             Some e \<Rightarrow> Some e
           | None \<Rightarrow>
          (case first_error (\<lambda>(key, expected). if mget (om_Annotations manifest) key \<noteq> Some expected
                  then Some (AnnotationMismatch key) else None) (od_Annotations selected) of
             Some e \<Rightarrow> Some e
           | None \<Rightarrow>
          if ann (om_Annotations manifest) annotationBottleDigest \<noteq> ob_SHA256 bottleFile
          then Some (ChecksumMismatch (ann (om_Annotations manifest) annotationBottleDigest))
          else if od_Digest layer \<noteq> ''sha256:'' @ ob_SHA256 bottleFile
          then Some (ChecksumMismatch (od_Digest layer))
          else let rawSize = ann (om_Annotations manifest) annotationBottleSize;
                   titled = (if ann (od_Annotations layer) AnnotationTitle \<noteq> filename
                             then Some (AnnotationMismatch AnnotationTitle) else None)
               in if rawSize = [] then titled
                  else case parseCanonicalPositiveInt rawSize of
                      Inl e \<Rightarrow> Some e
                    | Inr annotated \<Rightarrow> if od_Size layer \<noteq> annotated then Some (BadSize rawSize) else titled))
      | layers \<Rightarrow> Some (LayerCount (length layers)))"

definition validateConfig :: "digest_lib \<Rightarrow> OImage \<Rightarrow> OPlatform \<Rightarrow> bool \<Rightarrow> oci_error option" where
  "validateConfig D config target allBottle =
     (let platform =
        (if ig_Architecture config = [] \<or> ig_OS config = [] then Some (BadConfig ''platform'')
         else if allBottle
         then if ig_Architecture config \<noteq> ''amd64'' \<and> ig_Architecture config \<noteq> ''arm64''
              then Some (BadConfig ''architecture'')
              else if ig_OS config \<noteq> ''linux'' \<and> ig_OS config \<noteq> ''darwin'' then Some (BadConfig ''os'')
              else None
         else if ig_Architecture config \<noteq> op_Architecture target \<or> ig_OS config \<noteq> op_OS target
         then Some (BadConfig ''platform'') else None)
      in case platform of
          Some e \<Rightarrow> Some e
        | None \<Rightarrow>
            if ig_RootFSType config \<noteq> ''layers'' then Some (BadConfig ''rootfs'')
            else case ig_DiffIDs config of
                [diffID] \<Rightarrow>
                  (case parseSHA256Digest D diffID of Inl e \<Rightarrow> Some e | Inr _ \<Rightarrow> None)
              | _ \<Rightarrow> Some (BadConfig ''diff_ids''))"

definition resolveDescriptorChain ::
  "oci_env \<Rightarrow> Limits \<Rightarrow> string \<Rightarrow> string \<Rightarrow> int \<Rightarrow> (string, OBottleFile) gomap \<Rightarrow> FormulaReference \<Rightarrow> OPlatform
     \<Rightarrow> string \<Rightarrow> string \<Rightarrow> annotation_check \<Rightarrow> tab_parser \<Rightarrow> (oci_error, resolvedBottle) result" where
  "resolveDescriptorChain E l formulaLabel formulaName bottleRebuild bottleFiles reference target
      indexTitle manifestTitlePrefix validateAnnotations parseTab =
     (case selectBottleFileFromMap formulaLabel bottleFiles target of
        Inl e \<Rightarrow> Inl e
      | Inr (selectedBottleTag, bottleFile) \<Rightarrow>
     (case ChildTag (fr_PkgVersion reference) selectedBottleTag bottleRebuild of
        Inl e \<Rightarrow> Inl (ReferenceError e)
      | Inr childTag \<Rightarrow>
     (case oci_BottleFilename formulaName (fr_PkgVersion reference) selectedBottleTag bottleRebuild of
        Inl e \<Rightarrow> Inl (ReferenceError e)
      | Inr filename \<Rightarrow>
     (case FetchIndex E l (fr_Repository reference) (fr_IndexTag reference) of
        Inl e \<Rightarrow> Inl e
      | Inr indexContent \<Rightarrow>
     (case env_index E (ct_Bytes indexContent) of
        None \<Rightarrow> Inl (DecodeFailed ''index'')
      | Some index \<Rightarrow>
     (case validateAndSelectIndexWith E l index reference target selectedBottleTag childTag bottleFile
             indexTitle validateAnnotations parseTab of
        Inl e \<Rightarrow> Inl e
      | Inr (selected, tab, executablePaths) \<Rightarrow>
     (case FetchManifest E l (fr_Repository reference) selected of
        Inl e \<Rightarrow> Inl e
      | Inr manifestContent \<Rightarrow>
     (case env_manifest E (ct_Bytes manifestContent) of
        None \<Rightarrow> Inl (DecodeFailed ''manifest'')
      | Some manifest \<Rightarrow>
     (case validateManifestWith E l manifest reference selected childTag filename bottleFile
             (manifestTitlePrefix @ '' '' @ childTag) validateAnnotations of
        Some e \<Rightarrow> Inl e
      | None \<Rightarrow>
     (case FetchConfig E l (fr_Repository reference) (om_Config manifest) of
        Inl e \<Rightarrow> Inl e
      | Inr configContent \<Rightarrow>
     (case env_image E (ct_Bytes configContent) of
        None \<Rightarrow> Inl (DecodeFailed ''config'')
      | Some config \<Rightarrow>
     (case validateConfig (env_digests E) config target (selectedBottleTag = BottleTagAll) of
        Some e \<Rightarrow> Inl e
      | None \<Rightarrow>
          Inr \<lparr>rb_reference = reference, rb_target = target, rb_selectedBottleTag = selectedBottleTag,
               rb_selectedChildTag = childTag, rb_filename = filename, rb_cellar = ob_Cellar bottleFile,
               rb_homebrewSHA256 = ob_SHA256 bottleFile,
               rb_index = (ct_Descriptor indexContent)\<lparr>od_Annotations := oi_Annotations index\<rparr>,
               rb_manifest = selected, rb_config = om_Config manifest, rb_layer = hd (om_Layers manifest),
               rb_tab = tab, rb_selectedAnnotations = od_Annotations selected,
               rb_manifestAnnotations = om_Annotations manifest,
               rb_executablePaths = executablePaths\<rparr>))))))))))))"

definition Client_Resolve ::
  "oci_env \<Rightarrow> Limits \<Rightarrow> OFormula \<Rightarrow> OPlatform \<Rightarrow> (oci_error, OFormula Result) result" where
  "Client_Resolve E l f target =
     (case validateTarget target of
        Some e \<Rightarrow> Inl e
      | None \<Rightarrow>
     (case ResolveFormulaReference (env_unicode E) f of
        Inl e \<Rightarrow> Inl (ReferenceError e)
      | Inr reference \<Rightarrow>
     (case resolveDescriptorChain E l (of_Name f) (of_Name f) (of_BottleRebuild f) (of_BottleFiles f)
             reference target (of_Name f) (of_Name f)
             (validateCommonAnnotations (env_unicode E) (of_Name f)) (parseBottleTab E) of
        Inl e \<Rightarrow> Inl e
      | Inr resolved \<Rightarrow> Inr \<lparr>rs_Formula = f, rs_Bottle = resolved\<rparr>)))"

definition Client_ResolveAuthenticated ::
  "oci_env \<Rightarrow> url_parser \<Rightarrow> Limits \<Rightarrow> AuthenticatedFormula \<Rightarrow> OPlatform
     \<Rightarrow> (oci_error, AuthenticatedFormula Result) result" where
  "Client_ResolveAuthenticated E P l f target =
     (case validateTarget target of
        Some e \<Rightarrow> Inl e
      | None \<Rightarrow>
     (case ResolveAuthenticatedFormulaReference (env_unicode E) P f of
        Inl e \<Rightarrow> Inl (ReferenceError e)
      | Inr reference \<Rightarrow>
     (case resolveDescriptorChain E l (FormulaID_String (ai_id (af_Identity f)))
             (FormulaID_name (ai_id (af_Identity f))) (af_BottleRebuild f) (af_BottleFiles f)
             reference target (ai_homebrewFullName (af_Identity f)) (ai_homebrewFullName (af_Identity f))
             (validateAuthenticatedCommonAnnotations (env_unicode E) (af_Identity f))
             (parseAuthenticatedBottleTab E) of
        Inl e \<Rightarrow> Inl e
      | Inr resolved \<Rightarrow> Inr \<lparr>rs_Formula = f, rs_Bottle = resolved\<rparr>)))"

definition ReplayReference :: "AuthenticatedFormula Result \<Rightarrow> string" where
  "ReplayReference r =
     (if fr_CanonicalRepository (rb_reference (rs_Bottle r)) = [] \<or> od_Digest (rb_layer (rs_Bottle r)) = []
      then []
      else fr_CanonicalRepository (rb_reference (rs_Bottle r)) @ ''@'' @ od_Digest (rb_layer (rs_Bottle r)))"

section \<open>The closure node\<close>

definition resolutionDescriptor :: "ODescriptor \<Rightarrow> Descriptor" where
  "resolutionDescriptor d =
     \<lparr>d_Digest = od_Digest d, d_Size = od_Size d, d_MediaType = od_MediaType d,
      d_Platform = map_option (\<lambda>p. \<lparr>p_OS = op_OS p, p_Architecture = op_Architecture p,
        p_Variant = op_Variant p\<rparr>) (od_Platform d),
      d_Metadata = od_Annotations d\<rparr>"

definition ResolutionBottle :: "'f Result \<Rightarrow> NodeBottle" where
  "ResolutionBottle r =
     (let b = rs_Bottle r
      in \<lparr>nb_Tag = rb_selectedBottleTag b, nb_Filename = rb_filename b,
          nb_Repository = fr_CanonicalRepository (rb_reference b),
          nb_Index = resolutionDescriptor (rb_index b), nb_Manifest = resolutionDescriptor (rb_manifest b),
          nb_Config = resolutionDescriptor (rb_config b), nb_Layer = resolutionDescriptor (rb_layer b),
          nb_HomebrewSHA256 = rb_homebrewSHA256 b, nb_Cellar = rb_cellar b, nb_Tab = rb_tab b,
          nb_SelectedAnnotations = sort (map (\<lambda>(k, v). KV k v) (rb_selectedAnnotations b))\<rparr>)"

definition dependencyRequirement :: "RuntimeDependency \<Rightarrow> Requirement" where
  "dependencyRequirement d = \<lparr>rq_Name = rd_FullName d, rq_Minimum = rd_PkgVersion d,
     rq_Revision = rd_Revision d, rq_BottleRebuild = rd_BottleRebuild d, rq_Direct = rd_DeclaredDirectly d\<rparr>"

definition ResolutionNode :: "OFormula Result \<Rightarrow> Node" where
  "ResolutionNode r =
     (let f = rs_Formula r; b = rs_Bottle r
      in \<lparr>n_Name = of_Name f, n_FullName = canonicalFullName (of_Name f),
          n_FormulaVersion = of_StableVersion f, n_FormulaRevision = of_Revision f,
          n_PkgVersion = fr_PkgVersion (rb_reference b), n_VersionScheme = of_VersionScheme f,
          n_BottleRebuild = of_BottleRebuild f, n_License = of_License f, n_KegOnly = of_KegOnly f,
          n_Dependencies = sort_key rq_Name (map dependencyRequirement (bt_Dependencies (rb_tab b))),
          n_Bottle = ResolutionBottle r, n_ExecutablePaths = rb_executablePaths b,
          n_UpstreamFormulaID = canonicalFullName (of_Name f), n_PolicyFormulaID = []\<rparr>)"

section \<open>What the steps establish\<close>

lemma validateDigest_iff: "validateDigest D s \<longleftrightarrow> (\<exists>p. parseSHA256Digest D s = Inr p)"
  by (auto simp: validateDigest_def parseSHA256Digest_def split: option.splits)

lemma selectBottleFileFromMap_Inr:
  assumes "selectBottleFileFromMap label files target = Inr (tag, file)"
  shows "targetBottleTag target = Inr tag \<and> mget files tag = Some file
      \<or> tag = BottleTagAll \<and> mget files tag = Some file
        \<and> (\<exists>t. targetBottleTag target = Inr t \<and> mget files t = None)"
    and "validBottleTag tag" and "oci_validateSHA256Hex (ob_SHA256 file) = None"
  using assms
  by (auto simp: selectBottleFileFromMap_def validateBottleFile_def split: sum.splits option.splits if_splits)

lemma selectChild_Inr:
  assumes "selectChild D limit childTag i seen sel ds = Inr (Some d)"
  shows "(sel = Some d \<or> d \<in> set ds \<and> ann (od_Annotations d) AnnotationRefName = childTag
      \<and> oci_validateDescriptor D d MediaTypeImageManifest limit = None)
    \<and> distinct (map (\<lambda>d. ann (od_Annotations d) AnnotationRefName) ds)
    \<and> set seen \<inter> set (map (\<lambda>d. ann (od_Annotations d) AnnotationRefName) ds) = {}"
  using assms
proof (induction ds arbitrary: i seen sel)
  case (Cons x ds)
  from Cons.prems have x: "oci_validateDescriptor D x MediaTypeImageManifest limit = None"
    "ann (od_Annotations x) AnnotationRefName \<notin> set seen"
    and rest: "selectChild D limit childTag (Suc i) (ann (od_Annotations x) AnnotationRefName # seen)
      (if ann (od_Annotations x) AnnotationRefName = childTag then Some x else sel) ds = Inr (Some d)"
    by (auto simp: Let_def split: option.splits if_splits)
  from Cons.IH [OF rest] x show ?case by (auto split: if_splits)
qed simp

text \<open>The child named by the tag is the only one of the index with that name.\<close>

lemma selectChild_unique:
  assumes "selectChild D limit childTag 0 [] None ds = Inr (Some d)"
  shows "filter (\<lambda>d. ann (od_Annotations d) AnnotationRefName = childTag) ds = [d]"
    and "oci_validateDescriptor D d MediaTypeImageManifest limit = None"
proof -
  have d: "d \<in> set ds" "ann (od_Annotations d) AnnotationRefName = childTag"
    "distinct (map (\<lambda>d. ann (od_Annotations d) AnnotationRefName) ds)"
    and "oci_validateDescriptor D d MediaTypeImageManifest limit = None"
    using selectChild_Inr [OF assms] by auto
  then show "oci_validateDescriptor D d MediaTypeImageManifest limit = None" by simp
  from d show "filter (\<lambda>d. ann (od_Annotations d) AnnotationRefName = childTag) ds = [d]"
  proof (induction ds)
    case (Cons x ds)
    show ?case
    proof (cases "x = d")
      case True
      with Cons.prems have "ann (od_Annotations y) AnnotationRefName \<noteq> childTag" if "y \<in> set ds" for y
        using that by (auto simp: image_iff)
      with True Cons.prems show ?thesis by (auto simp: filter_empty_conv)
    next
      case False
      with Cons.prems have "d \<in> set ds" by simp
      moreover have "ann (od_Annotations x) AnnotationRefName \<noteq> childTag"
        using Cons.prems calculation by (auto simp: image_iff)
      ultimately show ?thesis using Cons by auto
    qed
  qed simp
qed

lemma annotationsMatch_None:
  "annotationsMatch m expected = None \<longleftrightarrow> (\<forall>(k, v) \<in> set expected. ann m k = v)"
  by (auto simp: annotationsMatch_def first_error_None_iff split: if_splits)

text \<open>The chain from an index to a layer, as a predicate on the result.\<close>

definition hash_linked :: "oci_env \<Rightarrow> annotation_check \<Rightarrow> string \<Rightarrow> string \<Rightarrow> resolvedBottle \<Rightarrow> bool" where
  "hash_linked E check indexTitle titlePrefix b \<longleftrightarrow>
     (\<exists>ib i mb m. env_FromBytes E ib = od_Digest (rb_index b) \<and> int (length ib) = od_Size (rb_index b)
        \<and> env_index E ib = Some i
        \<and> filter (\<lambda>d. ann (od_Annotations d) AnnotationRefName = rb_selectedChildTag b) (oi_Manifests i)
            = [rb_manifest b]
        \<and> check (oi_Annotations i) (fr_PkgVersion (rb_reference b)) (fr_IndexTag (rb_reference b)) indexTitle
            = None
        \<and> env_FromBytes E mb = od_Digest (rb_manifest b) \<and> env_manifest E mb = Some m
        \<and> om_Layers m = [rb_layer b] \<and> om_Config m = rb_config b
        \<and> check (om_Annotations m) (fr_PkgVersion (rb_reference b)) (rb_selectedChildTag b)
            (titlePrefix @ '' '' @ rb_selectedChildTag b) = None)"

definition bottle_verified :: "oci_env \<Rightarrow> Limits \<Rightarrow> OPlatform \<Rightarrow> resolvedBottle \<Rightarrow> bool" where
  "bottle_verified E l target b \<longleftrightarrow>
     oci_validateSHA256Hex (rb_homebrewSHA256 b) = None
     \<and> od_Digest (rb_layer b) = ''sha256:'' @ rb_homebrewSHA256 b
     \<and> od_MediaType (rb_index b) = MediaTypeImageIndex \<and> od_Platform (rb_index b) = None
     \<and> oci_validateDescriptor (env_digests E) (rb_manifest b) MediaTypeImageManifest (lm_ManifestBytes l) = None
     \<and> oci_validateDescriptor (env_digests E) (rb_config b) MediaTypeImageConfig (lm_ConfigBytes l) = None
     \<and> oci_validateDescriptor (env_digests E) (rb_layer b) MediaTypeImageLayerGzip (lm_BlobBytes l) = None
     \<and> validateSelectedPlatform (od_Platform (rb_manifest b)) target (rb_selectedBottleTag b = BottleTagAll) = None"

lemma validateAndSelectIndexWith_Inr:
  assumes "validateAndSelectIndexWith E l i ref target tag childTag bf title check parseTab
      = Inr (d, tab, paths)"
  shows "check (oi_Annotations i) (fr_PkgVersion ref) (fr_IndexTag ref) title = None"
    and "filter (\<lambda>d. ann (od_Annotations d) AnnotationRefName = childTag) (oi_Manifests i) = [d]"
    and "oci_validateDescriptor (env_digests E) d MediaTypeImageManifest (lm_ManifestBytes l) = None"
    and "validateSelectedPlatform (od_Platform d) target (tag = BottleTagAll) = None"
    and "parseTab (ann (od_Annotations d) annotationBottleTab) target (tag = BottleTagAll) = Inr tab"
    and "parseExecutablePaths (ann (od_Annotations d) annotationPathExecFiles) = Inr paths"
proof -
  have sel: "selectChild (env_digests E) (lm_ManifestBytes l) childTag 0 [] None (oi_Manifests i) = Inr (Some d)"
    and "check (oi_Annotations i) (fr_PkgVersion ref) (fr_IndexTag ref) title = None"
    and "validateSelectedPlatform (od_Platform d) target (tag = BottleTagAll) = None"
    and "parseTab (ann (od_Annotations d) annotationBottleTab) target (tag = BottleTagAll) = Inr tab"
    and "parseExecutablePaths (ann (od_Annotations d) annotationPathExecFiles) = Inr paths"
    using assms unfolding validateAndSelectIndexWith_def
    by (simp_all split: if_split_asm sum.split_asm option.split_asm)
  with selectChild_unique [OF sel]
  show "check (oi_Annotations i) (fr_PkgVersion ref) (fr_IndexTag ref) title = None"
    "filter (\<lambda>d. ann (od_Annotations d) AnnotationRefName = childTag) (oi_Manifests i) = [d]"
    "oci_validateDescriptor (env_digests E) d MediaTypeImageManifest (lm_ManifestBytes l) = None"
    "validateSelectedPlatform (od_Platform d) target (tag = BottleTagAll) = None"
    "parseTab (ann (od_Annotations d) annotationBottleTab) target (tag = BottleTagAll) = Inr tab"
    "parseExecutablePaths (ann (od_Annotations d) annotationPathExecFiles) = Inr paths" by simp_all
qed

lemma validateManifestWith_None:
  assumes "validateManifestWith E l m ref selected childTag filename bf title check = None"
  obtains layer where "om_Layers m = [layer]" and "od_Digest layer = ''sha256:'' @ ob_SHA256 bf"
    and "oci_validateDescriptor (env_digests E) layer MediaTypeImageLayerGzip (lm_BlobBytes l) = None"
    and "oci_validateDescriptor (env_digests E) (om_Config m) MediaTypeImageConfig (lm_ConfigBytes l) = None"
    and "check (om_Annotations m) (fr_PkgVersion ref) childTag title = None"
    and "\<forall>(k, v) \<in> set (od_Annotations selected). mget (om_Annotations m) k = Some v"
proof -
  obtain layer where layer: "om_Layers m = [layer]"
    using assms unfolding validateManifestWith_def
    by (auto split: if_split_asm option.split_asm list.split_asm)
  show ?thesis
  proof (rule that [OF layer])
    show "od_Digest layer = ''sha256:'' @ ob_SHA256 bf"
      "oci_validateDescriptor (env_digests E) layer MediaTypeImageLayerGzip (lm_BlobBytes l) = None"
      "oci_validateDescriptor (env_digests E) (om_Config m) MediaTypeImageConfig (lm_ConfigBytes l) = None"
      "check (om_Annotations m) (fr_PkgVersion ref) childTag title = None"
      using assms unfolding validateManifestWith_def layer
      by (simp_all split: if_split_asm option.split_asm)
    have "first_error (\<lambda>(key, expected). if mget (om_Annotations m) key \<noteq> Some expected
        then Some (AnnotationMismatch key) else None) (od_Annotations selected) = None"
      using assms unfolding validateManifestWith_def layer
      by (simp split: if_split_asm option.split_asm)
    then show "\<forall>(k, v) \<in> set (od_Annotations selected). mget (om_Annotations m) k = Some v"
      by (auto simp: first_error_None_iff split: if_splits)
  qed
qed

lemma resolveDescriptorChain_Inr:
  assumes "resolveDescriptorChain E l label name rebuild files ref target title titlePrefix check parseTab = Inr b"
  obtains bf where "selectBottleFileFromMap label files target = Inr (rb_selectedBottleTag b, bf)"
    and "rb_homebrewSHA256 b = ob_SHA256 bf" and "rb_cellar b = ob_Cellar bf" and "rb_reference b = ref"
    and "oci_BottleFilename name (fr_PkgVersion ref) (rb_selectedBottleTag b) rebuild = Inr (rb_filename b)"
    and "parseTab (ann (od_Annotations (rb_manifest b)) annotationBottleTab) target
      (rb_selectedBottleTag b = BottleTagAll) = Inr (rb_tab b)"
    and "hash_linked E check title titlePrefix b" and "bottle_verified E l target b"
proof -
  from assms obtain tag bf childTag filename ic i d tab paths mc m cc img
    where sel: "selectBottleFileFromMap label files target = Inr (tag, bf)"
    and child: "ChildTag (fr_PkgVersion ref) tag rebuild = Inr childTag"
    and fname: "oci_BottleFilename name (fr_PkgVersion ref) tag rebuild = Inr filename"
    and ic: "FetchIndex E l (fr_Repository ref) (fr_IndexTag ref) = Inr ic"
    and i: "env_index E (ct_Bytes ic) = Some i"
    and d: "validateAndSelectIndexWith E l i ref target tag childTag bf title check parseTab = Inr (d, tab, paths)"
    and mc: "FetchManifest E l (fr_Repository ref) d = Inr mc" and m: "env_manifest E (ct_Bytes mc) = Some m"
    and man: "validateManifestWith E l m ref d childTag filename bf (titlePrefix @ '' '' @ childTag) check = None"
    and b: "b = \<lparr>rb_reference = ref, rb_target = target, rb_selectedBottleTag = tag,
               rb_selectedChildTag = childTag, rb_filename = filename, rb_cellar = ob_Cellar bf,
               rb_homebrewSHA256 = ob_SHA256 bf,
               rb_index = (ct_Descriptor ic)\<lparr>od_Annotations := oi_Annotations i\<rparr>,
               rb_manifest = d, rb_config = om_Config m, rb_layer = hd (om_Layers m),
               rb_tab = tab, rb_selectedAnnotations = od_Annotations d,
               rb_manifestAnnotations = om_Annotations m, rb_executablePaths = paths\<rparr>"
    unfolding resolveDescriptorChain_def
    by (simp split: sum.split_asm option.split_asm prod.split_asm)
  from validateManifestWith_None [OF man] obtain layer where layer: "om_Layers m = [layer]"
    "od_Digest layer = ''sha256:'' @ ob_SHA256 bf"
    "oci_validateDescriptor (env_digests E) layer MediaTypeImageLayerGzip (lm_BlobBytes l) = None"
    "oci_validateDescriptor (env_digests E) (om_Config m) MediaTypeImageConfig (lm_ConfigBytes l) = None"
    "check (om_Annotations m) (fr_PkgVersion ref) childTag (titlePrefix @ '' '' @ childTag) = None" .
  have "fetchManifest E (fr_Repository ref) (fr_IndexTag ref) None MediaTypeImageIndex (lm_IndexBytes l) = Inr ic"
    using ic by (simp add: FetchIndex_def split: if_splits)
  note ic' = fetchManifest_Inr [OF this, simplified]
  note idx = validateAndSelectIndexWith_Inr [OF d]
  from manifests.fetch_verified [OF mc] have mb: "env_FromBytes E (ct_Bytes mc) = od_Digest d"
    by (simp add: verified_def)
  have linked: "hash_linked E check title titlePrefix b"
    unfolding hash_linked_def b resolvedBottle.select_convs ODescriptor.simps
    using ic' i idx(1,2) mb m layer(1,5) by (intro exI conjI) simp_all
  have verified: "bottle_verified E l target b"
    unfolding bottle_verified_def b
    using ic' idx(3,4) layer selectBottleFileFromMap_Inr(3) [OF sel] by simp
  show ?thesis
    by (rule that [of bf]) (use sel fname idx(5) linked verified in \<open>simp_all add: b\<close>)
qed

lemma tabDependency_name:
  "tabDependency E canon seen w = Inr d \<Longrightarrow> canon (rw_FullName w) = Inr (rd_FullName d) \<and> rd_FullName d \<notin> set seen"
  by (auto simp: tabDependency_def split: sum.split_asm if_split_asm option.split_asm)

lemma tabDependencies_names:
  assumes "tabDependencies E canon seen ws = Inr ds"
  shows "map_result (\<lambda>w. canon (rw_FullName w)) ws = Inr (map rd_FullName ds)
    \<and> distinct (map rd_FullName ds) \<and> set seen \<inter> set (map rd_FullName ds) = {}"
  using assms
proof (induction ws arbitrary: seen ds)
  case (Cons w ws)
  then obtain d ds' where d: "tabDependency E canon seen w = Inr d" "ds = d # ds'"
    and rest: "tabDependencies E canon (rd_FullName d # seen) ws = Inr ds'"
    by (auto split: sum.split_asm)
  from Cons.IH [OF rest] tabDependency_name [OF d(1)] show ?case by (auto simp: d(2))
qed simp

lemma parseBottleTabWith_Inr:
  assumes "parseBottleTabWith E canon v target allBottle = Inr tab"
  shows "bt_Arch tab = (if allBottle then [] else if op_Architecture target = ''arm64'' then ''arm64'' else ''x86_64'')"
    and "sorted (map rd_FullName (bt_Dependencies tab))" and "distinct (map rd_FullName (bt_Dependencies tab))"
    and "d \<in> set (bt_Dependencies tab) \<Longrightarrow> \<exists>full. canon full = Inr (rd_FullName d)"
proof -
  from assms obtain wire ds ch where pl: "tabPlatform wire target allBottle = None"
    and ds: "tabDependencies E canon [] (tw_Dependencies wire) = Inr ds"
    and tab: "bt_Arch tab = tw_Arch wire" "bt_Dependencies tab = sort_key rd_FullName ds"
    unfolding parseBottleTabWith_def by (auto split: sum.split_asm option.split_asm if_split_asm)
  from pl show "bt_Arch tab = (if allBottle then []
      else if op_Architecture target = ''arm64'' then ''arm64'' else ''x86_64'')"
    by (auto simp: tabPlatform_def tab Let_def split: if_split_asm)
  note names = tabDependencies_names [OF ds]
  show "sorted (map rd_FullName (bt_Dependencies tab))" by (simp add: tab)
  have "mset (map rd_FullName (bt_Dependencies tab)) = mset (map rd_FullName ds)" by (simp add: tab)
  with names show "distinct (map rd_FullName (bt_Dependencies tab))" by (metis mset_eq_imp_distinct_iff)
  assume "d \<in> set (bt_Dependencies tab)"
  then have "rd_FullName d \<in> set (map rd_FullName ds)" by (simp add: tab)
  with names show "\<exists>full. canon full = Inr (rd_FullName d)"
    by (fastforce simp: map_result_Inr_iff list_all2_conv_all_nth in_set_conv_nth)
qed

lemma canonicalDependencyName_Inr:
  "canonicalDependencyName full = Inr name \<Longrightarrow> oci_validateFormulaName name = None"
  by (auto simp: canonicalDependencyName_def Let_def split: if_split_asm option.split_asm)

lemma ResolveFormulaReference_Inr:
  assumes "ResolveFormulaReference U f = Inr ref"
  shows "fr_CanonicalRepository ref \<noteq> []" and "fr_PkgVersion ref = PkgVersion (of_StableVersion f) (of_Revision f)"
    and "of_StableVersion f \<noteq> []" and "fr_PkgVersion ref \<noteq> []" and "of_Name f \<noteq> []"
proof -
  from assms obtain p where ok: "validateFormulaIdentity f = None"
    and p: "oci_PkgVersion (of_StableVersion f) (of_Revision f) = Inr p" "fr_PkgVersion ref = p"
    and "fr_CanonicalRepository ref \<noteq> []"
    by (auto simp: ResolveFormulaReference_def split: option.splits sum.splits)
  with oci_PkgVersion_Inr [OF p(1)]
  show "fr_CanonicalRepository ref \<noteq> []" "fr_PkgVersion ref = PkgVersion (of_StableVersion f) (of_Revision f)"
    "of_StableVersion f \<noteq> []" "fr_PkgVersion ref \<noteq> []" by auto
  show "of_Name f \<noteq> []"
    using ok formulaName_safe [of "of_Name f"] by (auto simp: validateFormulaIdentity_def split: option.splits)
qed

lemma Client_Resolve_Inr:
  assumes "Client_Resolve E l f target = Inr r"
  obtains ref where "rs_Formula r = f" and "validateTarget target = None"
    and "ResolveFormulaReference (env_unicode E) f = Inr ref"
    and "resolveDescriptorChain E l (of_Name f) (of_Name f) (of_BottleRebuild f) (of_BottleFiles f)
      ref target (of_Name f) (of_Name f) (validateCommonAnnotations (env_unicode E) (of_Name f))
      (parseBottleTab E) = Inr (rs_Bottle r)"
  using assms by (auto simp: Client_Resolve_def split: option.split_asm sum.split_asm)

lemma lower_hex_plain:
  "oci_validateSHA256Hex h = None \<Longrightarrow> \<forall>c \<in> set h. byte c < 128 \<and> \<not> (65 \<le> byte c \<and> byte c \<le> 90)"
  by (auto simp: oci_validateSHA256Hex_def list_all_iff lower_hex_char_def ascii_digit_byte less_eq_char_def
      split: if_splits)

lemma lower_hex_valid: "oci_validateSHA256Hex h = None \<Longrightarrow> validateSHA256Hex h"
  by (auto simp: oci_validateSHA256Hex_def validateSHA256Hex_def hex_ok_def list_all_iff lower_hex_char_def
      hex_char_def split: if_splits)

lemma media_types_visible:
  "trim_space MediaTypeImageIndex \<noteq> []" "trim_space MediaTypeImageManifest \<noteq> []"
  "trim_space MediaTypeImageConfig \<noteq> []" "trim_space MediaTypeImageLayerGzip \<noteq> []"
  unfolding MediaTypeImageIndex_def MediaTypeImageManifest_def MediaTypeImageConfig_def
    MediaTypeImageLayerGzip_def
  by (rule trim_space_solid; simp add: ascii_def unicode_IsSpace_def)+

lemma resolved_descriptors_valid:
  assumes "bottle_verified E l target b" and "hash_linked E check title titlePrefix b"
    and "\<And>bytes. validateDigest (env_digests E) (env_FromBytes E bytes)" and "env_index E [] = None"
  shows "validateDescriptor (env_digests E) (resolutionDescriptor (rb_index b))"
    and "validateDescriptor (env_digests E) (resolutionDescriptor (rb_manifest b))"
    and "validateDescriptor (env_digests E) (resolutionDescriptor (rb_config b))"
    and "validateDescriptor (env_digests E) (resolutionDescriptor (rb_layer b))"
proof -
  from assms(2) obtain ib where ib: "env_FromBytes E ib = od_Digest (rb_index b)"
    "int (length ib) = od_Size (rb_index b)" "env_index E ib \<noteq> None"
    unfolding hash_linked_def by blast
  with assms(4) have "0 < od_Size (rb_index b)" by (cases ib) auto
  with ib(1) assms(1) assms(3) [of ib] media_types_visible
  show "validateDescriptor (env_digests E) (resolutionDescriptor (rb_index b))"
    by (simp add: validateDescriptor_def resolutionDescriptor_def bottle_verified_def)
  have other: "validateDescriptor (env_digests E) (resolutionDescriptor d)"
    if "oci_validateDescriptor (env_digests E) d mt limit = None" "trim_space mt \<noteq> []" for d mt limit
  proof -
    have "trim_space [] = []" by (simp add: trim_space_def)
    with that show ?thesis
      by (auto simp: validateDescriptor_def resolutionDescriptor_def oci_validateDescriptor_None
          validateDigest_iff)
  qed
  from assms(1) other media_types_visible
  show "validateDescriptor (env_digests E) (resolutionDescriptor (rb_manifest b))"
    and "validateDescriptor (env_digests E) (resolutionDescriptor (rb_config b))"
    and "validateDescriptor (env_digests E) (resolutionDescriptor (rb_layer b))"
    unfolding bottle_verified_def by blast+
qed

lemma resolved_bottle_errors:
  assumes "validateTarget target = None" and "bottle_verified E l target b" and "validBottleTag (rb_selectedBottleTag b)"
    and "rb_selectedBottleTag b = BottleTagAll \<or> targetBottleTag target = Inr (rb_selectedBottleTag b)"
    and "parseBottleTab E v target (rb_selectedBottleTag b = BottleTagAll) = Inr (rb_tab b)"
  shows "bottleErrors \<lparr>p_OS = op_OS target, p_Architecture = op_Architecture target, p_Variant = op_Variant target\<rparr>
      (n\<lparr>n_Bottle := ResolutionBottle \<lparr>rs_Formula = f, rs_Bottle = b\<rparr>\<rparr>) = []"
proof -
  note arch = parseBottleTabWith_Inr(1) [OF assms(5) [unfolded parseBottleTab_def]]
  have platform: "validateSelectedPlatform (od_Platform (rb_manifest b)) target
      (rb_selectedBottleTag b = BottleTagAll) = None" using assms(2) by (simp add: bottle_verified_def)
  show ?thesis
  proof (cases "rb_selectedBottleTag b = BottleTagAll")
    case True
    with arch platform show ?thesis
      by (simp add: bottleErrors_def Let_def ResolutionBottle_def resolutionDescriptor_def BottleTagAll_def
          validateSelectedPlatform_def err_if_def split: if_splits)
  next
    case False
    with assms(1,4) have tag: "rb_selectedBottleTag b =
        (if op_Architecture target = ''arm64'' then ''arm64_linux'' else ''x86_64_linux'')"
      by (auto simp: targetBottleTag_def BottleTagARM64Linux_def BottleTagX8664Linux_def)
    from platform False obtain p where p: "od_Platform (rb_manifest b) = Some p" "op_OS p = op_OS target"
      "op_Architecture p = op_Architecture target" "op_Variant p = []"
      by (auto simp: validateSelectedPlatform_def split: option.split_asm if_split_asm)
    have "op_OS target = ''linux''" using assms(1) by (simp add: validateTarget_def split: if_splits)
    with False arch tag p show ?thesis
      by (simp add: bottleErrors_def Let_def ResolutionBottle_def resolutionDescriptor_def err_if_def)
  qed
qed

lemma duplicateErrors_Nil_iff:
  "duplicateErrors name seen ds = [] \<longleftrightarrow>
     [] \<notin> rq_Name ` set ds \<and> distinct (map rq_Name ds) \<and> set seen \<inter> rq_Name ` set ds = {}"
  by (induction name seen ds rule: duplicateErrors.induct) (auto simp: err_if_def)

text \<open>
  The contract between the registry and the resolver: a node made from a resolved bottle passes every
  check the replay record makes of a node, whatever dependencies the resolver gives it.
\<close>

definition platform_of :: "OPlatform \<Rightarrow> Platform" where
  "platform_of target = \<lparr>p_OS = op_OS target, p_Architecture = op_Architecture target, p_Variant = op_Variant target\<rparr>"

definition digests_ok :: "oci_env \<Rightarrow> bool" where
  "digests_ok E \<longleftrightarrow> (\<forall>bytes. validateDigest (env_digests E) (env_FromBytes E bytes)) \<and> env_index E [] = None
     \<and> ascii_conform (env_unicode E)"

lemma resolved_node_ok:
  assumes run: "Client_Resolve E l f target = Inr r" and "digests_ok E"
    and fresh: "\<not> mhas nodes (of_Name f)" and ds: "[] \<notin> rq_Name ` set ds" "distinct (map rq_Name ds)"
  shows "nodeErrors (env_unicode E) (env_digests E) (platform_of target) nodes
      ((ResolutionNode r)\<lparr>n_Dependencies := ds\<rparr>) = []"
proof -
  obtain ref where r: "rs_Formula r = f" and t: "validateTarget target = None"
    and ref: "ResolveFormulaReference (env_unicode E) f = Inr ref"
    and chain: "resolveDescriptorChain E l (of_Name f) (of_Name f) (of_BottleRebuild f) (of_BottleFiles f)
      ref target (of_Name f) (of_Name f) (validateCommonAnnotations (env_unicode E) (of_Name f))
      (parseBottleTab E) = Inr (rs_Bottle r)" by (rule Client_Resolve_Inr [OF run])
  let ?b = "rs_Bottle r"
  obtain bf where bf: "selectBottleFileFromMap (of_Name f) (of_BottleFiles f) target = Inr (rb_selectedBottleTag ?b, bf)"
    "rb_reference ?b = ref"
    "oci_BottleFilename (of_Name f) (fr_PkgVersion ref) (rb_selectedBottleTag ?b) (of_BottleRebuild f) = Inr (rb_filename ?b)"
    "parseBottleTab E (ann (od_Annotations (rb_manifest ?b)) annotationBottleTab) target
      (rb_selectedBottleTag ?b = BottleTagAll) = Inr (rb_tab ?b)"
    "hash_linked E (validateCommonAnnotations (env_unicode E) (of_Name f)) (of_Name f) (of_Name f) ?b"
    "bottle_verified E l target ?b"
    by (rule resolveDescriptorChain_Inr [OF chain])
  note sel = selectBottleFileFromMap_Inr [OF bf(1)] and fname = oci_BottleFilename_Inr [OF bf(3)]
    and reff = ResolveFormulaReference_Inr [OF ref]
  have conform: "ascii_conform (env_unicode E)" and H: "\<And>bytes. validateDigest (env_digests E) (env_FromBytes E bytes)"
    and empty: "env_index E [] = None" using assms(2) by (simp_all add: digests_ok_def)
  note desc = resolved_descriptors_valid [OF bf(6,5) H empty]
  have hex: "oci_validateSHA256Hex (rb_homebrewSHA256 ?b) = None" using bf(6) by (simp add: bottle_verified_def)
  have lower: "to_lower (env_unicode E) (rb_homebrewSHA256 ?b) = rb_homebrewSHA256 ?b"
    by (rule to_lower_id(1) [OF conform lower_hex_plain [OF hex]])
  let ?n = "(ResolutionNode r)\<lparr>n_Dependencies := ds\<rparr>"
  have bottle: "bottleErrors (platform_of target) ?n = []"
  proof -
    have "rb_selectedBottleTag ?b = BottleTagAll \<or> targetBottleTag target = Inr (rb_selectedBottleTag ?b)"
      using sel(1) by blast
    from resolved_bottle_errors [OF t bf(6) sel(2) this bf(4), where n = ?n and f = "rs_Formula r"]
    moreover have "\<lparr>rs_Formula = rs_Formula r, rs_Bottle = ?b\<rparr> = r" by simp
    ultimately show ?thesis by (simp only:) (simp add: platform_of_def ResolutionNode_def Let_def)
  qed
  have fields: "n_Name ?n = of_Name f" "n_FullName ?n = ''homebrew/core/'' @ of_Name f"
    "n_FormulaVersion ?n = of_StableVersion f" "n_PkgVersion ?n = fr_PkgVersion ref"
    "nb_Filename (n_Bottle ?n) = rb_filename ?b" "nb_Repository (n_Bottle ?n) = fr_CanonicalRepository ref"
    "nb_Tag (n_Bottle ?n) = rb_selectedBottleTag ?b" "nb_Index (n_Bottle ?n) = resolutionDescriptor (rb_index ?b)"
    "nb_Manifest (n_Bottle ?n) = resolutionDescriptor (rb_manifest ?b)"
    "nb_Config (n_Bottle ?n) = resolutionDescriptor (rb_config ?b)"
    "nb_Layer (n_Bottle ?n) = resolutionDescriptor (rb_layer ?b)"
    "nb_HomebrewSHA256 (n_Bottle ?n) = rb_homebrewSHA256 ?b" "n_Dependencies ?n = ds"
    by (simp_all add: ResolutionNode_def Let_def ResolutionBottle_def bf(2) r canonicalFullName_def
        HomebrewCoreRepository_def)
  have layer: "d_Digest (resolutionDescriptor (rb_layer ?b)) = ''sha256:'' @ rb_homebrewSHA256 ?b"
    using bf(6) by (simp add: resolutionDescriptor_def bottle_verified_def)
  have "duplicateErrors (of_Name f) [] ds = []" using ds by (simp add: duplicateErrors_Nil_iff)
  then show ?thesis
    unfolding nodeErrors_def Let_def fields bottle layer lower
    using reff(1,3,4,5) fname sel(2) validBottleTag_plain fresh desc lower_hex_valid [OF hex]
    by (auto simp: err_if_def has_slash_def)
qed

section \<open>A registry for which a resolution succeeds\<close>

definition sample_target :: OPlatform where
  "sample_target = \<lparr>op_Architecture = ''amd64'', op_OS = ''linux'', op_OSVersion = [], op_OSFeatures = [],
     op_Variant = []\<rparr>"

lemmas annotation_names = AnnotationRefName_def AnnotationTitle_def AnnotationVersion_def
  AnnotationVendor_def AnnotationSource_def AnnotationRevision_def annotationPackageType_def
  annotationBottleDigest_def annotationBottleSize_def annotationBottleTab_def annotationPathExecFiles_def
  homebrewBottlePackageType_def

lemma sample_parseTab:
  "\<exists>tab. parseBottleTabWith (sample_registry title extra) canon ''t'' sample_target False = Inr tab"
proof -
  have "trim_space ''r'' \<noteq> ''null''" "trim_space ''4'' \<noteq> []"
    by (simp_all add: trim_space_ascii ascii_def unicode_IsSpace_def)
  then show ?thesis
    by (simp add: parseBottleTabWith_def sample_registry_def sample_env_fields mhas_def sample_tab_def
        tabPlatform_def sample_target_def validateChangedFiles_def)
qed

lemma sample_FetchConfig:
  "FetchConfig (sample_registry title extra) DefaultLimits ''homebrew/core/jq''
      (sample_odescriptor MediaTypeImageConfig ''3'')
    = Inr \<lparr>ct_Descriptor = sample_odescriptor MediaTypeImageConfig ''3'', ct_Bytes = ''3''\<rparr>"
proof -
  let ?d = "sample_odescriptor MediaTypeImageConfig ''3''"
  have desc: "oci_validateDescriptor sample_digests ?d MediaTypeImageConfig (lm_ConfigBytes DefaultLimits) = None"
    "oci_validateDescriptor sample_digests ?d [] (lm_ConfigBytes DefaultLimits) = None"
    by (simp_all add: oci_validateDescriptor_None sample_odescriptor_def sample_hash_parses DefaultLimits_def
        MediaTypeImageConfig_def)
  have url: "registryURL (sample_registry title extra) ''homebrew/core/jq'' ''blobs'' (sample_hash ''3'') =
      Inr (''/v2/homebrew/core/jq/blobs/'' @ sample_hash ''3'')"
    using sample_hash_plain [of "''3''"] sample_repository_valid
    by (simp add: registryURL_def sample_registry_def sample_env_fields trim_suffix_def sample_hash_facts)
  have http: "sample_http (''/v2/homebrew/core/jq/blobs/'' @ sample_hash ''3'') ''application/octet-stream''
      = Some (sample_response ''application/octet-stream'' ''3'')"
    by (simp add: sample_http_def)
  have trim: "trim_space [] = []" by (simp add: trim_space_def)
  have env: "env_http (sample_registry title extra) = sample_http"
    "env_FromBytes (sample_registry title extra) = sample_hash"
    "env_digests (sample_registry title extra) = sample_digests"
    by (simp_all add: sample_registry_def sample_env_fields)
  have resp: "hr_StatusCode (sample_response m ''3'') = 200" "hr_Body (sample_response m ''3'') = ''3''"
    "hr_BodyFails (sample_response m ''3'') = False" "validateIdentityEncoding (sample_response m ''3'') = None"
    "hr_ContentLength (sample_response m ''3'') = 1" for m
    using trim by (simp_all add: sample_response_def validateIdentityEncoding_def)
  have dd: "od_Size ?d = 1" "od_Digest ?d = sample_hash ''3''" by (simp_all add: sample_odescriptor_def)
  show ?thesis
    unfolding FetchConfig_def fetchBlobTo_def env desc option.case url dd sum.case http resp
      validateContentLength_def
    by (simp add: DefaultLimits_def dd)
qed

lemma sample_bottle_file:
  "selectBottleFileFromMap label (of_BottleFiles sample_oformula) sample_target
    = Inr (''x86_64_linux'', \<lparr>ob_Cellar = '':any'', ob_SHA256 = sample_sha256\<rparr>)"
proof -
  have "trim_space '':any'' \<noteq> []" by (rule trim_space_solid) (simp_all add: ascii_def unicode_IsSpace_def)
  moreover have "oci_validateSHA256Hex sample_sha256 = None"
    by (simp add: oci_validateSHA256Hex_def sample_sha256_def list_all_iff lower_hex_char_def less_eq_char_def)
  ultimately show ?thesis
    by (simp add: selectBottleFileFromMap_def targetBottleTag_def validateTarget_def sample_target_def
        sample_oformula_def BottleTagX8664Linux_def validateBottleFile_def validBottleTag_def
        sample_sha256_def [symmetric])
qed

lemma sample_select:
  assumes "check (sample_common title ''1.7_1-2'' extra) ''1.7_1'' ''1.7_1-2'' title = None"
    and "fr_PkgVersion ref = ''1.7_1''" and "fr_IndexTag ref = ''1.7_1-2''"
    and "parseTab ''t'' sample_target False = Inr tab"
  shows "validateAndSelectIndexWith (sample_registry title extra) DefaultLimits (sample_index title extra) ref
      sample_target ''x86_64_linux'' ''1.7_1.x86_64_linux.2'' \<lparr>ob_Cellar = '':any'', ob_SHA256 = sample_sha256\<rparr>
      title check parseTab = Inr (sample_child, tab, [])"
proof -
  have desc: "oci_validateDescriptor sample_digests sample_child MediaTypeImageManifest (lm_ManifestBytes DefaultLimits) = None"
    by (simp add: oci_validateDescriptor_None sample_child_def sample_odescriptor_def sample_hash_parses
        DefaultLimits_def MediaTypeImageManifest_def)
  have anns: "ann (od_Annotations sample_child) AnnotationRefName = ''1.7_1.x86_64_linux.2''"
    "ann (od_Annotations sample_child) annotationBottleDigest = sample_sha256"
    "ann (od_Annotations sample_child) annotationBottleTab = ''t''"
    "ann (od_Annotations sample_child) annotationBottleSize = []"
    "ann (od_Annotations sample_child) annotationPathExecFiles = []"
    by (simp_all add: ann_def sample_child_def annotation_names)
  have "validateSelectedPlatform (od_Platform sample_child) sample_target False = None"
    by (simp add: validateSelectedPlatform_def sample_child_def sample_target_def)
  moreover have "validateSelectedAnnotations (od_Annotations sample_child)
      \<lparr>ob_Cellar = '':any'', ob_SHA256 = sample_sha256\<rparr> (lm_BlobBytes DefaultLimits) ''1.7_1.x86_64_linux.2'' = None"
  proof -
    have "trim_space ''t'' \<noteq> []" by (rule trim_space_solid) (simp_all add: ascii_def unicode_IsSpace_def)
    moreover have "oci_validateSHA256Hex sample_sha256 = None"
      by (simp add: oci_validateSHA256Hex_def sample_sha256_def list_all_iff lower_hex_char_def less_eq_char_def)
    ultimately show ?thesis by (simp add: validateSelectedAnnotations_def anns)
  qed
  ultimately show ?thesis
    using assms desc
    by (simp add: validateAndSelectIndexWith_def sample_index_def sample_registry_def sample_env_fields anns
        BottleTagAll_def parseExecutablePaths_def)
qed

lemma sample_validateManifest:
  assumes "check (sample_common (title @ '' 1.7_1.x86_64_linux.2'') ''1.7_1.x86_64_linux.2''
      (extra @ [(annotationBottleDigest, sample_sha256), (annotationBottleTab, ''t'')]))
      ''1.7_1'' ''1.7_1.x86_64_linux.2'' (title @ '' '' @ ''1.7_1.x86_64_linux.2'') = None"
    and "fr_PkgVersion ref = ''1.7_1''" and "set (mkeys extra) \<subseteq> {AnnotationVendor, AnnotationSource, AnnotationRevision}"
  shows "validateManifestWith (sample_registry title extra) DefaultLimits (sample_manifest title extra) ref sample_child
      ''1.7_1.x86_64_linux.2'' ''jq--1.7_1.x86_64_linux.bottle.2.tar.gz''
      \<lparr>ob_Cellar = '':any'', ob_SHA256 = sample_sha256\<rparr> (title @ '' '' @ ''1.7_1.x86_64_linux.2'') check = None"
proof -
  let ?m = "om_Annotations (sample_manifest title extra)"
  have extra: "mget extra k = None" if "k \<notin> {AnnotationVendor, AnnotationSource, AnnotationRevision}" for k
    using assms(3) that by (auto simp: map_of_eq_None_iff)
  have anns: "mget ?m AnnotationRefName = Some ''1.7_1.x86_64_linux.2''"
    "mget ?m annotationBottleDigest = Some sample_sha256" "mget ?m annotationBottleTab = Some ''t''"
    "mget ?m annotationBottleSize = None"
    using extra [of annotationBottleDigest] extra [of annotationBottleTab] extra [of annotationBottleSize]
    by (simp_all add: sample_manifest_def sample_common_def annotation_names map_add_def)
  have sha: "sample_hash ''a'' = ''sha256:'' @ sample_sha256" by (simp add: sample_hash_def sample_sha256_def)
  have desc: "oci_validateDescriptor sample_digests (sample_odescriptor mt b) mt 1048576 = None"
    "oci_validateDescriptor sample_digests ((sample_odescriptor mt b)\<lparr>od_Annotations := a\<rparr>) mt 8589934592 = None"
    if "mt \<noteq> []" for mt b a
    using that by (simp_all add: oci_validateDescriptor_None sample_odescriptor_def sample_hash_parses)
  have layer: "om_Layers (sample_manifest title extra) = [(sample_odescriptor MediaTypeImageLayerGzip ''a'')
       \<lparr>od_Annotations := [(AnnotationTitle, ''jq--1.7_1.x86_64_linux.bottle.2.tar.gz'')]\<rparr>]"
    "om_Config (sample_manifest title extra) = sample_odescriptor MediaTypeImageConfig ''3''"
    "om_SchemaVersion (sample_manifest title extra) = 2" "om_MediaType (sample_manifest title extra) = []"
    "om_ArtifactType (sample_manifest title extra) = []" "om_Subject (sample_manifest title extra) = None"
    by (simp_all add: sample_manifest_def)
  have env: "env_digests (sample_registry title extra) = sample_digests"
    by (simp add: sample_registry_def sample_env_fields)
  have check: "check ?m ''1.7_1'' ''1.7_1.x86_64_linux.2'' (title @ '' '' @ ''1.7_1.x86_64_linux.2'') = None"
    using assms(1) by (simp add: sample_manifest_def)
  have keys: "first_error (\<lambda>(key, expected). if mget ?m key \<noteq> Some expected
        then Some (AnnotationMismatch key) else None) (od_Annotations sample_child) = None"
    by (simp add: sample_child_def anns)
  have limits: "lm_ConfigBytes DefaultLimits = 1048576" "lm_BlobBytes DefaultLimits = 8589934592"
    by (simp_all add: DefaultLimits_def)
  have types: "MediaTypeImageConfig \<noteq> []" "MediaTypeImageLayerGzip \<noteq> []"
    by (simp_all add: MediaTypeImageConfig_def MediaTypeImageLayerGzip_def)
  show ?thesis
    unfolding validateManifestWith_def layer env limits desc(1) [OF types(1)] desc(2) [OF types(2)] option.case
      list.case check assms(2) keys
    using anns by (simp add: sample_odescriptor_def ann_def sha)
qed

lemma sample_chain:
  assumes "check (sample_common title ''1.7_1-2'' extra) ''1.7_1'' ''1.7_1-2'' title = None"
    and "check (sample_common (title @ '' 1.7_1.x86_64_linux.2'') ''1.7_1.x86_64_linux.2''
      (extra @ [(annotationBottleDigest, sample_sha256), (annotationBottleTab, ''t'')]))
      ''1.7_1'' ''1.7_1.x86_64_linux.2'' (title @ '' '' @ ''1.7_1.x86_64_linux.2'') = None"
    and "set (mkeys extra) \<subseteq> {AnnotationVendor, AnnotationSource, AnnotationRevision}"
    and "\<exists>tab. parseTab ''t'' sample_target False = Inr tab"
    and "fr_PkgVersion ref = ''1.7_1''" and "fr_IndexTag ref = ''1.7_1-2''" and "fr_Repository ref = ''homebrew/core/jq''"
  shows "\<exists>b. resolveDescriptorChain (sample_registry title extra) DefaultLimits label ''jq'' 2
      (of_BottleFiles sample_oformula) ref sample_target title title check parseTab = Inr b"
proof -
  obtain tab where tab: "parseTab ''t'' sample_target False = Inr tab" using assms(4) by blast
  let ?E = "sample_registry title extra"
  have tags: "ChildTag ''1.7_1'' ''x86_64_linux'' 2 = Inr ''1.7_1.x86_64_linux.2''"
    "oci_BottleFilename ''jq'' ''1.7_1'' ''x86_64_linux'' 2 = Inr ''jq--1.7_1.x86_64_linux.bottle.2.tar.gz''"
    by code_simp+
  have env: "env_index ?E ''1'' = Some (sample_index title extra)" "env_manifest ?E ''2'' = Some (sample_manifest title extra)"
    "env_image ?E ''3'' = Some sample_image" by (simp_all add: sample_registry_def sample_env_fields)
  have config: "om_Config (sample_manifest title extra) = sample_odescriptor MediaTypeImageConfig ''3''"
    by (simp add: sample_manifest_def)
  have idx: "FetchIndex ?E DefaultLimits ''homebrew/core/jq'' ''1.7_1-2'' =
      Inr \<lparr>ct_Descriptor = sample_odescriptor MediaTypeImageIndex ''1'', ct_Bytes = ''1''\<rparr>"
    unfolding sample_registry_def by (rule sample_FetchIndex)
  have man: "FetchManifest ?E DefaultLimits ''homebrew/core/jq'' sample_child
     = Inr \<lparr>ct_Descriptor = sample_child, ct_Bytes = ''2''\<rparr>"
    unfolding sample_registry_def
    by (rule sample_FetchManifest) (simp_all add: sample_child_def sample_odescriptor_def)
  have img: "validateConfig (env_digests ?E) sample_image sample_target False = None"
    by (simp add: validateConfig_def sample_image_def sample_target_def sample_registry_def sample_env_fields
        sample_hash_parses)
  have all: "(''x86_64_linux'' = BottleTagAll) = False" by (simp add: BottleTagAll_def)
  show ?thesis
    unfolding resolveDescriptorChain_def sample_bottle_file sum.case prod.case assms(5,6,7) tags idx
      Content.select_convs env option.case sample_select [where check = check and parseTab = parseTab, OF assms(1,5,6) tab]
      man sample_validateManifest [where check = check, OF assms(2,5,3)] config sample_FetchConfig all img
    by blast
qed

definition sample_core :: oci_env where
  "sample_core = sample_registry ''jq'' [(AnnotationVendor, ''Homebrew''),
     (AnnotationSource, ''https://github.com/homebrew/homebrew-core/'')]"

lemma sample_common_ann:
  "ann (sample_common title refName extra) annotationPackageType = homebrewBottlePackageType"
  "ann (sample_common title refName extra) AnnotationTitle = title"
  "ann (sample_common title refName extra) AnnotationVersion = ''1.7_1''"
  "ann (sample_common title refName extra) AnnotationRefName = refName"
  "ann (sample_common title refName extra) AnnotationVendor = ann extra AnnotationVendor"
  "ann (sample_common title refName extra) AnnotationSource = ann extra AnnotationSource"
  "ann (sample_common title refName extra) AnnotationRevision = ann extra AnnotationRevision"
  by (simp_all add: sample_common_def ann_def annotation_names)

lemma ann_Cons [simp]: "ann ((k, v) # m) k' = (if k' = k then v else ann m k')"
  by (simp add: ann_def)

lemma sample_core_resolves: "\<exists>r. Client_Resolve sample_core DefaultLimits sample_oformula sample_target = Inr r"
proof -
  let ?extra = "[(AnnotationVendor, ''Homebrew''), (AnnotationSource, ''https://github.com/homebrew/homebrew-core/'')]"
  have src: "to_lower ascii_tables ''https://github.com/homebrew/homebrew-core/''
      = ''https://github.com/homebrew/homebrew-core/''"
    by (rule to_lower_id(1)) (simp_all add: ascii_conform_def)
  have fold: "equal_fold ''Homebrew'' ''homebrew''" by code_simp
  have names: "AnnotationSource \<noteq> AnnotationVendor" by (simp add: annotation_names)
  have check: "validateCommonAnnotations ascii_tables ''jq''
      (sample_common title refName (?extra @ rest)) ''1.7_1'' refName title = None" for title refName rest
    unfolding validateCommonAnnotations_def annotationsMatch_def
    by (simp add: sample_common_ann src fold names)
  obtain ref where ref: "ResolveFormulaReference ascii_tables sample_oformula = Inr ref"
    "fr_PkgVersion ref = ''1.7_1''" "fr_IndexTag ref = ''1.7_1-2''" "fr_Repository ref = ''homebrew/core/jq''"
    using sample_reference by simp
  have "\<exists>tab. parseBottleTab sample_core ''t'' sample_target False = Inr tab"
    unfolding parseBottleTab_def sample_core_def by (rule sample_parseTab)
  then have "\<exists>b. resolveDescriptorChain sample_core DefaultLimits ''jq'' ''jq'' 2 (of_BottleFiles sample_oformula)
      ref sample_target ''jq'' ''jq'' (validateCommonAnnotations ascii_tables ''jq'') (parseBottleTab sample_core) = Inr b"
    unfolding sample_core_def
    using check [of "''jq''" "''1.7_1-2''" "[]"] check [of "''jq 1.7_1.x86_64_linux.2''" "''1.7_1.x86_64_linux.2''"]
    by (intro sample_chain ref) simp_all
  moreover have "env_unicode sample_core = ascii_tables"
    by (simp add: sample_core_def sample_registry_def sample_env_fields)
  moreover have "validateTarget sample_target = None" by (simp add: validateTarget_def sample_target_def)
  moreover have "of_Name sample_oformula = ''jq''" "of_BottleRebuild sample_oformula = 2"
    by (simp_all add: sample_oformula_def)
  ultimately show ?thesis using ref(1) by (auto simp: Client_Resolve_def)
qed

lemma sample_core_digests: "digests_ok sample_core"
  by (auto simp: digests_ok_def sample_core_def sample_registry_def sample_env_fields ascii_conform_def
      validateDigest_iff sample_hash_parses)

section \<open>Properties\<close>

text \<open>
  C14: A resolved bottle is the authenticated one. Whatever the registry serves, a resolution that
  succeeds took the bottle file the metadata lists for the target, or its \<open>all\<close> file when the target
  has none of its own; the layer digest is that file's checksum; and layer, manifest and index are
  linked by digests of the bytes that were read, through the one child of the index that carries the
  expected tag.
\<close>

theorem resolved_bottle_authentic:
  assumes "Client_Resolve E l f target = Inr r"
  shows "\<exists>t file. targetBottleTag target = Inr t
    \<and> rb_selectedBottleTag (rs_Bottle r) = (if mhas (of_BottleFiles f) t then t else BottleTagAll)
    \<and> mget (of_BottleFiles f) (rb_selectedBottleTag (rs_Bottle r)) = Some file
    \<and> rb_homebrewSHA256 (rs_Bottle r) = ob_SHA256 file
    \<and> od_Digest (rb_layer (rs_Bottle r)) = ''sha256:'' @ ob_SHA256 file
    \<and> hash_linked E (validateCommonAnnotations (env_unicode E) (of_Name f)) (of_Name f) (of_Name f) (rs_Bottle r)"
proof -
  obtain ref where chain: "resolveDescriptorChain E l (of_Name f) (of_Name f) (of_BottleRebuild f) (of_BottleFiles f)
      ref target (of_Name f) (of_Name f) (validateCommonAnnotations (env_unicode E) (of_Name f))
      (parseBottleTab E) = Inr (rs_Bottle r)" by (rule Client_Resolve_Inr [OF assms])
  then obtain bf where
    sel: "selectBottleFileFromMap (of_Name f) (of_BottleFiles f) target = Inr (rb_selectedBottleTag (rs_Bottle r), bf)"
    and sha: "rb_homebrewSHA256 (rs_Bottle r) = ob_SHA256 bf" "bottle_verified E l target (rs_Bottle r)"
    and linked: "hash_linked E (validateCommonAnnotations (env_unicode E) (of_Name f)) (of_Name f) (of_Name f) (rs_Bottle r)"
    by (rule resolveDescriptorChain_Inr)
  have layer: "od_Digest (rb_layer (rs_Bottle r)) = ''sha256:'' @ ob_SHA256 bf"
    using sha by (simp add: bottle_verified_def)
  from selectBottleFileFromMap_Inr(1) [OF sel] obtain t where "targetBottleTag target = Inr t"
    "rb_selectedBottleTag (rs_Bottle r) = (if mhas (of_BottleFiles f) t then t else BottleTagAll)"
    "mget (of_BottleFiles f) (rb_selectedBottleTag (rs_Bottle r)) = Some bf"
    by (auto simp: mhas_def)
  with sha(1) layer linked show ?thesis by blast
qed

theorem resolved_bottle_authentic_witness:
  "\<exists>r. Client_Resolve sample_core DefaultLimits sample_oformula sample_target = Inr r
    \<and> od_Digest (rb_layer (rs_Bottle r)) = ''sha256:'' @ rb_homebrewSHA256 (rs_Bottle r)"
proof -
  obtain r where r: "Client_Resolve sample_core DefaultLimits sample_oformula sample_target = Inr r"
    using sample_core_resolves by blast
  from resolved_bottle_authentic [OF r] r show ?thesis by auto
qed

text \<open>
  C15: Resolved nodes pass validation. If \<open>digest.FromBytes\<close> yields digests that parse, empty text is not
  JSON and the Unicode tables agree with ASCII, the closure node made from any resolved bottle is one
  \<open>resolution.Validate\<close> reports nothing about, for any dependencies with distinct names.
\<close>

theorem resolved_node_valid:
  assumes "Client_Resolve E l f target = Inr r" and "digests_ok E"
    and "[] \<notin> rq_Name ` set ds" and "distinct (map rq_Name ds)" and "\<not> mhas nodes (of_Name f)"
  shows "nodeErrors (env_unicode E) (env_digests E) (platform_of target) nodes
      ((ResolutionNode r)\<lparr>n_Dependencies := ds\<rparr>) = []
    \<and> nodeErrors (env_unicode E) (env_digests E) (platform_of target) nodes (ResolutionNode r) = []"
proof -
  obtain ref where r: "rs_Formula r = f"
    and chain: "resolveDescriptorChain E l (of_Name f) (of_Name f) (of_BottleRebuild f) (of_BottleFiles f)
      ref target (of_Name f) (of_Name f) (validateCommonAnnotations (env_unicode E) (of_Name f))
      (parseBottleTab E) = Inr (rs_Bottle r)" by (rule Client_Resolve_Inr [OF assms(1)])
  from chain have tab: "parseBottleTab E (ann (od_Annotations (rb_manifest (rs_Bottle r))) annotationBottleTab) target
      (rb_selectedBottleTag (rs_Bottle r) = BottleTagAll) = Inr (rb_tab (rs_Bottle r))"
    by (rule resolveDescriptorChain_Inr)
  note deps = parseBottleTabWith_Inr [OF tab [unfolded parseBottleTab_def]]
  let ?own = "n_Dependencies (ResolutionNode r)"
  have own: "?own = sort_key rq_Name (map dependencyRequirement (bt_Dependencies (rb_tab (rs_Bottle r))))"
    by (simp add: ResolutionNode_def Let_def)
  have name: "rq_Name \<circ> dependencyRequirement = rd_FullName" by (auto simp: dependencyRequirement_def)
  have "mset (map rq_Name ?own) = mset (map rd_FullName (bt_Dependencies (rb_tab (rs_Bottle r))))"
    by (simp add: own multiset.map_comp name)
  then have dist: "distinct (map rq_Name ?own)" using deps(3) mset_eq_imp_distinct_iff by blast
  have "rd_FullName d \<noteq> []" if "d \<in> set (bt_Dependencies (rb_tab (rs_Bottle r)))" for d
    using deps(4) [OF that] canonicalDependencyName_Inr formulaName_safe by blast
  then have ne: "[] \<notin> rq_Name ` set ?own" by (force simp: own dependencyRequirement_def)
  have "(ResolutionNode r)\<lparr>n_Dependencies := ?own\<rparr> = ResolutionNode r" by simp
  with resolved_node_ok [OF assms(1,2,5) ne dist] resolved_node_ok [OF assms(1,2,5,3,4)]
  show ?thesis by simp
qed

theorem resolved_node_valid_witness:
  "\<exists>r. Client_Resolve sample_core DefaultLimits sample_oformula sample_target = Inr r
    \<and> nodeErrors (env_unicode sample_core) (env_digests sample_core) (platform_of sample_target) []
        (ResolutionNode r) = []"
proof -
  obtain r where r: "Client_Resolve sample_core DefaultLimits sample_oformula sample_target = Inr r"
    using sample_core_resolves by blast
  from resolved_node_valid [OF r sample_core_digests, of "[]" "[]"] r show ?thesis by (auto simp: mhas_def)
qed

text \<open>
  C16: A public-tap bottle is bound to its source. When the authenticated resolution succeeds, the
  annotations of the index and of the manifest name the tap's owner, the exact source commit and the
  source URL of the Formula, the repository lies in the Formula's tap, and the replay reference pins
  that repository at the authenticated checksum.
\<close>

theorem authenticated_bottle_bound:
  assumes "Client_ResolveAuthenticated E P l f target = Inr r"
  shows "identity_validate (env_unicode E) (af_Identity f) = None
    \<and> hash_linked E (\<lambda>annotations pkgVersion refName title.
          if ann annotations AnnotationVendor = Tap_owner (FormulaID_tap (ai_id (af_Identity f)))
            \<and> ann annotations AnnotationRevision = ai_sourceCommit (af_Identity f)
            \<and> ann annotations AnnotationSource = SourceURL (af_Identity f)
          then None else Some (AnnotationMismatch AnnotationSource))
        (ai_homebrewFullName (af_Identity f)) (ai_homebrewFullName (af_Identity f)) (rs_Bottle r)
    \<and> (\<exists>repository tag file. RepositoryPathForFormulaID (env_unicode E) (ai_id (af_Identity f)) = Inr repository
        \<and> mget (af_BottleFiles f) tag = Some file
        \<and> ReplayReference r = ''ghcr.io/'' @ repository @ ''@sha256:'' @ ob_SHA256 file)"
proof -
  let ?U = "env_unicode E" and ?id = "af_Identity f" and ?b = "rs_Bottle r"
  from assms obtain ref where ref: "ResolveAuthenticatedFormulaReference ?U P f = Inr ref"
    and chain: "resolveDescriptorChain E l (FormulaID_String (ai_id ?id)) (FormulaID_name (ai_id ?id))
      (af_BottleRebuild f) (af_BottleFiles f) ref target (ai_homebrewFullName ?id) (ai_homebrewFullName ?id)
      (validateAuthenticatedCommonAnnotations ?U ?id) (parseAuthenticatedBottleTab E) = Inr ?b"
    by (auto simp: Client_ResolveAuthenticated_def split: option.split_asm sum.split_asm)
  from ref obtain repository where repo: "RepositoryPathForFormulaID ?U (ai_id ?id) = Inr repository"
    and canon: "fr_CanonicalRepository ref = ''ghcr.io/'' @ repository"
    and ident: "identity_validate ?U ?id = None"
    by (auto simp: ResolveAuthenticatedFormulaReference_def GHCRRegistry_def validateAuthenticatedFormula_def
        split: option.split_asm sum.split_asm)
  from chain obtain bf where
    sel: "selectBottleFileFromMap (FormulaID_String (ai_id ?id)) (af_BottleFiles f) target
      = Inr (rb_selectedBottleTag ?b, bf)"
    and bf: "rb_homebrewSHA256 ?b = ob_SHA256 bf" "rb_reference ?b = ref" "bottle_verified E l target ?b"
    and linked: "hash_linked E (validateAuthenticatedCommonAnnotations ?U ?id) (ai_homebrewFullName ?id)
      (ai_homebrewFullName ?id) ?b" by (rule resolveDescriptorChain_Inr)
  have check: "(if ann m AnnotationVendor = Tap_owner (FormulaID_tap (ai_id ?id))
        \<and> ann m AnnotationRevision = ai_sourceCommit ?id \<and> ann m AnnotationSource = SourceURL ?id
      then None else Some (AnnotationMismatch AnnotationSource)) = None"
    if "validateAuthenticatedCommonAnnotations ?U ?id m p n t = None" for m p n t
    using that ident by (simp add: validateAuthenticatedCommonAnnotations_def annotationsMatch_None Publisher_def)
  have "hash_linked E (\<lambda>m p n t. if ann m AnnotationVendor = Tap_owner (FormulaID_tap (ai_id ?id))
        \<and> ann m AnnotationRevision = ai_sourceCommit ?id \<and> ann m AnnotationSource = SourceURL ?id
      then None else Some (AnnotationMismatch AnnotationSource)) (ai_homebrewFullName ?id) (ai_homebrewFullName ?id) ?b"
    using linked check unfolding hash_linked_def by meson
  moreover have "ReplayReference r = ''ghcr.io/'' @ repository @ ''@sha256:'' @ ob_SHA256 bf"
    using bf canon by (simp add: ReplayReference_def bottle_verified_def)
  moreover have "mget (af_BottleFiles f) (rb_selectedBottleTag ?b) = Some bf"
    using selectBottleFileFromMap_Inr(1) [OF sel] by blast
  ultimately show ?thesis using ident repo by blast
qed

definition sample_identity :: AuthenticatedFormulaIdentity where
  "sample_identity = \<lparr>ai_id = \<lparr>FormulaID_tap = CoreTap, FormulaID_name = ''jq''\<rparr>,
     ai_homebrewFullName = ''homebrew/core/jq'', ai_sourceRepository = ''https://github.com/homebrew/homebrew-core'',
     ai_sourceCommit = replicate 40 CHR ''b'', ai_formulaPath = ''Formula/jq.rb''\<rparr>"

definition sample_authenticated :: AuthenticatedFormula where
  "sample_authenticated = \<lparr>af_Identity = sample_identity, af_BottleRootURL = ''https://ghcr.io/v2/homebrew/core'',
     af_StableVersion = ''1.7'', af_Revision = 1, af_VersionScheme = 0, af_BottleRebuild = 2, af_License = [],
     af_KegOnly = False, af_BottleFiles = of_BottleFiles sample_oformula\<rparr>"

definition sample_urls :: url_parser where
  "sample_urls s = Some \<lparr>url_Scheme = ''https'', url_Opaque = [], url_HasUser = False, url_Host = ''ghcr.io'',
     url_Path = ''/v2/homebrew/core'', url_RawQuery = [], url_ForceQuery = False, url_Fragment = [],
     url_RawFragment = [], url_EscapedPath = []\<rparr>"

definition sample_public :: oci_env where
  "sample_public = sample_registry ''homebrew/core/jq'' [(AnnotationVendor, ''homebrew''),
     (AnnotationRevision, ai_sourceCommit sample_identity), (AnnotationSource, SourceURL sample_identity)]"

lemma sample_identity_valid: "identity_validate ascii_tables sample_identity = None"
proof -
  have i: "id_ok \<lparr>FormulaID_tap = CoreTap, FormulaID_name = ''jq''\<rparr>" by code_simp
  then have fid: "oci_validateFormulaID \<lparr>FormulaID_tap = CoreTap, FormulaID_name = ''jq''\<rparr> = None"
    by (simp add: oci_validateFormulaID_None)
  have core: "Tap_owner CoreTap = ''homebrew''" "Tap_name CoreTap = ''core''" by (simp_all add: CoreTap_def)
  have str: "FormulaID_String \<lparr>FormulaID_tap = CoreTap, FormulaID_name = ''jq''\<rparr> = ''homebrew/core/jq''" by code_simp
  have repo: "validateRepository ascii_tables ''jq'' = None" by (rule validateRepository_ascii; code_simp)
  have "oci_validateFormulaName ''jq'' = None" by code_simp
  with fid core repo sample_repository_valid
  have path: "RepositoryPathForFormulaID ascii_tables \<lparr>FormulaID_tap = CoreTap, FormulaID_name = ''jq''\<rparr>
      = Inr ''homebrew/core/jq''"
    by (simp add: RepositoryPathForFormulaID_def EscapeFormulaName_def escape_char_def)
  have tap: "oci_validateTap CoreTap = None" by code_simp
  have "validateFormulaSourcePath ''Formula/jq.rb'' ''jq'' = None" by code_simp
  moreover have "validateSourceCommit (replicate 40 CHR ''b'') = None"
    by (simp add: validateSourceCommit_def lower_hex_char_def list_all_iff less_eq_char_def)
  ultimately show ?thesis
    unfolding identity_validate_def sample_identity_def AuthenticatedFormulaIdentity.select_convs
      FormulaID.select_convs fid str path oci_DefaultGitHubRepository_def tap core
    by simp
qed

lemma sample_public_reference:
  "\<exists>ref. ResolveAuthenticatedFormulaReference ascii_tables sample_urls sample_authenticated = Inr ref
    \<and> fr_PkgVersion ref = ''1.7_1'' \<and> fr_IndexTag ref = ''1.7_1-2'' \<and> fr_Repository ref = ''homebrew/core/jq''"
proof -
  have tap: "oci_validateTap CoreTap = None" by code_simp
  have core: "Tap_owner CoreTap = ''homebrew''" "Tap_name CoreTap = ''core''" by (simp_all add: CoreTap_def)
  have host: "url_Hostname (the (sample_urls x)) = ''ghcr.io''" for x
    by (simp add: url_Hostname_def sample_urls_def)
  have lower: "to_lower ascii_tables ''ghcr.io'' = ''ghcr.io''"
    by (rule to_lower_id(1)) (simp_all add: ascii_conform_def)
  have root: "MatchHomebrewGHCRRoot ascii_tables sample_urls ''https://ghcr.io/v2/homebrew/core'' CoreTap = Inr True"
    using host [of "''https://ghcr.io/v2/homebrew/core''"]
    by (simp add: MatchHomebrewGHCRRoot_def HomebrewGHCRRootURL_def tap core GHCRRegistry_def sample_urls_def
        lower trim_suffix_def suffix_to_prefix)
  from sample_identity_valid obtain repository
    where repo: "RepositoryPathForFormulaID ascii_tables (ai_id sample_identity) = Inr repository"
    by (auto simp: identity_validate_def split: option.split_asm sum.split_asm if_split_asm)
  then have "repository = ''homebrew/core/jq''"
    using RepositoryPathForFormulaID_Inr [OF repo] by (simp add: sample_identity_def core escape_char_def)
  moreover have "IndexTag ''1.7_1'' 2 = Inr ''1.7_1-2''" by code_simp
  moreover have "FormulaID_tap (ai_id sample_identity) = CoreTap" by (simp add: sample_identity_def)
  ultimately show ?thesis
    using sample_identity_valid root repo sample_version
    by (simp add: ResolveAuthenticatedFormulaReference_def validateAuthenticatedFormula_def sample_authenticated_def)
qed

lemma sample_public_resolves:
  "\<exists>r. Client_ResolveAuthenticated sample_public sample_urls DefaultLimits sample_authenticated sample_target = Inr r"
proof -
  let ?id = sample_identity and ?extra = "[(AnnotationVendor, ''homebrew''),
     (AnnotationRevision, ai_sourceCommit sample_identity), (AnnotationSource, SourceURL sample_identity)]"
  have names: "AnnotationSource \<noteq> AnnotationVendor" "AnnotationSource \<noteq> AnnotationRevision"
    "AnnotationRevision \<noteq> AnnotationVendor" by (simp_all add: annotation_names)
  have "Publisher ?id = ''homebrew''" by (simp add: Publisher_def sample_identity_def CoreTap_def)
  then have check: "validateAuthenticatedCommonAnnotations ascii_tables ?id
      (sample_common title refName (?extra @ rest)) ''1.7_1'' refName title = None" for title refName rest
    unfolding validateAuthenticatedCommonAnnotations_def sample_identity_valid annotationsMatch_def
    by (simp add: sample_common_ann names)
  obtain ref where ref: "ResolveAuthenticatedFormulaReference ascii_tables sample_urls sample_authenticated = Inr ref"
    "fr_PkgVersion ref = ''1.7_1''" "fr_IndexTag ref = ''1.7_1-2''" "fr_Repository ref = ''homebrew/core/jq''"
    using sample_public_reference by blast
  have "\<exists>tab. parseAuthenticatedBottleTab sample_public ''t'' sample_target False = Inr tab"
    unfolding parseAuthenticatedBottleTab_def sample_public_def by (rule sample_parseTab)
  then have "\<exists>b. resolveDescriptorChain sample_public DefaultLimits (FormulaID_String (ai_id ?id)) ''jq'' 2
      (of_BottleFiles sample_oformula) ref sample_target ''homebrew/core/jq'' ''homebrew/core/jq''
      (validateAuthenticatedCommonAnnotations ascii_tables ?id) (parseAuthenticatedBottleTab sample_public) = Inr b"
    unfolding sample_public_def
    using check [of "''homebrew/core/jq''" "''1.7_1-2''" "[]"]
      check [of "''homebrew/core/jq 1.7_1.x86_64_linux.2''" "''1.7_1.x86_64_linux.2''"]
    by (intro sample_chain ref) simp_all
  moreover have "env_unicode sample_public = ascii_tables"
    by (simp add: sample_public_def sample_registry_def sample_env_fields)
  moreover have "validateTarget sample_target = None" by (simp add: validateTarget_def sample_target_def)
  moreover have "af_Identity sample_authenticated = ?id" "af_BottleRebuild sample_authenticated = 2"
    "FormulaID_name (ai_id ?id) = ''jq''" "ai_homebrewFullName ?id = ''homebrew/core/jq''"
    "af_BottleFiles sample_authenticated = of_BottleFiles sample_oformula"
    by (simp_all add: sample_authenticated_def sample_identity_def)
  ultimately show ?thesis using ref(1) by (auto simp: Client_ResolveAuthenticated_def)
qed

theorem authenticated_bottle_bound_witness:
  "\<exists>r repository tag file.
     Client_ResolveAuthenticated sample_public sample_urls DefaultLimits sample_authenticated sample_target = Inr r
   \<and> mget (af_BottleFiles sample_authenticated) tag = Some file
   \<and> ReplayReference r = ''ghcr.io/'' @ repository @ ''@sha256:'' @ ob_SHA256 file"
proof -
  obtain r where r: "Client_ResolveAuthenticated sample_public sample_urls DefaultLimits sample_authenticated
      sample_target = Inr r" using sample_public_resolves by blast
  from authenticated_bottle_bound [OF r] r show ?thesis by blast
qed

end
