(* ===== verification/Resolver.thy ===== *)
theory Resolver
  imports MetadataIndex OciResolve
begin

text \<open>
  \<open>internal/resolver/resolver.go\<close>: the resolver of core Formulae. It looks the roots up in the
  catalog, closes them under the signed dependencies, asks the bottle resolver for a bottle of each
  Formula, checks the requirements of the bottle tabs, orders the closure, and hands a replay record
  to \<open>resolution.Validate\<close>.

  \<^item> The interfaces \<open>Catalog\<close> and \<open>BottleResolver\<close> are arguments, as in the source; a nil interface is
    \<open>None\<close>. The laws the proofs need of them are the locales \<open>formula_catalog\<close> and \<open>bottle_source\<close>,
    interpreted on the models of \<open>metadata.Catalog\<close> and of the OCI client.
  \<^item> The loop over the queue is a partial function whose value \<open>None\<close> means that it does not return.
  \<^item> The range over the graph that fills in minimums visits the parents, and the dependencies of each, in
    the order they were added; Go leaves it open, and it only decides which error comes first.
\<close>

section \<open>Types\<close>

record DocumentInfo =
  di_URL :: string
  di_Size :: int
  di_EnvelopeDigest :: string
  di_PayloadDigest :: string
  di_GeneratedAt :: int
  di_GeneratedAtSource :: string
  di_Signatures :: "SignatureInfo list"

record SnapshotInfo =
  sn_SchemaVersion :: string
  sn_Digest :: string
  sn_FormulaDigest :: string
  sn_MigrationDigest :: string
  sn_GeneratedAt :: int
  sn_FetchedAt :: int
  sn_Formula :: DocumentInfo
  sn_Migrations :: DocumentInfo

record Options =
  o_SpecDigest :: string
  o_TargetKey :: string
  o_Now :: int
  o_Metadata :: SnapshotInfo
  o_Components :: Components
  o_Runtime :: RuntimePolicy
  o_Attestation :: AttestationPolicy
  o_PruningDigest :: string

datatype compat_error =
    RequiresGlibc string
  | ArchMismatch string
  | RequiresCPU string
  | UnknownCPU string

datatype (plugins only: code size) resolver_error =
    MissingInterfaces
  | PlatformUnsupported string string
  | NoRuntimeRoots
  | RootLookup string LookupError
  | DependencyLookup string LookupError
  | DependencyNotCanonical string
  | NoCurrentBottle string
  | BottleRootUnsupported string string
  | BottleError string oci_error
  | RuntimeIncompatible string compat_error
  | MismatchedIdentity string
  | SignedDependencyLookup string string LookupError
  | SignedDependencyNotCanonical string string
  | NotResolved string string
  | Unsatisfied string string
  | DependencyCycle "string list"
  | NoSourceDateEpoch
  | InvalidRecord "record_error list"

type_synonym catalog_lookup = "string \<Rightarrow> (LookupError, Match) result"
type_synonym bottle_resolver = "OFormula \<Rightarrow> OPlatform \<Rightarrow> (oci_error, OFormula Result) result"
type_synonym requirement_graph = "(string, (string, Requirement) gomap) gomap"

section \<open>Formulae and platforms\<close>

definition targetTag :: "OPlatform \<Rightarrow> string" where
  "targetTag p = (if op_Architecture p = ''arm64'' then BottleTagARM64Linux else BottleTagX8664Linux)"

definition toOCIFormula :: "Formula \<Rightarrow> OPlatform \<Rightarrow> (resolver_error, OFormula) result" where
  "toOCIFormula f target =
     (case f_Bottle f of
        None \<Rightarrow> Inl (NoCurrentBottle (f_Name f))
      | Some b \<Rightarrow>
          if b_RootURL b \<noteq> ''https://ghcr.io/v2/homebrew/core''
          then Inl (BottleRootUnsupported (f_Name f) (b_RootURL b))
          else Inr \<lparr>of_Name = f_Name f, of_FullName = f_FullName f, of_StableVersion = f_StableVersion f,
                    of_Revision = f_Revision f, of_VersionScheme = f_VersionScheme f,
                    of_BottleRebuild = b_Rebuild b, of_License = f_License f,
                    of_KegOnly = KegOnlyFor f (targetTag target),
                    of_BottleFiles = foldl (\<lambda>m file. mput (bf_Tag file)
                      \<lparr>ob_Cellar = bf_Cellar file, ob_SHA256 = bf_SHA256 file\<rparr> m) [] (b_Files b)\<rparr>)"

definition cpu_rank :: "(string, nat) gomap" where
  "cpu_rank = [(''x86_64'', 0), (''core2'', 1), (''penryn'', 2), (''nehalem'', 3), (''westmere'', 4),
     (''sandybridge'', 5), (''ivybridge'', 6), (''haswell'', 7), (''broadwell'', 8), (''skylake'', 9),
     (''zen'', 10), (''zen2'', 11), (''zen3'', 12), (''zen4'', 13)]"

definition validateRuntimeCompatibility ::
  "unicode_tables \<Rightarrow> BottleTab \<Rightarrow> OPlatform \<Rightarrow> compat_error option" where
  "validateRuntimeCompatibility U tab target =
     (let glibc = bo_GlibcVersion (bt_BuiltOn tab);
          arm = (op_Architecture target = ''arm64'');
          oldest = to_lower U (bo_OldestCPUFamily (bt_BuiltOn tab))
      in if glibc \<noteq> [] \<and> 0 < Compare U glibc ''2.39'' then Some (RequiresGlibc glibc)
         else if bt_Arch tab = [] then None
         else if bt_Arch tab \<noteq> (if arm then ''arm64'' else ''x86_64'') then Some (ArchMismatch (bt_Arch tab))
         else if arm
         then if oldest \<noteq> [] \<and> oldest \<noteq> ''armv8'' \<and> oldest \<noteq> ''arm'' then Some (RequiresCPU oldest) else None
         else if oldest = [] then None
         else case mget cpu_rank oldest of
             None \<Rightarrow> Some (UnknownCPU oldest)
           | Some r \<Rightarrow> if the (mget cpu_rank ''core2'') < r then Some (RequiresCPU oldest) else None)"

section \<open>Requirements\<close>

definition zeroRequirement :: Requirement where
  "zeroRequirement = \<lparr>rq_Name = [], rq_Minimum = [], rq_Revision = 0, rq_BottleRebuild = 0, rq_Direct = False\<rparr>"

text \<open>\<open>SplitPkgVersion\<close> where the caller ignores the error and reads the zero values.\<close>

definition splitIgnored :: "string \<Rightarrow> string \<times> int" where
  "splitIgnored v = (case SplitPkgVersion v of Inl e \<Rightarrow> ([], 0) | Inr p \<Rightarrow> p)"

definition mergeRequirement :: "unicode_tables \<Rightarrow> Requirement \<Rightarrow> Requirement \<Rightarrow> Requirement" where
  "mergeRequirement U a b =
     (if rq_Name a = [] then b
      else if rq_Name b = [] then a
      else let out = a\<lparr>rq_Direct := rq_Direct a \<or> rq_Direct b\<rparr>;
               (as, ar) = splitIgnored (rq_Minimum a);
               (bs, br) = splitIgnored (rq_Minimum b)
           in if rq_Minimum a = [] \<or> 0 < Compare U bs as \<or> (Compare U bs as = 0 \<and> ar < br)
              then out\<lparr>rq_Minimum := rq_Minimum b, rq_Revision := rq_Revision b,
                       rq_BottleRebuild := rq_BottleRebuild b\<rparr>
              else out)"

definition satisfies :: "unicode_tables \<Rightarrow> Node \<Rightarrow> Requirement \<Rightarrow> bool" where
  "satisfies U node req =
     (case SplitPkgVersion (rq_Minimum req) of
        Inl e \<Rightarrow> False
      | Inr (minVersion, minRevision) \<Rightarrow>
          let rev = max (rq_Revision req) minRevision
          in if \<not> AtLeast U (n_FormulaVersion node) (n_FormulaRevision node) minVersion rev then False
             else if Compare U (n_FormulaVersion node) minVersion = 0 \<and> n_FormulaRevision node = rev
             then rq_BottleRebuild req \<le> n_BottleRebuild node
             else True)"

definition mapRequirements :: "(string, Requirement) gomap \<Rightarrow> Requirement list" where
  "mapRequirements m = sort_key rq_Name (map snd m)"

section \<open>The closure\<close>

record root_state =
  ro_requested :: "RequestedRoot list"
  ro_queue :: "string list"
  ro_matches :: "(string, Formula) gomap"

definition rootStep ::
  "catalog_lookup \<Rightarrow> OPlatform \<Rightarrow> string \<Rightarrow> root_state \<Rightarrow> (resolver_error, root_state) result" where
  "rootStep lookup target name s =
     (case lookup name of
        Inl e \<Rightarrow> Inl (RootLookup name e)
      | Inr m \<Rightarrow>
          Inr \<lparr>ro_requested = ro_requested s @ [\<lparr>rr_Requested = name, rr_Canonical = mt_Canonical m,
                 rr_KegOnly = KegOnlyFor (mt_Formula m) (targetTag target)\<rparr>],
               ro_queue = (if mhas (ro_matches s) (mt_Canonical m) then ro_queue s
                           else ro_queue s @ [mt_Canonical m]),
               ro_matches = mput (mt_Canonical m) (mt_Formula m) (ro_matches s)\<rparr>)"

record closure =
  cl_queue :: "string list"
  cl_matches :: "(string, Formula) gomap"
  cl_nodes :: "(string, Node) gomap"
  cl_graph :: requirement_graph

definition formulaFor ::
  "catalog_lookup \<Rightarrow> string \<Rightarrow> (string, Formula) gomap
     \<Rightarrow> (resolver_error, Formula \<times> (string, Formula) gomap) result" where
  "formulaFor lookup name matches =
     (case mget matches name of
        Some f \<Rightarrow> Inr (f, matches)
      | None \<Rightarrow>
          (case lookup name of
             Inl e \<Rightarrow> Inl (DependencyLookup name e)
           | Inr m \<Rightarrow>
               if mt_Kind m \<noteq> MatchCanonical \<or> mt_Canonical m \<noteq> name then Inl (DependencyNotCanonical name)
               else Inr (mt_Formula m, mput name (mt_Formula m) matches)))"

definition nodeFor ::
  "unicode_tables \<Rightarrow> bottle_resolver \<Rightarrow> OPlatform \<Rightarrow> string \<Rightarrow> Formula \<Rightarrow> (resolver_error, Node) result" where
  "nodeFor U bottles target name f =
     (case toOCIFormula f target of
        Inl e \<Rightarrow> Inl e
      | Inr ociFormula \<Rightarrow>
     (case bottles ociFormula target of
        Inl e \<Rightarrow> Inl (BottleError name e)
      | Inr selected \<Rightarrow>
     (case validateRuntimeCompatibility U (rb_tab (rs_Bottle selected)) target of
        Some e \<Rightarrow> Inl (RuntimeIncompatible name e)
      | None \<Rightarrow>
          let node = ResolutionNode selected
          in if n_Name node \<noteq> name \<or> n_PkgVersion node \<noteq> Formula_PkgVersion f
             then Inl (MismatchedIdentity name) else Inr node)))"

text \<open>The requirements of the bottle tab by name, and the requirement of a signed dependency.\<close>

definition tabRequirements :: "Node \<Rightarrow> (string, Requirement) gomap" where
  "tabRequirements node = foldl (\<lambda>m req. mput (rq_Name req) req m) [] (n_Dependencies node)"

definition signedRequirement :: "(string, Requirement) gomap \<Rightarrow> string \<Rightarrow> Requirement" where
  "signedRequirement tabDeps canonical =
     (case mget tabDeps canonical of
        Some q \<Rightarrow> q\<lparr>rq_Direct := True\<rparr>
      | None \<Rightarrow> \<lparr>rq_Name = canonical, rq_Minimum = [], rq_Revision = 0, rq_BottleRebuild = 0, rq_Direct = True\<rparr>)"

text \<open>The body of the loop over the signed dependencies of the Formula \<open>name\<close>.\<close>

definition dependencyStep ::
  "unicode_tables \<Rightarrow> catalog_lookup \<Rightarrow> string \<Rightarrow> (string, Requirement) gomap \<Rightarrow> string \<Rightarrow> closure
     \<Rightarrow> (resolver_error, closure) result" where
  "dependencyStep U lookup name tabDeps dep s =
     (case lookup dep of
        Inl e \<Rightarrow> Inl (SignedDependencyLookup name dep e)
      | Inr m \<Rightarrow>
          if mt_Kind m \<noteq> MatchCanonical \<or> mt_Canonical m \<noteq> dep then Inl (SignedDependencyNotCanonical name dep)
          else
            let canonical = mt_Canonical m;
                req = signedRequirement tabDeps canonical;
                edges = map_at [] (cl_graph s) name;
                old = map_at zeroRequirement edges canonical
            in Inr (s\<lparr>cl_matches := mput canonical (mt_Formula m) (cl_matches s),
                      cl_graph := mput name (mput canonical (mergeRequirement U old req) edges) (cl_graph s),
                      cl_queue := (if mhas (cl_nodes s) canonical then cl_queue s
                                   else cl_queue s @ [canonical])\<rparr>))"

definition closureStep ::
  "unicode_tables \<Rightarrow> catalog_lookup \<Rightarrow> bottle_resolver \<Rightarrow> OPlatform \<Rightarrow> closure
     \<Rightarrow> (resolver_error, closure) result" where
  "closureStep U lookup bottles target s =
     (let name = hd (cl_queue s); s = s\<lparr>cl_queue := tl (cl_queue s)\<rparr>
      in if mhas (cl_nodes s) name then Inr s
         else case formulaFor lookup name (cl_matches s) of
             Inl e \<Rightarrow> Inl e
           | Inr (f, matches) \<Rightarrow>
         (case nodeFor U bottles target name f of
             Inl e \<Rightarrow> Inl e
           | Inr node \<Rightarrow>
               for_result (dependencyStep U lookup name (tabRequirements node))
                 (DependenciesFor f (targetTag target))
                 (s\<lparr>cl_matches := matches, cl_nodes := mput name node (cl_nodes s),
                    cl_graph := (if mhas (cl_graph s) name then cl_graph s
                                 else mput name [] (cl_graph s))\<rparr>)))"

partial_function (option) closureLoop ::
  "(closure \<Rightarrow> (resolver_error, closure) result) \<Rightarrow> closure \<Rightarrow> (resolver_error, closure) result option" where
  "closureLoop step s =
     (if cl_queue s = [] then Some (Inr s)
      else case step s of Inl e \<Rightarrow> Some (Inl e) | Inr s' \<Rightarrow> closureLoop step s')"

section \<open>Requirements against the selection, order and record\<close>

definition zeroDescriptor :: Descriptor where
  "zeroDescriptor = \<lparr>d_Digest = [], d_Size = 0, d_MediaType = [], d_Platform = None, d_Metadata = []\<rparr>"

definition zeroNode :: Node where
  "zeroNode = \<lparr>n_Name = [], n_FullName = [], n_FormulaVersion = [], n_FormulaRevision = 0, n_PkgVersion = [],
     n_VersionScheme = 0, n_BottleRebuild = 0, n_License = [], n_KegOnly = False, n_Dependencies = [],
     n_Bottle = \<lparr>nb_Tag = [], nb_Filename = [], nb_Repository = [], nb_Index = zeroDescriptor,
       nb_Manifest = zeroDescriptor, nb_Config = zeroDescriptor, nb_Layer = zeroDescriptor,
       nb_HomebrewSHA256 = [], nb_Cellar = [],
       nb_Tab = \<lparr>bt_HomebrewVersion = [], bt_Arch = [], bt_Compiler = [], bt_ChangedFiles = [],
         bt_BuiltOn = emptyBuiltOn, bt_Dependencies = []\<rparr>, nb_SelectedAnnotations = []\<rparr>,
     n_ExecutablePaths = [], n_UpstreamFormulaID = [], n_PolicyFormulaID = []\<rparr>"

definition fillFrom :: "Node \<Rightarrow> Requirement \<Rightarrow> Requirement" where
  "fillFrom depNode req =
     (if rq_Minimum req = []
      then req\<lparr>rq_Minimum := n_PkgVersion depNode, rq_Revision := n_FormulaRevision depNode,
               rq_BottleRebuild := n_BottleRebuild depNode\<rparr>
      else req)"

definition fillRequirement ::
  "unicode_tables \<Rightarrow> (string, Node) gomap \<Rightarrow> string \<Rightarrow> string \<times> Requirement
     \<Rightarrow> (resolver_error, string \<times> Requirement) result" where
  "fillRequirement U nodes parent = (\<lambda>(name, req).
     case mget nodes name of
        None \<Rightarrow> Inl (NotResolved name parent)
      | Some depNode \<Rightarrow>
          let req = fillFrom depNode req
          in if \<not> satisfies U depNode req then Inl (Unsatisfied parent name) else Inr (name, req))"

definition fillParent ::
  "unicode_tables \<Rightarrow> string \<times> (string, Requirement) gomap \<Rightarrow> (string, Node) gomap
     \<Rightarrow> (resolver_error, (string, Node) gomap) result" where
  "fillParent U = (\<lambda>(parent, edges) nodes.
     case map_result (fillRequirement U nodes parent) edges of
        Inl e \<Rightarrow> Inl e
      | Inr filled \<Rightarrow>
          Inr (mput parent ((map_at zeroNode nodes parent)\<lparr>n_Dependencies := mapRequirements filled\<rparr>) nodes))"

definition orderGraph :: "requirement_graph \<Rightarrow> string graph" where
  "orderGraph g = map (\<lambda>(name, edges). (name, sort (mkeys edges))) g"

definition topoOrder ::
  "requirement_graph \<Rightarrow> RequestedRoot list \<Rightarrow> (resolver_error, string list) result" where
  "topoOrder g roots =
     (case topological (orderGraph g) (map rr_Canonical roots) of
        Inl cyc \<Rightarrow> Inl (DependencyCycle cyc) | Inr order \<Rightarrow> Inr order)"

definition convertSignature :: "SignatureInfo \<Rightarrow> Signature" where
  "convertSignature s = Signature (si_KeyID s) (si_Algorithm s) (si_Verified s)"

text \<open>The loop over both documents keeps the first signature of each key and algorithm.\<close>

fun uniqueSignatures :: "string list \<Rightarrow> SignatureInfo list \<Rightarrow> Signature list" where
  "uniqueSignatures seen [] = []"
| "uniqueSignatures seen (s # ss) =
     (let key = si_KeyID s @ [CHR 0x00] @ si_Algorithm s
      in if key \<in> set seen then uniqueSignatures seen ss
         else convertSignature s # uniqueSignatures (key # seen) ss)"

definition metadataSnapshot :: "SnapshotInfo \<Rightarrow> MetadataSnapshot" where
  "metadataSnapshot m =
     \<lparr>ms_Digest = sn_Digest m, ms_FormulaDigest = sn_FormulaDigest m, ms_MigrationDigest = sn_MigrationDigest m,
      ms_FormulaEnvelopeDigest = di_EnvelopeDigest (sn_Formula m),
      ms_MigrationEnvelopeDigest = di_EnvelopeDigest (sn_Migrations m),
      ms_FormulaFreshnessSource = di_GeneratedAtSource (sn_Formula m),
      ms_MigrationFreshnessSource = di_GeneratedAtSource (sn_Migrations m),
      ms_GeneratedAt = sn_GeneratedAt m, ms_FetchedAt = sn_FetchedAt m,
      ms_Signatures = uniqueSignatures [] (di_Signatures (sn_Formula m) @ di_Signatures (sn_Migrations m)),
      ms_FormulaSignatures = map convertSignature (di_Signatures (sn_Formula m)),
      ms_MigrationSignatures = map convertSignature (di_Signatures (sn_Migrations m)),
      ms_FormulaURL = di_URL (sn_Formula m), ms_MigrationURL = di_URL (sn_Migrations m)\<rparr>"

text \<open>\<open>Time.Unix\<close> of a time in nanoseconds since the zero time, 62135596800 seconds before the epoch.\<close>

definition time_Unix :: "int \<Rightarrow> int" where
  "time_Unix t = t div 1000000000 - 62135596800"

definition resolvedRecord ::
  "OPlatform \<Rightarrow> Options \<Rightarrow> RequestedRoot list \<Rightarrow> (string, Node) gomap \<Rightarrow> string list \<Rightarrow> Record" where
  "resolvedRecord target opts requested nodes order =
     \<lparr>r_SchemaVersion = SchemaVersion, r_PolicyVersion = PolicyVersion,
      r_Input = \<lparr>in_DalecSpecDigest = o_SpecDigest opts, in_TargetKey = o_TargetKey opts,
        in_Platform = \<lparr>p_OS = op_OS target, p_Architecture = op_Architecture target,
          p_Variant = op_Variant target\<rparr>\<rparr>,
      r_Metadata = metadataSnapshot (o_Metadata opts), r_ResolvedAt = o_Now opts,
      r_SourceDateEpoch = time_Unix (sn_GeneratedAt (o_Metadata opts)), r_Requested = requested,
      r_Nodes = sort_key n_Name (map snd nodes), r_InstallOrder = order, r_Components = o_Components opts,
      r_Runtime = o_Runtime opts, r_AttestationPolicy = o_Attestation opts,
      r_PruningPolicyDigest = o_PruningDigest opts\<rparr>"

definition finishResolve ::
  "unicode_tables \<Rightarrow> digest_lib \<Rightarrow> OPlatform \<Rightarrow> Options \<Rightarrow> RequestedRoot list \<Rightarrow> closure
     \<Rightarrow> (resolver_error, Record) result" where
  "finishResolve U D target opts requested s =
     (case for_result (fillParent U) (cl_graph s) (cl_nodes s) of
        Inl e \<Rightarrow> Inl e
      | Inr nodes \<Rightarrow>
     (case topoOrder (cl_graph s) requested of
        Inl e \<Rightarrow> Inl e
      | Inr order \<Rightarrow>
          if time_Unix (sn_GeneratedAt (o_Metadata opts)) \<le> 0 then Inl NoSourceDateEpoch
          else let r = resolvedRecord target opts requested nodes order
               in case Validate U D r of [] \<Rightarrow> Inr r | errs \<Rightarrow> Inl (InvalidRecord errs)))"

text \<open>\<open>now\<close> is the clock; \<open>None\<close> as a result means that the call does not return.\<close>

definition Resolve ::
  "unicode_tables \<Rightarrow> digest_lib \<Rightarrow> int \<Rightarrow> catalog_lookup option \<Rightarrow> bottle_resolver option \<Rightarrow> string list
     \<Rightarrow> OPlatform \<Rightarrow> Options \<Rightarrow> (resolver_error, Record) result option" where
  "Resolve U D now catalog bottles roots target opts =
     (case (catalog, bottles) of
        (Some lookup, Some resolve) \<Rightarrow>
          if op_OS target \<noteq> ''linux''
             \<or> (op_Architecture target \<noteq> ''amd64'' \<and> op_Architecture target \<noteq> ''arm64'')
             \<or> op_Variant target \<noteq> [] \<or> op_OSFeatures target \<noteq> []
          then Some (Inl (PlatformUnsupported (op_OS target) (op_Architecture target)))
          else if roots = [] then Some (Inl NoRuntimeRoots)
          else
            let opts = (if o_Now opts = 0 then opts\<lparr>o_Now := now\<rparr> else opts)
            in (case for_result (rootStep lookup target) roots
                     \<lparr>ro_requested = [], ro_queue = [], ro_matches = []\<rparr> of
                  Inl e \<Rightarrow> Some (Inl e)
                | Inr s \<Rightarrow>
                    (case closureLoop (closureStep U lookup resolve target)
                            \<lparr>cl_queue = ro_queue s, cl_matches = ro_matches s, cl_nodes = [], cl_graph = []\<rparr> of
                       None \<Rightarrow> None
                     | Some (Inl e) \<Rightarrow> Some (Inl e)
                     | Some (Inr c) \<Rightarrow> Some (finishResolve U D target opts (ro_requested s) c)))
      | _ \<Rightarrow> Some (Inl MissingInterfaces))"

section \<open>The closure the catalog defines\<close>

definition succs :: "(string \<Rightarrow> Formula option) \<Rightarrow> string \<Rightarrow> string \<Rightarrow> string list" where
  "succs F tag n = (case F n of None \<Rightarrow> [] | Some f \<Rightarrow> DependenciesFor f tag)"

definition edges_ok :: "Node \<Rightarrow> string list \<Rightarrow> (string, Requirement) gomap \<Rightarrow> bool" where
  "edges_ok node ds es \<longleftrightarrow> gomap_ok es \<and> fst ` set es = set ds
     \<and> (\<forall>(k, q) \<in> set es. q = signedRequirement (tabRequirements node) k)"

definition closure_inv ::
  "unicode_tables \<Rightarrow> bottle_resolver \<Rightarrow> OPlatform \<Rightarrow> (string \<Rightarrow> Formula option) \<Rightarrow> string list \<Rightarrow> closure \<Rightarrow> bool" where
  "closure_inv U B target F roots s \<longleftrightarrow>
     (\<forall>n f. mget (cl_matches s) n = Some f \<longrightarrow> F n = Some f \<and> f_Bottle f \<noteq> None) \<and>
     set (cl_queue s) \<subseteq> fst ` set (cl_matches s) \<and>
     set (cl_queue s) \<subseteq> reachable (succs F (targetTag target)) roots \<and>
     gomap_ok (cl_nodes s) \<and> gomap_ok (cl_graph s) \<and> fst ` set (cl_graph s) = fst ` set (cl_nodes s) \<and>
     (\<forall>n node. mget (cl_nodes s) n = Some node \<longrightarrow> n \<in> reachable (succs F (targetTag target)) roots \<and>
        (\<exists>f. F n = Some f \<and> nodeFor U B target n f = Inr node)) \<and>
     (\<forall>n es. mget (cl_graph s) n = Some es \<longrightarrow>
        (\<exists>node. mget (cl_nodes s) n = Some node \<and> edges_ok node (succs F (targetTag target) n) es)) \<and>
     (\<forall>n \<in> fst ` set (cl_nodes s). set (succs F (targetTag target) n) \<subseteq> fst ` set (cl_nodes s) \<union> set (cl_queue s)) \<and>
     set roots \<subseteq> fst ` set (cl_nodes s) \<union> set (cl_queue s)"

subsection \<open>One Formula\<close>

lemma mergeRequirement_same [simp]:
  "mergeRequirement U zeroRequirement q = q" "mergeRequirement U q q = q"
  by (cases q, simp add: mergeRequirement_def zeroRequirement_def)
    (cases q, simp add: mergeRequirement_def Let_def split: prod.split)

lemma tabDeps_names:
  assumes "\<forall>k q. mget m k = Some q \<longrightarrow> rq_Name q = k"
  shows "mget (foldl (\<lambda>m req. mput (rq_Name req) req m) m rs) k = Some q \<Longrightarrow> rq_Name q = k"
  using assms
proof (induction rs arbitrary: m)
  case (Cons r rs)
  have "\<forall>k q. mget (mput (rq_Name r) r m) k = Some q \<longrightarrow> rq_Name q = k" using Cons.prems(2) by simp
  from Cons.IH [OF _ this] Cons.prems(1) show ?case by simp
qed simp

lemma signedRequirement_name [simp]: "rq_Name (signedRequirement (tabRequirements node) k) = k"
proof -
  have "rq_Name q = k" if "mget (tabRequirements node) k = Some q" for q
    using tabDeps_names [of "[]" "n_Dependencies node" k q] that by (simp add: tabRequirements_def)
  then show ?thesis by (simp add: signedRequirement_def split: option.split)
qed

definition canonical_lookup :: "catalog_lookup \<Rightarrow> string \<Rightarrow> bool" where
  "canonical_lookup lookup d \<longleftrightarrow> (\<forall>m. lookup d = Inr m \<longrightarrow> mt_Kind m = MatchCanonical \<and> mt_Canonical m = d)"

lemma dependencyStep_Inr:
  assumes "dependencyStep U lookup name tabDeps d s = Inr s'"
  obtains m where "lookup d = Inr m" and "mt_Kind m = MatchCanonical" and "mt_Canonical m = d"
    and "cl_matches s' = mput d (mt_Formula m) (cl_matches s)" and "cl_nodes s' = cl_nodes s"
    and "cl_queue s' = cl_queue s @ filter (\<lambda>d. \<not> mhas (cl_nodes s) d) [d]"
    and "cl_graph s' = mput name (mput d (mergeRequirement U (map_at zeroRequirement (map_at [] (cl_graph s) name) d)
        (signedRequirement tabDeps d)) (map_at [] (cl_graph s) name)) (cl_graph s)"
  using assms
  by (auto simp: dependencyStep_def Let_def split: sum.split_asm if_split_asm option.splits)

lemma dependencies_loop:
  assumes "for_result (dependencyStep U lookup name tabDeps) ds s = Inr s'"
    and "mget (cl_graph s) name = Some es" and "gomap_ok es" and "\<forall>(k, q) \<in> set es. q = signedRequirement tabDeps k"
  shows "\<exists>es'. cl_nodes s' = cl_nodes s
    \<and> cl_queue s' = cl_queue s @ filter (\<lambda>d. \<not> mhas (cl_nodes s) d) ds
    \<and> fst ` set (cl_matches s') = fst ` set (cl_matches s) \<union> set ds
    \<and> (\<forall>n f. mget (cl_matches s') n = Some f \<longrightarrow> mget (cl_matches s) n = Some f
          \<or> (\<exists>m. lookup n = Inr m \<and> mt_Canonical m = n \<and> mt_Formula m = f))
    \<and> (\<forall>n. mget (cl_graph s') n = (if n = name then Some es' else mget (cl_graph s) n))
    \<and> fst ` set (cl_graph s') = fst ` set (cl_graph s)
    \<and> (gomap_ok (cl_graph s) \<longrightarrow> gomap_ok (cl_graph s'))
    \<and> gomap_ok es' \<and> fst ` set es' = fst ` set es \<union> set ds
    \<and> (\<forall>(k, q) \<in> set es'. q = signedRequirement tabDeps k)"
  using assms
proof (induction ds arbitrary: s es)
  case Nil
  then show ?case by auto
next
  case (Cons d ds)
  from Cons.prems(1) obtain t where t: "dependencyStep U lookup name tabDeps d s = Inr t"
    and rest: "for_result (dependencyStep U lookup name tabDeps) ds t = Inr s'" by (auto split: sum.split_asm)
  have at: "map_at [] (cl_graph s) name = es" using Cons.prems(2) by (simp add: map_at_def)
  let ?q = "signedRequirement tabDeps d"
  let ?es = "mput d ?q es"
  have old: "mget es k = Some q \<Longrightarrow> q = signedRequirement tabDeps k" for k q
    using Cons.prems(4) unfolding gomap_names [OF Cons.prems(3)] by blast
  have merged: "mergeRequirement U (map_at zeroRequirement es d) ?q = ?q"
    using old [of d] by (auto simp: map_at_def split: option.split)
  from t obtain m where m: "lookup d = Inr m" "mt_Canonical m = d"
    and tm: "cl_matches t = mput d (mt_Formula m) (cl_matches s)" and tn: "cl_nodes t = cl_nodes s"
    and tq: "cl_queue t = cl_queue s @ filter (\<lambda>d. \<not> mhas (cl_nodes s) d) [d]"
    and tg: "cl_graph t = mput name ?es (cl_graph s)"
    by (elim dependencyStep_Inr) (simp add: at merged)
  have ok: "gomap_ok ?es" using Cons.prems(3) by simp
  have names: "\<forall>(k, q) \<in> set ?es. q = signedRequirement tabDeps k"
    unfolding gomap_names [OF ok] using old by simp
  have g: "mget (cl_graph t) name = Some ?es" by (simp add: tg)
  from Cons.IH [OF rest g ok names] obtain es' where
    IH: "cl_nodes s' = cl_nodes t" "cl_queue s' = cl_queue t @ filter (\<lambda>d. \<not> mhas (cl_nodes t) d) ds"
    "fst ` set (cl_matches s') = fst ` set (cl_matches t) \<union> set ds"
    "\<forall>n f. mget (cl_matches s') n = Some f \<longrightarrow> mget (cl_matches t) n = Some f
          \<or> (\<exists>m. lookup n = Inr m \<and> mt_Canonical m = n \<and> mt_Formula m = f)"
    "\<forall>n. mget (cl_graph s') n = (if n = name then Some es' else mget (cl_graph t) n)"
    "fst ` set (cl_graph s') = fst ` set (cl_graph t)"
    "gomap_ok (cl_graph t) \<longrightarrow> gomap_ok (cl_graph s')"
    "gomap_ok es'" "fst ` set es' = fst ` set ?es \<union> set ds"
    "\<forall>(k, q) \<in> set es'. q = signedRequirement tabDeps k"
    by (elim exE conjE) (rule that)
  have keys: "fst ` set (cl_graph t) = fst ` set (cl_graph s)"
    using mget_Some_in_keys [OF Cons.prems(2)] by (auto simp: tg)
  have mt: "mget (cl_matches s) n = Some f \<or> (\<exists>m. lookup n = Inr m \<and> mt_Canonical m = n \<and> mt_Formula m = f)"
    if "mget (cl_matches s') n = Some f" for n f
    using IH(4) that m by (auto simp: tm split: if_splits)
  show ?case
  proof (intro exI [of _ es'] conjI allI impI)
    show "cl_queue s' = cl_queue s @ filter (\<lambda>d. \<not> mhas (cl_nodes s) d) (d # ds)" using IH(2) by (simp add: tq tn)
    show "fst ` set (cl_matches s') = fst ` set (cl_matches s) \<union> set (d # ds)" using IH(3) by (auto simp: tm)
    show "mget (cl_graph s') n = (if n = name then Some es' else mget (cl_graph s) n)" for n
      using IH(5) by (simp add: tg)
    show "fst ` set es' = fst ` set es \<union> set (d # ds)" using IH(9) by auto
    show "gomap_ok (cl_graph s) \<Longrightarrow> gomap_ok (cl_graph s')" using IH(7) by (simp add: tg)
    show "cl_nodes s' = cl_nodes s" using IH(1) tn by simp
    show "mget (cl_matches s') n = Some f \<Longrightarrow> mget (cl_matches s) n = Some f
        \<or> (\<exists>m. lookup n = Inr m \<and> mt_Canonical m = n \<and> mt_Formula m = f)" for n f by (rule mt)
    show "fst ` set (cl_graph s') = fst ` set (cl_graph s)" using IH(6) keys by (rule trans)
    show "gomap_ok es'" "\<forall>(k, q) \<in> set es'. q = signedRequirement tabDeps k" by (rule IH(8), rule IH(10))
  qed
qed

lemma dependencies_error:
  assumes "for_result (dependencyStep U lookup name tabDeps) ds s = Inl e"
    and "\<forall>d \<in> set ds. canonical_lookup lookup d"
  shows "\<exists>d le. d \<in> set ds \<and> lookup d = Inl le \<and> e = SignedDependencyLookup name d le"
  using assms
proof (induction ds arbitrary: s)
  case (Cons d ds)
  show ?case
  proof (cases "lookup d")
    case (Inl le)
    then have "e = SignedDependencyLookup name d le" using Cons.prems(1) by (simp add: dependencyStep_def)
    with Inl show ?thesis by auto
  next
    case (Inr m)
    then obtain t where t: "dependencyStep U lookup name tabDeps d s = Inr t"
      using Cons.prems(2) by (simp add: dependencyStep_def canonical_lookup_def Let_def)
    with Cons.prems(1) have "for_result (dependencyStep U lookup name tabDeps) ds t = Inl e" by simp
    from Cons.IH [OF this] Cons.prems(2) obtain d' le where "d' \<in> set ds" "lookup d' = Inl le"
      "e = SignedDependencyLookup name d' le" by auto
    then show ?thesis by auto
  qed
qed simp

subsection \<open>Why a resolution fails\<close>

text \<open>
  The causes of the errors of a resolution, in terms of the catalog, the bottle source and the options
  alone; an error that only a broken invariant could produce has no cause.
\<close>

definition canonical_roots :: "catalog_lookup \<Rightarrow> string list \<Rightarrow> string list" where
  "canonical_roots lookup roots =
     concat (map (\<lambda>n. case lookup n of Inl e \<Rightarrow> [] | Inr m \<Rightarrow> [mt_Canonical m]) roots)"

definition node_cause ::
  "unicode_tables \<Rightarrow> bottle_resolver \<Rightarrow> OPlatform \<Rightarrow> string \<Rightarrow> Formula \<Rightarrow> resolver_error \<Rightarrow> bool" where
  "node_cause U B target n f e \<longleftrightarrow>
     (\<exists>u. e = BottleRootUnsupported n u \<and> (\<exists>b. f_Bottle f = Some b \<and> b_RootURL b = u
        \<and> u \<noteq> ''https://ghcr.io/v2/homebrew/core''))
     \<or> (\<exists>oe g. e = BottleError n oe \<and> toOCIFormula f target = Inr g \<and> B g target = Inl oe)
     \<or> (\<exists>ce g sel. e = RuntimeIncompatible n ce \<and> toOCIFormula f target = Inr g \<and> B g target = Inr sel
        \<and> validateRuntimeCompatibility U (rb_tab (rs_Bottle sel)) target = Some ce)"

definition closure_cause ::
  "unicode_tables \<Rightarrow> catalog_lookup \<Rightarrow> bottle_resolver \<Rightarrow> OPlatform \<Rightarrow> (string \<Rightarrow> Formula option) \<Rightarrow> string list
     \<Rightarrow> resolver_error \<Rightarrow> bool" where
  "closure_cause U lookup B target F roots e \<longleftrightarrow>
     (\<exists>n \<in> reachable (succs F (targetTag target)) roots. \<exists>f. F n = Some f \<and>
        (node_cause U B target n f e
         \<or> (\<exists>d le. e = SignedDependencyLookup n d le \<and> d \<in> set (DependenciesFor f (targetTag target))
            \<and> lookup d = Inl le)))"

section \<open>The roots\<close>

lemma roots_loop:
  assumes "for_result (rootStep lookup target) roots s = Inr t"
    and "set (ro_queue s) = fst ` set (ro_matches s)"
    and "\<forall>k f. mget (ro_matches s) k = Some f \<longrightarrow> (\<exists>n m. lookup n = Inr m \<and> mt_Canonical m = k \<and> mt_Formula m = f)"
  shows "map rr_Canonical (ro_requested t) = map rr_Canonical (ro_requested s) @ canonical_roots lookup roots
    \<and> map rr_Requested (ro_requested t) = map rr_Requested (ro_requested s) @ roots
    \<and> (\<forall>n \<in> set roots. \<exists>m. lookup n = Inr m)
    \<and> set (ro_queue t) = set (ro_queue s) \<union> set (canonical_roots lookup roots)
    \<and> set (ro_queue t) = fst ` set (ro_matches t)
    \<and> (\<forall>k f. mget (ro_matches t) k = Some f \<longrightarrow> (\<exists>n m. lookup n = Inr m \<and> mt_Canonical m = k \<and> mt_Formula m = f))"
  using assms
proof (induction roots arbitrary: s)
  case Nil
  then show ?case by (simp add: canonical_roots_def)
next
  case (Cons r roots)
  obtain m where m: "lookup r = Inr m" using Cons.prems(1) by (cases "lookup r") (simp_all add: rootStep_def)
  obtain u where u: "rootStep lookup target r s = Inr u" by (simp add: rootStep_def m)
  have rest: "for_result (rootStep lookup target) roots u = Inr t" using Cons.prems(1) u by simp
  from u m have u': "ro_requested u = ro_requested s @ [\<lparr>rr_Requested = r, rr_Canonical = mt_Canonical m,
        rr_KegOnly = KegOnlyFor (mt_Formula m) (targetTag target)\<rparr>]"
    "ro_queue u = (if mhas (ro_matches s) (mt_Canonical m) then ro_queue s else ro_queue s @ [mt_Canonical m])"
    "ro_matches u = mput (mt_Canonical m) (mt_Formula m) (ro_matches s)"
    by (auto simp: rootStep_def)
  have queue: "set (ro_queue u) = insert (mt_Canonical m) (set (ro_queue s))"
    using Cons.prems(2) by (auto simp: u'(2) mhas_iff)
  have keys: "set (ro_queue u) = fst ` set (ro_matches u)" using Cons.prems(2) by (simp add: queue u'(3))
  have from_lookup: "\<forall>k f. mget (ro_matches u) k = Some f \<longrightarrow> (\<exists>n m. lookup n = Inr m \<and> mt_Canonical m = k \<and> mt_Formula m = f)"
    using Cons.prems(3) m by (auto simp: u'(3))
  have roots: "canonical_roots lookup (r # roots) = mt_Canonical m # canonical_roots lookup roots"
    by (simp add: canonical_roots_def m)
  note IH = Cons.IH [OF rest keys from_lookup, unfolded u'(1) queue]
  show ?case
  proof (intro conjI)
    show "set (ro_queue t) = fst ` set (ro_matches t)"
      "\<forall>k f. mget (ro_matches t) k = Some f \<longrightarrow> (\<exists>n m. lookup n = Inr m \<and> mt_Canonical m = k \<and> mt_Formula m = f)"
      by (insert IH, elim conjE, assumption)+
    have "set (ro_queue t) = insert (mt_Canonical m) (set (ro_queue s)) \<union> set (canonical_roots lookup roots)"
      by (insert IH, elim conjE, assumption)
    then show "set (ro_queue t) = set (ro_queue s) \<union> set (canonical_roots lookup (r # roots))" by (simp add: roots)
  qed (use IH m in \<open>simp_all add: roots\<close>)
qed

lemma roots_error:
  "for_result (rootStep lookup target) roots s = Inl e \<Longrightarrow>
     \<exists>n le. n \<in> set roots \<and> lookup n = Inl le \<and> e = RootLookup n le"
proof (induction roots arbitrary: s)
  case (Cons r roots)
  then show ?case by (cases "lookup r") (auto simp: rootStep_def, blast)
qed simp

section \<open>Requirements\<close>

definition selectedRequirement :: "(string, Node) gomap \<Rightarrow> string \<times> Requirement \<Rightarrow> string \<times> Requirement" where
  "selectedRequirement nodes = (\<lambda>(name, req). (name,
     case mget nodes name of None \<Rightarrow> req | Some n \<Rightarrow> fillFrom n req))"

definition requirement_met :: "unicode_tables \<Rightarrow> (string, Node) gomap \<Rightarrow> string \<times> Requirement \<Rightarrow> bool" where
  "requirement_met U nodes e \<longleftrightarrow>
     (\<exists>n. mget nodes (fst e) = Some n \<and> satisfies U n (snd (selectedRequirement nodes e)))"

definition same_versions :: "(string, Node) gomap \<Rightarrow> (string, Node) gomap \<Rightarrow> bool" where
  "same_versions nodes nodes' \<longleftrightarrow>
     (\<forall>n. map_option (n_Dependencies_update (\<lambda>_. [])) (mget nodes n)
        = map_option (n_Dependencies_update (\<lambda>_. [])) (mget nodes' n))"

lemma erased_fields:
  assumes "n_Dependencies_update (\<lambda>_. []) n = n_Dependencies_update (\<lambda>_. []) n'"
  shows "n_PkgVersion n = n_PkgVersion n'" "n_FormulaRevision n = n_FormulaRevision n'"
    "n_BottleRebuild n = n_BottleRebuild n'" "satisfies U n req = satisfies U n' req" "fillFrom n req = fillFrom n' req"
proof -
  show fields: "n_PkgVersion n = n_PkgVersion n'" "n_FormulaRevision n = n_FormulaRevision n'"
    "n_BottleRebuild n = n_BottleRebuild n'"
    using arg_cong [OF assms, of n_PkgVersion] arg_cong [OF assms, of n_FormulaRevision]
      arg_cong [OF assms, of n_BottleRebuild] by simp_all
  have version: "n_FormulaVersion n = n_FormulaVersion n'" using arg_cong [OF assms, of n_FormulaVersion] by simp
  show "satisfies U n req = satisfies U n' req" unfolding satisfies_def fields version ..
  show "fillFrom n req = fillFrom n' req" unfolding fillFrom_def fields ..
qed

lemma fillRequirement_Inr:
  "fillRequirement U nodes parent e = Inr e' \<longleftrightarrow> requirement_met U nodes e \<and> e' = selectedRequirement nodes e"
  by (cases e) (auto simp: fillRequirement_def requirement_met_def selectedRequirement_def Let_def
      split: option.split)

lemma same_versions_cong:
  assumes "same_versions nodes nodes'"
  shows "selectedRequirement nodes e = selectedRequirement nodes' e"
    and "requirement_met U nodes e = requirement_met U nodes' e"
proof -
  obtain k q where e: "e = (k, q)" by (cases e)
  have same: "map_option (n_Dependencies_update (\<lambda>_. [])) (mget nodes k)
      = map_option (n_Dependencies_update (\<lambda>_. [])) (mget nodes' k)"
    using assms by (simp add: same_versions_def)
  have "selectedRequirement nodes e = selectedRequirement nodes' e
    \<and> requirement_met U nodes e = requirement_met U nodes' e"
  proof (cases "mget nodes k")
    case None
    then have "mget nodes' k = None" using same by simp
    with None show ?thesis by (simp add: requirement_met_def selectedRequirement_def e)
  next
    case (Some n)
    then obtain n' where n': "mget nodes' k = Some n'"
      and erased: "n_Dependencies_update (\<lambda>_. []) n = n_Dependencies_update (\<lambda>_. []) n'"
      using same by (cases "mget nodes' k") simp_all
    note eq = erased_fields [OF erased]
    have "selectedRequirement nodes e = selectedRequirement nodes' e"
      unfolding selectedRequirement_def e prod.case Some n' option.case eq(5) ..
    moreover have "requirement_met U nodes (k, q) = requirement_met U nodes' (k, q)"
      unfolding requirement_met_def fst_conv Some n' calculation [unfolded e] using eq(4) by simp
    ultimately show ?thesis by (simp add: e)
  qed
  then show "selectedRequirement nodes e = selectedRequirement nodes' e"
    "requirement_met U nodes e = requirement_met U nodes' e" by blast+
qed

text \<open>The pass over the graph replaces the dependencies of every node and checks them.\<close>

lemma fill_loop:
  assumes "for_result (fillParent U) g nodes = Inr nodes'" and "distinct (mkeys g)"
    and "fst ` set g \<subseteq> fst ` set nodes"
  shows "mkeys nodes' = mkeys nodes \<and> same_versions nodes nodes'
    \<and> (\<forall>n. mget nodes' n = map_option (\<lambda>node. case mget g n of None \<Rightarrow> node
          | Some es \<Rightarrow> node\<lparr>n_Dependencies := mapRequirements (map (selectedRequirement nodes) es)\<rparr>) (mget nodes n))
    \<and> (\<forall>(p, es) \<in> set g. \<forall>e \<in> set es. requirement_met U nodes e)"
  using assms
proof (induction g arbitrary: nodes)
  case Nil
  then show ?case by (simp add: same_versions_def option.map_ident)
next
  case (Cons x g)
  obtain p es where x: "x = (p, es)" by (cases x)
  from Cons.prems(3) obtain node where node: "mget nodes p = Some node"
    using in_keys_mget [of p nodes] by (auto simp: x)
  define mid where "mid = mput p (node\<lparr>n_Dependencies := mapRequirements (map (selectedRequirement nodes) es)\<rparr>) nodes"
  from Cons.prems(1) have met: "\<forall>e \<in> set es. requirement_met U nodes e"
    and rest: "for_result (fillParent U) g mid = Inr nodes'"
    by (auto simp: x fillParent_def map_at_def node mid_def map_result_map [OF fillRequirement_Inr]
        split: sum.split_asm)
  have keys: "mkeys mid = mkeys nodes"
    using mget_Some_in_keys [OF node] by (simp add: mid_def update_keys)
  then have sets: "fst ` set mid = fst ` set nodes" by (metis set_map)
  have same: "same_versions nodes mid" using node by (simp add: same_versions_def mid_def)
  have new: "p \<notin> fst ` set g" and dist: "distinct (mkeys g)" using Cons.prems(2) by (simp_all add: x)
  have sub: "fst ` set g \<subseteq> fst ` set mid" using Cons.prems(3) by (simp add: sets)
  have sel: "selectedRequirement mid = selectedRequirement nodes" "requirement_met U mid = requirement_met U nodes"
    using same_versions_cong [OF same] by auto
  note IH = Cons.IH [OF rest dist sub, unfolded sel]
  have get: "mget nodes' n = map_option (\<lambda>node. case mget (x # g) n of None \<Rightarrow> node
          | Some es \<Rightarrow> node\<lparr>n_Dependencies := mapRequirements (map (selectedRequirement nodes) es)\<rparr>) (mget nodes n)" for n
  proof (cases "n = p")
    case True
    then have "mget g n = None" using new by (simp add: map_of_eq_None_iff)
    with IH True node show ?thesis by (simp add: x mid_def)
  next
    case False
    with IH show ?thesis by (simp add: x mid_def)
  qed
  have "same_versions nodes nodes'" using same IH by (simp add: same_versions_def)
  with IH keys get met show ?case by (simp add: x)
qed

lemma fill_error:
  assumes "for_result (fillParent U) g nodes = Inl e" and "distinct (mkeys g)" and "fst ` set g \<subseteq> fst ` set nodes"
    and "\<forall>(p, es) \<in> set g. fst ` set es \<subseteq> fst ` set nodes"
  shows "\<exists>p es d q. (p, es) \<in> set g \<and> (d, q) \<in> set es \<and> \<not> requirement_met U nodes (d, q) \<and> e = Unsatisfied p d"
  using assms
proof (induction g arbitrary: nodes)
  case (Cons x g)
  obtain p es where x: "x = (p, es)" by (cases x)
  show ?case
  proof (cases "map_result (fillRequirement U nodes p) es")
    case (Inl e')
    have sub: "fst ` set es \<subseteq> fst ` set nodes" using Cons.prems(4) by (simp add: x)
    have "\<exists>d q. (d, q) \<in> set es \<and> \<not> requirement_met U nodes (d, q) \<and> e' = Unsatisfied p d"
      using Inl sub
    proof (induction es)
      case (Cons y ys)
      obtain d q where y: "y = (d, q)" by (cases y)
      obtain n where n: "mget nodes d = Some n"
        using Cons.prems(2) in_keys_mget [of d nodes] by (auto simp: y)
      show ?case
      proof (cases "fillRequirement U nodes p y")
        case (Inl e'')
        then have "e'' = Unsatisfied p d" by (auto simp: y fillRequirement_def n Let_def split: if_split_asm)
        moreover have "\<not> requirement_met U nodes (d, q)"
          using Inl fillRequirement_Inr [of U nodes p y "selectedRequirement nodes y"] y by auto
        ultimately show ?thesis using Inl Cons.prems(1) by (auto simp: y)
      next
        case (Inr y')
        with Cons.prems(1) have "map_result (fillRequirement U nodes p) ys = Inl e'" by (auto split: sum.split_asm)
        with Cons.IH Cons.prems(2) obtain d' q' where "(d', q') \<in> set ys" "\<not> requirement_met U nodes (d', q')"
          "e' = Unsatisfied p d'" by (auto simp: x)
        then show ?thesis by auto
      qed
    qed simp
    moreover have "e = e'" using Cons.prems(1) Inl by (simp add: x fillParent_def)
    ultimately show ?thesis by (auto simp: x)
  next
    case (Inr fs)
    let ?mid = "mput p ((map_at zeroNode nodes p)\<lparr>n_Dependencies := mapRequirements fs\<rparr>) nodes"
    have p: "p \<in> fst ` set nodes" using Cons.prems(3) by (simp add: x)
    then obtain node where node: "mget nodes p = Some node" using in_keys_mget [of p nodes] by auto
    have sets: "fst ` set ?mid = fst ` set nodes" using p by auto
    have same: "same_versions nodes ?mid" by (simp add: same_versions_def node map_at_def)
    have "for_result (fillParent U) g ?mid = Inl e" using Cons.prems(1) Inr by (simp add: x fillParent_def)
    from Cons.IH [OF this] Cons.prems(2-4) sets obtain p' es' d q
      where "(p', es') \<in> set g" "(d, q) \<in> set es'" "\<not> requirement_met U ?mid (d, q)" "e = Unsatisfied p' d"
      by (auto simp: x)
    then show ?thesis using same_versions_cong(2) [OF same] by auto
  qed
qed simp

section \<open>What the resolver needs of a catalog and of a bottle source\<close>

lemma linux_targetTag: "linux_tag (targetTag target)"
  by (simp add: linux_tag_def targetTag_def BottleTagARM64Linux_def BottleTagX8664Linux_def)

locale formula_catalog =
  fixes lookup :: "'c \<Rightarrow> catalog_lookup" and formula_of :: "'c \<Rightarrow> string \<Rightarrow> Formula option"
    and good_catalog :: "'c \<Rightarrow> bool"
  assumes lookup_formula: "good_catalog c \<Longrightarrow> lookup c n = Inr m \<Longrightarrow>
      formula_of c (mt_Canonical m) = Some (mt_Formula m) \<and> f_Bottle (mt_Formula m) \<noteq> None"
    and lookup_canonical: "good_catalog c \<Longrightarrow> formula_of c n \<noteq> None \<Longrightarrow> canonical_lookup (lookup c) n"
    and formula_name: "good_catalog c \<Longrightarrow> formula_of c n = Some f \<Longrightarrow> f_Name f = n"
    and dependency_known: "good_catalog c \<Longrightarrow> formula_of c n = Some f \<Longrightarrow> linux_tag tag \<Longrightarrow>
      d \<in> set (DependenciesFor f tag) \<Longrightarrow> formula_of c d \<noteq> None"
    and finite_names: "good_catalog c \<Longrightarrow> finite {n. formula_of c n \<noteq> None}"
    and acyclic: "good_catalog c \<Longrightarrow> linux_tag tag \<Longrightarrow> \<nexists>cyc. is_cycle (succs (formula_of c) tag) cyc"

locale bottle_source =
  fixes resolve :: "'b \<Rightarrow> bottle_resolver" and tables :: "'b \<Rightarrow> unicode_tables"
    and digests :: "'b \<Rightarrow> digest_lib" and good_source :: "'b \<Rightarrow> bool"
  assumes resolved_formula: "resolve b f target = Inr r \<Longrightarrow>
      rs_Formula r = f \<and> fr_PkgVersion (rb_reference (rs_Bottle r)) = PkgVersion (of_StableVersion f) (of_Revision f)"
    and resolved_valid: "good_source b \<Longrightarrow> resolve b f target = Inr r \<Longrightarrow> \<not> mhas nodes (of_Name f) \<Longrightarrow>
      [] \<notin> rq_Name ` set ds \<Longrightarrow> distinct (map rq_Name ds) \<Longrightarrow>
      nodeErrors (tables b) (digests b) (platform_of target) nodes ((ResolutionNode r)\<lparr>n_Dependencies := ds\<rparr>) = []"

locale core_resolver =
  formula_catalog lookup formula_of good_catalog + bottle_source resolve tables digests good_source
  for lookup :: "'c \<Rightarrow> catalog_lookup" and formula_of :: "'c \<Rightarrow> string \<Rightarrow> Formula option"
    and good_catalog :: "'c \<Rightarrow> bool" and resolve :: "'b \<Rightarrow> bottle_resolver" and tables :: "'b \<Rightarrow> unicode_tables"
    and digests :: "'b \<Rightarrow> digest_lib" and good_source :: "'b \<Rightarrow> bool"
begin

lemma nodeFor_Inl:
  assumes "good_catalog c" and "formula_of c n = Some f" and "f_Bottle f \<noteq> None"
    and "nodeFor U (resolve b) target n f = Inl e"
  shows "node_cause U (resolve b) target n f e"
proof -
  from assms(3) obtain bt where bt: "f_Bottle f = Some bt" by auto
  have name: "f_Name f = n" using formula_name assms(1,2) by blast
  show ?thesis
  proof (cases "toOCIFormula f target")
    case (Inl e')
    with assms(4) bt name show ?thesis
      by (auto simp: nodeFor_def toOCIFormula_def node_cause_def split: if_split_asm)
  next
    case (Inr g)
    then have g: "of_Name g = n" "of_StableVersion g = f_StableVersion f" "of_Revision g = f_Revision f"
      using bt name by (auto simp: toOCIFormula_def split: if_split_asm)
    show ?thesis
    proof (cases "resolve b g target")
      case (Inl oe)
      with assms(4) Inr show ?thesis by (auto simp: nodeFor_def node_cause_def)
    next
      case (Inr sel)
      with resolved_formula [OF this] g have "n_Name (ResolutionNode sel) = n"
        "n_PkgVersion (ResolutionNode sel) = Formula_PkgVersion f"
        by (simp_all add: ResolutionNode_def Let_def PkgVersion_def Formula_PkgVersion_def)
      with assms(4) Inr \<open>toOCIFormula f target = Inr g\<close> show ?thesis
        by (auto simp: nodeFor_def node_cause_def Let_def split: option.split_asm)
    qed
  qed
qed

text \<open>A name already done leaves the queue; the invariant does not need it there.\<close>

lemma skip_inv:
  assumes "closure_inv U B target F roots s" and "cl_queue s = n # q" and "mhas (cl_nodes s) n"
  shows "closure_inv U B target F roots (s\<lparr>cl_queue := q\<rparr>)"
proof -
  have "n \<in> fst ` set (cl_nodes s)" using assms(3) by (simp add: mhas_iff)
  then have eq: "fst ` set (cl_nodes s) \<union> set (n # q) = fst ` set (cl_nodes s) \<union> set q" by auto
  from assms(1) [unfolded closure_inv_def assms(2) eq] show ?thesis unfolding closure_inv_def by simp
qed

lemma step_inv:
  assumes c: "good_catalog c" and inv: "closure_inv U (resolve b) target (formula_of c) roots s"
    and q: "cl_queue s = n # q" and new: "\<not> mhas (cl_nodes s) n"
    and step: "closureStep U (lookup c) (resolve b) target s = Inr s'"
  shows "closure_inv U (resolve b) target (formula_of c) roots s'
    \<and> fst ` set (cl_nodes s') = insert n (fst ` set (cl_nodes s)) \<and> formula_of c n \<noteq> None"
proof -
  let ?F = "formula_of c" and ?tag = "targetTag target" and ?R = "reachable (succs (formula_of c) (targetTag target)) roots"
  have inv': "\<forall>n f. mget (cl_matches s) n = Some f \<longrightarrow> ?F n = Some f \<and> f_Bottle f \<noteq> None"
    "set (n # q) \<subseteq> fst ` set (cl_matches s)" "set (n # q) \<subseteq> ?R" "gomap_ok (cl_nodes s)" "gomap_ok (cl_graph s)"
    "fst ` set (cl_graph s) = fst ` set (cl_nodes s)"
    "\<forall>n node. mget (cl_nodes s) n = Some node \<longrightarrow> n \<in> ?R \<and>
        (\<exists>f. ?F n = Some f \<and> nodeFor U (resolve b) target n f = Inr node)"
    "\<forall>n es. mget (cl_graph s) n = Some es \<longrightarrow>
        (\<exists>node. mget (cl_nodes s) n = Some node \<and> edges_ok node (succs ?F ?tag n) es)"
    "\<forall>k \<in> fst ` set (cl_nodes s). set (succs ?F ?tag k) \<subseteq> fst ` set (cl_nodes s) \<union> set (n # q)"
    "set roots \<subseteq> fst ` set (cl_nodes s) \<union> set (n # q)"
    by (insert inv [unfolded closure_inv_def q], elim conjE, assumption)+
  have reach: "n \<in> ?R" and "n \<in> fst ` set (cl_matches s)" using inv'(2,3) by simp_all
  then obtain f where m: "mget (cl_matches s) n = Some f" using in_keys_mget [of n "cl_matches s"] by auto
  then have f: "?F n = Some f" using inv'(1) by blast
  have fresh: "n \<notin> fst ` set (cl_nodes s)" using new by (simp add: mhas_iff)
  then have graph: "\<not> mhas (cl_graph s) n" using inv'(6) by (simp add: mhas_iff)
  have succs: "succs ?F ?tag n = DependenciesFor f ?tag" by (simp add: succs_def f)
  from step new graph obtain node where node: "nodeFor U (resolve b) target n f = Inr node"
    and run: "for_result (dependencyStep U (lookup c) n (tabRequirements node)) (DependenciesFor f ?tag)
        (s\<lparr>cl_queue := q, cl_matches := cl_matches s, cl_nodes := mput n node (cl_nodes s),
           cl_graph := mput n [] (cl_graph s)\<rparr>) = Inr s'"
    by (auto simp: closureStep_def q formulaFor_def m Let_def split: sum.split_asm)
  define t where "t = s\<lparr>cl_queue := q, cl_matches := cl_matches s, cl_nodes := mput n node (cl_nodes s),
           cl_graph := mput n [] (cl_graph s)\<rparr>"
  have t: "cl_queue t = q" "cl_matches t = cl_matches s" "cl_nodes t = mput n node (cl_nodes s)"
    "cl_graph t = mput n [] (cl_graph s)" by (simp_all add: t_def)
  have start: "mget (cl_graph t) n = Some []" "\<forall>(k, q) \<in> set []. q = signedRequirement (tabRequirements node) k"
    by (simp_all add: t)
  from dependencies_loop [OF run [folded t_def] start(1) gomap_ok_Nil start(2), unfolded t] obtain es' where
    loop: "cl_nodes s' = mput n node (cl_nodes s)"
    "cl_queue s' = q @ filter (\<lambda>d. \<not> mhas (mput n node (cl_nodes s)) d) (DependenciesFor f ?tag)"
    "fst ` set (cl_matches s') = fst ` set (cl_matches s) \<union> set (DependenciesFor f ?tag)"
    "\<forall>k g. mget (cl_matches s') k = Some g \<longrightarrow> mget (cl_matches s) k = Some g
       \<or> (\<exists>m. lookup c k = Inr m \<and> mt_Canonical m = k \<and> mt_Formula m = g)"
    "\<forall>k. mget (cl_graph s') k = (if k = n then Some es' else mget (mput n [] (cl_graph s)) k)"
    "fst ` set (cl_graph s') = fst ` set (mput n [] (cl_graph s))"
    "gomap_ok (mput n [] (cl_graph s)) \<longrightarrow> gomap_ok (cl_graph s')"
    "gomap_ok es'" "fst ` set es' = fst ` set ([] :: (string, Requirement) gomap) \<union> set (DependenciesFor f ?tag)"
    "\<forall>(k, q) \<in> set es'. q = signedRequirement (tabRequirements node) k"
    by (elim exE conjE) (rule that)
  have keys: "fst ` set (cl_nodes s') = insert n (fst ` set (cl_nodes s))" by (simp add: loop(1))
  have queued: "fst ` set (cl_nodes s') \<union> set (cl_queue s')
      = insert n (fst ` set (cl_nodes s)) \<union> set q \<union> set (DependenciesFor f ?tag)"
    by (auto simp: loop(1,2) mhas_iff)
  have deps_reach: "set (DependenciesFor f ?tag) \<subseteq> ?R"
    using reachable_step [OF reach] by (auto simp: succs [symmetric])
  have "closure_inv U (resolve b) target ?F roots s'"
    unfolding closure_inv_def
  proof (intro conjI allI impI ballI)
    have "?F k = Some g \<and> f_Bottle g \<noteq> None" if "mget (cl_matches s') k = Some g" for k g
      using loop(4) [rule_format, OF that] inv'(1) lookup_formula [OF c, of k] by blast
    then show "?F k = Some g" "f_Bottle g \<noteq> None" if "mget (cl_matches s') k = Some g" for k g
      using that by blast+
    show "set (cl_queue s') \<subseteq> fst ` set (cl_matches s')" "set (cl_queue s') \<subseteq> ?R"
      using inv'(2,3) deps_reach by (auto simp: loop(2,3))
    show "gomap_ok (cl_nodes s')" "gomap_ok (cl_graph s')" using inv'(4,5) loop(7) by (simp_all add: loop(1))
    show "fst ` set (cl_graph s') = fst ` set (cl_nodes s')" using inv'(6) by (simp add: loop(6) keys)
    show "k \<in> ?R" "\<exists>f. ?F k = Some f \<and> nodeFor U (resolve b) target k f = Inr nd"
      if "mget (cl_nodes s') k = Some nd" for k nd
      using that inv'(7) reach f node by (auto simp: loop(1) split: if_split_asm)
    show "\<exists>nd. mget (cl_nodes s') k = Some nd \<and> edges_ok nd (succs ?F ?tag k) es"
      if "mget (cl_graph s') k = Some es" for k es
    proof (cases "k = n")
      case True
      with that loop(5,8,9,10) show ?thesis by (simp add: edges_ok_def succs loop(1))
    next
      case False
      with that loop(5) have "mget (cl_graph s) k = Some es" by simp
      with inv'(8) False show ?thesis by (simp add: loop(1))
    qed
    show "set (succs ?F ?tag k) \<subseteq> fst ` set (cl_nodes s') \<union> set (cl_queue s')"
      if "k \<in> fst ` set (cl_nodes s')" for k
    proof (cases "k = n")
      case False
      then have "k \<in> fst ` set (cl_nodes s)" using that by (simp add: keys)
      then have "set (succs ?F ?tag k) \<subseteq> fst ` set (cl_nodes s) \<union> set (n # q)" using inv'(9) by blast
      then show ?thesis unfolding queued by auto
    qed (auto simp: queued succs)
    from inv'(10) show "set roots \<subseteq> fst ` set (cl_nodes s') \<union> set (cl_queue s')" unfolding queued by auto
  qed
  with keys f show ?thesis by simp
qed

lemma step_error:
  assumes c: "good_catalog c" and inv: "closure_inv U (resolve b) target (formula_of c) roots s"
    and q: "cl_queue s = n # q" and new: "\<not> mhas (cl_nodes s) n"
    and step: "closureStep U (lookup c) (resolve b) target s = Inl e"
  shows "closure_cause U (lookup c) (resolve b) target (formula_of c) roots e"
proof -
  have matches: "\<forall>n f. mget (cl_matches s) n = Some f \<longrightarrow> formula_of c n = Some f \<and> f_Bottle f \<noteq> None"
    and keys: "set (n # q) \<subseteq> fst ` set (cl_matches s)"
    and reach: "set (n # q) \<subseteq> reachable (succs (formula_of c) (targetTag target)) roots"
    by (insert inv [unfolded closure_inv_def q], elim conjE, assumption)+
  from keys have "n \<in> set (mkeys (cl_matches s))" by simp
  then obtain f where m: "mget (cl_matches s) n = Some f" using in_keys_mget by fast
  then have f: "formula_of c n = Some f" "f_Bottle f \<noteq> None" using matches by blast+
  have known: "\<forall>d \<in> set (DependenciesFor f (targetTag target)). canonical_lookup (lookup c) d"
    using dependency_known [OF c f(1) linux_targetTag] lookup_canonical [OF c] by blast
  show ?thesis
  proof (cases "nodeFor U (resolve b) target n f")
    case (Inl e')
    with step new have "e = e'" by (simp add: closureStep_def q formulaFor_def m Let_def)
    with nodeFor_Inl [OF c f Inl] f(1) reach show ?thesis unfolding closure_cause_def by auto
  next
    case (Inr node)
    with step new obtain t where "for_result (dependencyStep U (lookup c) n (tabRequirements node))
        (DependenciesFor f (targetTag target)) t = Inl e"
      by (simp add: closureStep_def q formulaFor_def m Let_def)
    from dependencies_error [OF this known] f(1) reach show ?thesis unfolding closure_cause_def by auto
  qed
qed

text \<open>
  Every step uses up a name of the catalog or a place in the queue, so the loop returns, and when it
  returns without error the nodes are exactly the Formulae the roots reach.
\<close>

lemma loop_returns:
  assumes c: "good_catalog c" and inv: "closure_inv U (resolve b) target (formula_of c) roots s"
  shows "\<exists>res. closureLoop (closureStep U (lookup c) (resolve b) target) s = Some res
    \<and> (\<forall>e. res = Inl e \<longrightarrow> closure_cause U (lookup c) (resolve b) target (formula_of c) roots e)
    \<and> (\<forall>s'. res = Inr s' \<longrightarrow> closure_inv U (resolve b) target (formula_of c) roots s' \<and> cl_queue s' = [])"
  using inv
proof (induction s rule: wf_induct_rule [OF wf_measures
      [of "[\<lambda>s. card ({n. formula_of c n \<noteq> None} - fst ` set (cl_nodes s)), \<lambda>s. length (cl_queue s)]"]])
  case (1 s)
  show ?case
  proof (cases "cl_queue s")
    case Nil
    with "1.prems" show ?thesis by (subst closureLoop.simps) simp
  next
    case (Cons n q)
    let ?step = "closureStep U (lookup c) (resolve b) target"
    have unfold: "closureLoop ?step s = (case ?step s of Inl e \<Rightarrow> Some (Inl e) | Inr s' \<Rightarrow> closureLoop ?step s')"
      using Cons by (subst closureLoop.simps) simp
    show ?thesis
    proof (cases "mhas (cl_nodes s) n")
      case True
      then have skip: "?step s = Inr (s\<lparr>cl_queue := q\<rparr>)" using Cons by (simp add: closureStep_def Let_def)
      have less: "(s\<lparr>cl_queue := q\<rparr>, s) \<in> measures
          [\<lambda>s. card ({n. formula_of c n \<noteq> None} - fst ` set (cl_nodes s)), \<lambda>s. length (cl_queue s)]"
        using Cons by simp
      from "1.IH" [OF less skip_inv [OF "1.prems" Cons True]] show ?thesis by (simp only: unfold skip sum.case)
    next
      case False
      show ?thesis
      proof (cases "?step s")
        case (Inl e)
        with step_error [OF c "1.prems" Cons False Inl] show ?thesis by (simp add: unfold)
      next
        case (Inr s')
        note ok = step_inv [OF c "1.prems" Cons False Inr]
        have "n \<notin> fst ` set (cl_nodes s)" using False by (simp add: mhas_iff)
        then have "{n. formula_of c n \<noteq> None} - fst ` set (cl_nodes s')
            \<subset> {n. formula_of c n \<noteq> None} - fst ` set (cl_nodes s)" using ok by auto
        then have "card ({n. formula_of c n \<noteq> None} - fst ` set (cl_nodes s'))
            < card ({n. formula_of c n \<noteq> None} - fst ` set (cl_nodes s))"
          using finite_names [OF c] by (intro psubset_card_mono) auto
        then have less: "(s', s) \<in> measures
          [\<lambda>s. card ({n. formula_of c n \<noteq> None} - fst ` set (cl_nodes s)), \<lambda>s. length (cl_queue s)]"
          by simp
        from "1.IH" [OF less] ok show ?thesis by (simp only: unfold Inr sum.case)
      qed
    qed
  qed
qed

end

end
