(* ===== verification/ResolverCorrect.thy ===== *)
theory ResolverCorrect
  imports Resolver
begin

text \<open>
  The resolver of core Formulae end to end: the record built from a finished closure is a valid one,
  the laws of \<open>core_resolver\<close> hold of the metadata catalog and of the OCI client, and so a resolution
  returns, records exactly the closure the catalog defines, and fails only for reasons that lie outside
  the resolver.
\<close>

section \<open>The nodes of a finished closure\<close>

lemma nodeFor_Inr:
  assumes "nodeFor U B target n f = Inr node"
  obtains g sel where "toOCIFormula f target = Inr g" and "B g target = Inr sel" and "node = ResolutionNode sel"
    and "n_Name node = n" and "n_PkgVersion node = Formula_PkgVersion f"
    and "validateRuntimeCompatibility U (rb_tab (rs_Bottle sel)) target = None"
  using assms by (auto simp: nodeFor_def Let_def split: sum.split_asm option.split_asm if_split_asm)

lemma selectedRequirement_name: "rq_Name (snd (selectedRequirement nodes e)) = rq_Name (snd e)"
  by (cases e) (simp add: selectedRequirement_def fillFrom_def split: option.split)

lemma filled_names:
  assumes "edges_ok node ds es"
  shows "set (map rq_Name (mapRequirements (map (selectedRequirement nodes) es))) = set ds"
    and "distinct (map rq_Name (mapRequirements (map (selectedRequirement nodes) es)))"
proof -
  have "\<forall>e \<in> set es. rq_Name (snd e) = fst e" using assms by (auto simp: edges_ok_def)
  then have "map (\<lambda>e. rq_Name (snd e)) es = mkeys es" by simp
  moreover have "map rq_Name (map snd (map (selectedRequirement nodes) es)) = map (\<lambda>e. rq_Name (snd e)) es"
    by (simp add: selectedRequirement_name)
  moreover have "mset (map rq_Name (sort_key rq_Name xs)) = mset (map rq_Name xs)" for xs by simp
  ultimately have eq: "mset (map rq_Name (mapRequirements (map (selectedRequirement nodes) es))) = mset (mkeys es)"
    unfolding mapRequirements_def by metis
  have "set (map rq_Name (mapRequirements (map (selectedRequirement nodes) es))) = set (mkeys es)"
    by (rule mset_eq_setD [OF eq])
  also have "\<dots> = set ds" using assms by (simp add: edges_ok_def)
  finally show "set (map rq_Name (mapRequirements (map (selectedRequirement nodes) es))) = set ds" .
  show "distinct (map rq_Name (mapRequirements (map (selectedRequirement nodes) es)))"
    unfolding mset_eq_imp_distinct_iff [OF eq] using assms by (simp add: edges_ok_def gomap_ok_def)
qed

definition finished :: "unicode_tables \<Rightarrow> bottle_resolver \<Rightarrow> OPlatform \<Rightarrow> (string \<Rightarrow> Formula option) \<Rightarrow> string list
    \<Rightarrow> (string, Node) gomap \<Rightarrow> requirement_graph \<Rightarrow> (string, Node) gomap \<Rightarrow> bool" where
  "finished U B target F roots nodes g nodes' \<longleftrightarrow>
     distinct (mkeys nodes') \<and> fst ` set nodes' = reachable (succs F (targetTag target)) roots \<and>
     (\<forall>n nd. mget nodes' n = Some nd \<longrightarrow> (\<exists>f node es. F n = Some f \<and> nodeFor U B target n f = Inr node
        \<and> mget g n = Some es \<and> edges_ok node (succs F (targetTag target) n) es
        \<and> (\<forall>e \<in> set es. requirement_met U nodes e)
        \<and> nd = node\<lparr>n_Dependencies := mapRequirements (map (selectedRequirement nodes) es)\<rparr>)) \<and>
     (\<forall>n. set (deps (orderGraph g) n) = (if n \<in> fst ` set nodes' then set (succs F (targetTag target) n) else {}))"

lemma closure_reachable:
  assumes "closure_inv U B target F roots s" and "cl_queue s = []"
  shows "fst ` set (cl_nodes s) = reachable (succs F (targetTag target)) roots"
proof
  have nodes: "\<forall>n node. mget (cl_nodes s) n = Some node \<longrightarrow> n \<in> reachable (succs F (targetTag target)) roots \<and>
        (\<exists>f. F n = Some f \<and> nodeFor U B target n f = Inr node)"
    and closed: "\<forall>n \<in> fst ` set (cl_nodes s). set (succs F (targetTag target) n) \<subseteq> fst ` set (cl_nodes s) \<union> set []"
    and roots: "set roots \<subseteq> fst ` set (cl_nodes s) \<union> set []"
    by (insert assms(1) [unfolded closure_inv_def assms(2)], elim conjE, assumption)+
  show "fst ` set (cl_nodes s) \<subseteq> reachable (succs F (targetTag target)) roots"
  proof
    fix n assume "n \<in> fst ` set (cl_nodes s)"
    then obtain node where "mget (cl_nodes s) n = Some node" using in_keys_mget [of n "cl_nodes s"] by auto
    with nodes show "n \<in> reachable (succs F (targetTag target)) roots" by blast
  qed
  show "reachable (succs F (targetTag target)) roots \<subseteq> fst ` set (cl_nodes s)"
    using closed roots by (intro reachable_least) auto
qed

lemma finished_closure:
  assumes inv: "closure_inv U B target F roots s" and q: "cl_queue s = []"
    and fill: "for_result (fillParent U) (cl_graph s) (cl_nodes s) = Inr nodes'"
  shows "finished U B target F roots (cl_nodes s) (cl_graph s) nodes'"
proof -
  have ok: "gomap_ok (cl_nodes s)" "gomap_ok (cl_graph s)" "fst ` set (cl_graph s) = fst ` set (cl_nodes s)"
    and nodes: "\<forall>n node. mget (cl_nodes s) n = Some node \<longrightarrow> n \<in> reachable (succs F (targetTag target)) roots \<and>
        (\<exists>f. F n = Some f \<and> nodeFor U B target n f = Inr node)"
    and graph: "\<forall>n es. mget (cl_graph s) n = Some es \<longrightarrow>
        (\<exists>node. mget (cl_nodes s) n = Some node \<and> edges_ok node (succs F (targetTag target) n) es)"
    by (insert inv [unfolded closure_inv_def q], elim conjE, assumption)+
  have dist: "distinct (mkeys (cl_graph s))" using ok(2) by (simp add: gomap_ok_def)
  note loop = fill_loop [OF fill dist]
  have keys: "mkeys nodes' = mkeys (cl_nodes s)"
    and get: "\<forall>n. mget nodes' n = map_option (\<lambda>node. case mget (cl_graph s) n of None \<Rightarrow> node
          | Some es \<Rightarrow> node\<lparr>n_Dependencies := mapRequirements (map (selectedRequirement (cl_nodes s)) es)\<rparr>)
        (mget (cl_nodes s) n)"
    and met: "\<forall>(p, es) \<in> set (cl_graph s). \<forall>e \<in> set es. requirement_met U (cl_nodes s) e"
    using loop ok(3) by simp_all
  have sets: "fst ` set nodes' = fst ` set (cl_nodes s)" using keys by (metis set_map)
  show ?thesis
    unfolding finished_def
  proof (intro conjI allI impI)
    show "distinct (mkeys nodes')" using ok(1) keys by (simp add: gomap_ok_def)
    show "fst ` set nodes' = reachable (succs F (targetTag target)) roots"
      unfolding sets by (rule closure_reachable [OF inv q])
  next
    fix n nd assume nd: "mget nodes' n = Some nd"
    with get obtain node where node: "mget (cl_nodes s) n = Some node" by auto
    then have "n \<in> fst ` set (cl_graph s)" using mget_Some_in_keys [OF node] ok(3) by simp
    then obtain es where es: "mget (cl_graph s) n = Some es" using in_keys_mget [of n "cl_graph s"] by auto
    have "\<forall>e \<in> set es. requirement_met U (cl_nodes s) e" using met map_of_SomeD [OF es] by blast
    moreover have "nd = node\<lparr>n_Dependencies := mapRequirements (map (selectedRequirement (cl_nodes s)) es)\<rparr>"
      using nd get node es by simp
    moreover have "edges_ok node (succs F (targetTag target) n) es" using graph es node by fastforce
    ultimately show "\<exists>f node es. F n = Some f \<and> nodeFor U B target n f = Inr node
        \<and> mget (cl_graph s) n = Some es \<and> edges_ok node (succs F (targetTag target) n) es
        \<and> (\<forall>e \<in> set es. requirement_met U (cl_nodes s) e)
        \<and> nd = node\<lparr>n_Dependencies := mapRequirements (map (selectedRequirement (cl_nodes s)) es)\<rparr>"
      using nodes node es by blast
  next
    fix n
    have "deps (orderGraph (cl_graph s)) n = (case mget (cl_graph s) n of None \<Rightarrow> [] | Some es \<Rightarrow> sort (mkeys es))"
      unfolding deps_def orderGraph_def by (simp add: mget_map_values split: option.split)
    moreover have "mget (cl_graph s) n = None \<longleftrightarrow> n \<notin> fst ` set nodes'"
      using ok(3) sets by (simp add: map_of_eq_None_iff)
    ultimately show "set (deps (orderGraph (cl_graph s)) n)
        = (if n \<in> fst ` set nodes' then set (succs F (targetTag target) n) else {})"
      using graph by (cases "mget (cl_graph s) n") (auto simp: edges_ok_def)
  qed
qed

section \<open>The record of a finished closure\<close>

lemma record_nodes:
  assumes "finished U B target F roots nodes g nodes'"
  shows "distinct (map n_Name (sort_key n_Name (map snd nodes')))"
    and "n_Name ` set (map snd nodes') = fst ` set nodes'"
    and "nd \<in> set (map snd nodes') \<longleftrightarrow> mget nodes' (n_Name nd) = Some nd"
proof -
  have dist: "distinct (mkeys nodes')" using assms by (simp add: finished_def)
  have name: "n_Name nd = n" if "(n, nd) \<in> set nodes'" for n nd
  proof -
    have "mget nodes' n = Some nd" using dist that by (rule map_of_is_SomeI)
    with assms obtain f node ds where "nodeFor U B target n f = Inr node" "nd = node\<lparr>n_Dependencies := ds\<rparr>"
      unfolding finished_def by blast
    then show ?thesis by (auto elim: nodeFor_Inr)
  qed
  then have names: "map n_Name (map snd nodes') = mkeys nodes'" by auto
  have "mset (map n_Name (sort_key n_Name xs)) = mset (map n_Name xs)" for xs by simp
  then have "mset (map n_Name (sort_key n_Name (map snd nodes'))) = mset (mkeys nodes')" using names by metis
  with dist show "distinct (map n_Name (sort_key n_Name (map snd nodes')))" using mset_eq_imp_distinct_iff by blast
  show "n_Name ` set (map snd nodes') = fst ` set nodes'" using names by (metis set_map)
  show "nd \<in> set (map snd nodes') \<longleftrightarrow> mget nodes' (n_Name nd) = Some nd"
  proof
    assume "nd \<in> set (map snd nodes')"
    then obtain n where n: "(n, nd) \<in> set nodes'" by auto
    with name [OF n] map_of_is_SomeI [OF dist n] show "mget nodes' (n_Name nd) = Some nd" by simp
  next
    assume "mget nodes' (n_Name nd) = Some nd"
    then have "(n_Name nd, nd) \<in> set nodes'" by (rule map_of_SomeD)
    then show "nd \<in> set (map snd nodes')" by (metis image_eqI set_map snd_conv)
  qed
qed

lemma record_closure:
  assumes fin: "finished U B target F roots nodes g nodes'"
    and order: "topoOrder g requested = Inr order" and requested: "map rr_Canonical requested = roots"
  shows "closure_ok (resolvedRecord target opts requested nodes' order)"
proof -
  let ?r = "resolvedRecord target opts requested nodes' order"
  let ?S = "succs F (targetTag target)" and ?R = "reachable (succs F (targetTag target)) roots"
  have r: "r_Nodes ?r = sort_key n_Name (map snd nodes')" "roots_of ?r = roots" "r_InstallOrder ?r = order"
    using requested by (simp_all add: resolvedRecord_def roots_of_def)
  have keys: "fst ` set nodes' = ?R" using fin by (simp add: finished_def)
  note nodes = record_nodes [OF fin]
  have names: "n_Name ` set (r_Nodes ?r) = ?R" using nodes(2) by (simp add: r keys)
  have dist: "distinct (map n_Name (r_Nodes ?r))" using nodes(1) by (simp add: r)
  have deps: "set (deps (recordGraph ?r) n) = set (?S n)" if "n \<in> ?R" for n
  proof -
    have "n \<in> set (mkeys nodes')" using that keys by simp
    then obtain nd where nd: "mget nodes' n = Some nd" using in_keys_mget by fast
    with fin obtain f node es where es: "edges_ok node (?S n) es" and node: "nodeFor U B target n f = Inr node"
      and eq: "nd = node\<lparr>n_Dependencies := mapRequirements (map (selectedRequirement nodes) es)\<rparr>"
      unfolding finished_def by blast
    have n: "n_Name nd = n" using node eq by (auto elim: nodeFor_Inr)
    have "nd \<in> set (r_Nodes ?r)" using nodes(3) [of nd] nd n by (simp add: r)
    note graph = deps_recordGraph [OF dist this, unfolded n]
    have "n_Dependencies nd = mapRequirements (map (selectedRequirement nodes) es)" by (simp add: eq)
    with filled_names(1) [OF es, of nodes] show ?thesis by (simp only: graph)
  qed
  have og: "set (deps (orderGraph g) n) = (if n \<in> ?R then set (?S n) else {})" for n
    using fin keys by (simp add: finished_def)
  from order have top: "topological (orderGraph g) roots = Inr order"
    using requested by (auto simp: topoOrder_def split: sum.split_asm)
  have reach: "reachable (deps (orderGraph g)) roots = ?R" by (rule reachable_cong) (simp add: og)
  note ordered = topological_Inr [OF top, unfolded reach]
  have "deps_first (deps (recordGraph ?r)) order"
    using ordered deps_first_cong [of order "deps (orderGraph g)" "deps (recordGraph ?r)"] by (simp add: og deps)
  moreover have "reachable (deps (recordGraph ?r)) roots = ?R" by (rule reachable_cong) (simp add: deps)
  ultimately show ?thesis using ordered dist names by (simp add: closure_ok_def r)
qed

text \<open>Checks that only look at the shape report only errors about the shape.\<close>

lemma structural_only:
  "e \<in> set (rootErrors nodes r @ dependencyErrors nodes r @ orderErrors nodes r @ reachErrors nodes r) \<Longrightarrow> structural e"
proof -
  have pos: "e \<in> set (fst (positionsLoop nodes i p names)) \<Longrightarrow> structural e" for i p names
    by (induction names arbitrary: i p) (auto simp: case_prod_beta err_if_def split: if_split_asm)
  have place: "e \<in> set (placeErrors p n) \<Longrightarrow> structural e" for p n
    by (auto simp: placeErrors_def err_if_def split: option.split_asm if_split_asm)
  have roots: "e \<in> set (rootErrors nodes r) \<Longrightarrow> structural e"
    by (auto simp: rootErrors_def err_if_def split: if_split_asm)
  have dependencies: "e \<in> set (dependencyErrors nodes r) \<Longrightarrow> structural e"
    by (auto simp: dependencyErrors_def err_if_def split: if_split_asm)
  have order: "e \<in> set (orderErrors nodes r) \<Longrightarrow> structural e"
    by (auto simp: orderErrors_def case_prod_beta Let_def split: if_split_asm dest: pos place)
  have reach: "e \<in> set (reachErrors nodes r) \<Longrightarrow> structural e"
    by (auto simp: reachErrors_def err_if_def Let_def split: if_split_asm)
  assume "e \<in> set (rootErrors nodes r @ dependencyErrors nodes r @ orderErrors nodes r @ reachErrors nodes r)"
  with roots dependencies order reach show "structural e" unfolding set_append Un_iff by blast
qed

lemma nodesLoop_ok:
  assumes "\<And>nd nodes. nd \<in> set ns \<Longrightarrow> \<not> mhas nodes (n_Name nd) \<Longrightarrow> nodeErrors U D target nodes nd = []"
    and "distinct (map n_Name ns)" and "n_Name ` set ns \<inter> fst ` set nodes = {}"
  shows "fst (nodesLoop U D target nodes ns) = []"
  using assms
proof (induction ns arbitrary: nodes)
  case (Cons nd ns)
  have "fst (nodesLoop U D target (mput (n_Name nd) nd nodes) ns) = []"
    using Cons.prems by (intro Cons.IH) auto
  moreover have "nodeErrors U D target nodes nd = []" using Cons.prems(1,3) by (auto simp: mhas_iff)
  ultimately show ?case by (simp add: case_prod_beta)
qed simp

text \<open>What \<open>Validate\<close> can still object to in a record with valid nodes and a valid closure.\<close>

lemma Validate_rest:
  assumes "closure_ok r"
    and "\<And>nd nodes. nd \<in> set (r_Nodes r) \<Longrightarrow> \<not> mhas nodes (n_Name nd)
      \<Longrightarrow> nodeErrors U D (in_Platform (r_Input r)) nodes nd = []"
  shows "Validate U D r = headerErrors D r
       @ err_if (\<not> validateRuntimeIdentity (r_Runtime r)) RuntimeIdentity
       @ err_if (rp_Profile (r_Runtime r) \<noteq> []) RuntimeProfile
       @ err_if ((ap_Identity (r_AttestationPolicy r) = []) = (ap_Waiver (r_AttestationPolicy r) = [])) Attestation"
proof -
  obtain errs nodes where loop: "nodesLoop U D (in_Platform (r_Input r)) [] (r_Nodes r) = (errs, nodes)"
    by (cases "nodesLoop U D (in_Platform (r_Input r)) [] (r_Nodes r)")
  have "distinct (map n_Name (r_Nodes r))" using assms(1) by (simp add: closure_ok_def)
  with assms(2) have "fst (nodesLoop U D (in_Platform (r_Input r)) [] (r_Nodes r)) = []"
    by (intro nodesLoop_ok) auto
  then have errs: "errs = []" by (simp add: loop)
  let ?shape = "rootErrors nodes r @ dependencyErrors nodes r @ orderErrors nodes r @ reachErrors nodes r"
  have "list_all (\<lambda>e. \<not> structural e) (Validate U D r)" using assms(1) by (simp only: Validate_clean_iff)
  then have "list_all (\<lambda>e. \<not> structural e) ?shape" by (simp add: Validate_def loop)
  moreover have "list_all (\<lambda>e. \<not> P e) xs \<Longrightarrow> (\<And>e. e \<in> set xs \<Longrightarrow> P e) \<Longrightarrow> xs = []" for P and xs :: "'a list"
    by (cases xs) auto
  ultimately have "?shape = []" using structural_only by blast
  then have shape: "rootErrors nodes r = []" "dependencyErrors nodes r = []" "orderErrors nodes r = []"
    "reachErrors nodes r = []" by simp_all
  show ?thesis unfolding Validate_def loop errs Let_def prod.case shape by simp
qed

section \<open>Causes and results of a resolution\<close>

text \<open>Errors of \<open>Validate\<close> that come from the options the caller passed.\<close>

definition option_error :: "record_error \<Rightarrow> bool" where
  "option_error x \<longleftrightarrow> (\<exists>field. x = FieldDigest field) \<or> x \<in> {BadTimestamps, RuntimeIdentity, RuntimeProfile, Attestation}"

text \<open>Options whose fields \<open>Validate\<close> accepts.\<close>

definition options_ok :: "digest_lib \<Rightarrow> Options \<Rightarrow> bool" where
  "options_ok D opts \<longleftrightarrow>
     validateDigest D (o_SpecDigest opts) \<and> validateDigest D (sn_Digest (o_Metadata opts))
     \<and> validateDigest D (sn_FormulaDigest (o_Metadata opts)) \<and> validateDigest D (sn_MigrationDigest (o_Metadata opts))
     \<and> o_Now opts \<noteq> 0 \<and> sn_FetchedAt (o_Metadata opts) \<noteq> 0 \<and> 0 < time_Unix (sn_GeneratedAt (o_Metadata opts))
     \<and> validateRuntimeIdentity (o_Runtime opts) \<and> rp_Profile (o_Runtime opts) = []
     \<and> (ap_Identity (o_Attestation opts) = []) \<noteq> (ap_Waiver (o_Attestation opts) = [])"

definition stamped :: "int \<Rightarrow> Options \<Rightarrow> Options" where
  "stamped now opts = (if o_Now opts = 0 then opts\<lparr>o_Now := now\<rparr> else opts)"

text \<open>
  The requirement the node \<open>node\<close> puts on its signed dependency \<open>d\<close>, selected as \<open>dep\<close>: the minimum
  of its bottle tab, or the selected version where the tab has none.
\<close>

definition requirementOn :: "Node \<Rightarrow> string \<Rightarrow> Node \<Rightarrow> Requirement" where
  "requirementOn node d dep = fillFrom dep (signedRequirement (tabRequirements node) d)"

definition resolve_cause ::
  "unicode_tables \<Rightarrow> digest_lib \<Rightarrow> catalog_lookup \<Rightarrow> bottle_resolver \<Rightarrow> OPlatform \<Rightarrow> (string \<Rightarrow> Formula option)
     \<Rightarrow> string list \<Rightarrow> Options \<Rightarrow> resolver_error \<Rightarrow> bool" where
  "resolve_cause U D lookup B target F roots opts e \<longleftrightarrow>
     (\<exists>os arch. e = PlatformUnsupported os arch \<and> validateTarget target \<noteq> None)
     \<or> e = NoRuntimeRoots \<and> roots = []
     \<or> (\<exists>n le. e = RootLookup n le \<and> n \<in> set roots \<and> lookup n = Inl le)
     \<or> closure_cause U lookup B target F (canonical_roots lookup roots) e
     \<or> (\<exists>p f pn d fd dn. e = Unsatisfied p d
          \<and> p \<in> reachable (succs F (targetTag target)) (canonical_roots lookup roots) \<and> F p = Some f
          \<and> nodeFor U B target p f = Inr pn \<and> d \<in> set (DependenciesFor f (targetTag target)) \<and> F d = Some fd
          \<and> nodeFor U B target d fd = Inr dn \<and> \<not> satisfies U dn (requirementOn pn d dn))
     \<or> e = NoSourceDateEpoch \<and> time_Unix (sn_GeneratedAt (o_Metadata opts)) \<le> 0
     \<or> (\<exists>errs. e = InvalidRecord errs \<and> errs \<noteq> [] \<and> (\<forall>x \<in> set errs. option_error x) \<and> \<not> options_ok D opts)"

definition records_closure ::
  "unicode_tables \<Rightarrow> catalog_lookup \<Rightarrow> bottle_resolver \<Rightarrow> OPlatform \<Rightarrow> (string \<Rightarrow> Formula option) \<Rightarrow> string list
     \<Rightarrow> Record \<Rightarrow> bool" where
  "records_closure U lookup B target F roots r \<longleftrightarrow>
     closure_ok r \<and> map rr_Requested (r_Requested r) = roots \<and> roots_of r = canonical_roots lookup roots \<and>
     n_Name ` set (r_Nodes r) = reachable (succs F (targetTag target)) (roots_of r) \<and>
     (\<forall>nd \<in> set (r_Nodes r). \<exists>f g sel. F (n_Name nd) = Some f \<and> toOCIFormula f target = Inr g
        \<and> B g target = Inr sel \<and> nd = (ResolutionNode sel)\<lparr>n_Dependencies := n_Dependencies nd\<rparr>
        \<and> set (map rq_Name (n_Dependencies nd)) = set (DependenciesFor f (targetTag target))
        \<and> distinct (map rq_Name (n_Dependencies nd))
        \<and> (\<forall>q \<in> set (n_Dependencies nd). \<exists>nd' \<in> set (r_Nodes r). n_Name nd' = rq_Name q
             \<and> q = requirementOn (ResolutionNode sel) (rq_Name q) nd' \<and> satisfies U nd' q))"

lemma header_option_errors:
  assumes "validateTarget target = None" and "requested \<noteq> []" and "nodes \<noteq> []"
    and "0 < time_Unix (sn_GeneratedAt (o_Metadata opts))"
    and "x \<in> set (headerErrors D (resolvedRecord target opts requested nodes order))"
  shows "option_error x"
proof -
  have t: "op_OS target = ''linux''" "op_Architecture target = ''amd64'' \<or> op_Architecture target = ''arm64''"
    "op_Variant target = []" using assms(1) by (auto simp: validateTarget_def split: if_split_asm)
  have "sort_key n_Name (map snd nodes) \<noteq> []"
    using assms(3) by (metis length_0_conv length_map length_sort)
  with assms(2,4,5) t show ?thesis
    by (auto simp: headerErrors_def resolvedRecord_def err_if_def option_error_def Let_def split: if_split_asm)
qed

lemma header_ok:
  assumes "validateTarget target = None" and "requested \<noteq> []" and "nodes \<noteq> []" and "options_ok D opts"
  shows "headerErrors D (resolvedRecord target opts requested nodes order) = []"
proof -
  have t: "op_OS target = ''linux''" "op_Architecture target = ''amd64'' \<or> op_Architecture target = ''arm64''"
    "op_Variant target = []" using assms(1) by (auto simp: validateTarget_def split: if_split_asm)
  have "sort_key n_Name (map snd nodes) \<noteq> []"
    using assms(3) by (metis length_0_conv length_map length_sort)
  moreover have "sn_GeneratedAt (o_Metadata opts) \<noteq> 0" using assms(4) by (auto simp: options_ok_def time_Unix_def)
  ultimately show ?thesis using assms(2,4) t
    unfolding headerErrors_def Let_def resolvedRecord_def
    by (simp add: err_if_def options_ok_def metadataSnapshot_def)
qed

lemma finished_facts:
  assumes fin: "finished U B target F roots nodes g nodes'" and versions: "same_versions nodes nodes'"
    and nd: "nd \<in> set (map snd nodes')"
  shows "\<exists>f h sel. F (n_Name nd) = Some f \<and> toOCIFormula f target = Inr h
        \<and> B h target = Inr sel \<and> nd = (ResolutionNode sel)\<lparr>n_Dependencies := n_Dependencies nd\<rparr>
        \<and> set (map rq_Name (n_Dependencies nd)) = set (DependenciesFor f (targetTag target))
        \<and> distinct (map rq_Name (n_Dependencies nd))
        \<and> (\<forall>q \<in> set (n_Dependencies nd). \<exists>nd' \<in> set (map snd nodes'). n_Name nd' = rq_Name q
             \<and> q = requirementOn (ResolutionNode sel) (rq_Name q) nd' \<and> satisfies U nd' q)"
proof -
  have "mget nodes' (n_Name nd) = Some nd" using record_nodes(3) [OF fin] nd by blast
  with fin obtain f node es where f: "F (n_Name nd) = Some f" and node: "nodeFor U B target (n_Name nd) f = Inr node"
    and es: "edges_ok node (succs F (targetTag target) (n_Name nd)) es" and met: "\<forall>e \<in> set es. requirement_met U nodes e"
    and eq: "nd = node\<lparr>n_Dependencies := mapRequirements (map (selectedRequirement nodes) es)\<rparr>"
    unfolding finished_def by blast
  from node obtain h sel where sel: "toOCIFormula f target = Inr h" "B h target = Inr sel" "node = ResolutionNode sel"
    by (auto elim: nodeFor_Inr)
  have deps: "n_Dependencies nd = mapRequirements (map (selectedRequirement nodes) es)" by (simp add: eq)
  have S: "succs F (targetTag target) (n_Name nd) = DependenciesFor f (targetTag target)" using f by (simp add: succs_def)
  have reqs: "\<exists>nd' \<in> set (map snd nodes'). n_Name nd' = rq_Name q
      \<and> q = requirementOn (ResolutionNode sel) (rq_Name q) nd' \<and> satisfies U nd' q" if q: "q \<in> set (n_Dependencies nd)" for q
  proof -
    from q obtain e where e: "e \<in> set es" "q = snd (selectedRequirement nodes e)"
      by (auto simp: deps mapRequirements_def)
    from met e(1) have "requirement_met U nodes' e" using same_versions_cong(2) [OF versions] by blast
    then obtain nd' where nd': "mget nodes' (fst e) = Some nd'" "satisfies U nd' (snd (selectedRequirement nodes' e))"
      by (auto simp: requirement_met_def)
    have eq': "q = snd (selectedRequirement nodes' e)" using same_versions_cong(1) [OF versions, of e] e(2) by simp
    then have "satisfies U nd' q" using nd'(2) by simp
    moreover have signed: "snd e = signedRequirement (tabRequirements (ResolutionNode sel)) (fst e)"
      using es e(1) sel(3) by (auto simp: edges_ok_def)
    moreover have name: "rq_Name q = fst e" using signed e(2) by (simp add: selectedRequirement_name)
    moreover have "q = requirementOn (ResolutionNode sel) (rq_Name q) nd'"
      unfolding name requirementOn_def signed [symmetric] using eq' nd'(1)
      by (cases e) (simp add: selectedRequirement_def)
    moreover have mem: "nd' \<in> set (map snd nodes')" using map_of_SomeD [OF nd'(1)] by force
    moreover have "n_Name nd' = fst e"
    proof -
      from fin nd'(1) obtain f' node' ds where "nodeFor U B target (fst e) f' = Inr node'" "nd' = node'\<lparr>n_Dependencies := ds\<rparr>"
        unfolding finished_def by blast
      then show ?thesis by (auto elim: nodeFor_Inr)
    qed
    ultimately show ?thesis by auto
  qed
  have "nd = (ResolutionNode sel)\<lparr>n_Dependencies := n_Dependencies nd\<rparr>" by (simp add: eq sel(3))
  with f sel(1,2) filled_names [OF es, of nodes] reqs show ?thesis by (intro exI conjI ballI) (simp_all add: deps S)
qed

text \<open>
  What a request needs to be resolved: a supported target, roots the catalog knows, and for every
  Formula they reach a bottle that fits the runtime, enabled dependencies and met requirements.
\<close>

definition installable ::
  "unicode_tables \<Rightarrow> catalog_lookup \<Rightarrow> bottle_resolver \<Rightarrow> OPlatform \<Rightarrow> (string \<Rightarrow> Formula option) \<Rightarrow> string list
     \<Rightarrow> bool" where
  "installable U lookup B target F roots \<longleftrightarrow>
     validateTarget target = None \<and> roots \<noteq> [] \<and> (\<forall>n \<in> set roots. \<exists>m. lookup n = Inr m) \<and>
     (\<forall>n \<in> reachable (succs F (targetTag target)) (canonical_roots lookup roots). \<forall>f. F n = Some f \<longrightarrow>
        (\<exists>pn. nodeFor U B target n f = Inr pn \<and> (\<forall>d \<in> set (DependenciesFor f (targetTag target)).
           (\<exists>m. lookup d = Inr m) \<and> (\<forall>fd dn. F d = Some fd \<longrightarrow> nodeFor U B target d fd = Inr dn
              \<longrightarrow> satisfies U dn (requirementOn pn d dn)))))"

lemma node_cause_Inl: "node_cause U B target n f e \<Longrightarrow> nodeFor U B target n f \<noteq> Inr node"
  by (auto simp: node_cause_def nodeFor_def toOCIFormula_def)

lemma installable_no_cause:
  assumes "installable U lookup B target F roots" and "options_ok D opts"
  shows "\<not> resolve_cause U D lookup B target F roots opts e"
proof
  let ?R = "reachable (succs F (targetTag target)) (canonical_roots lookup roots)"
  assume cause: "resolve_cause U D lookup B target F roots opts e"
  have ok: "validateTarget target = None" "roots \<noteq> []" "\<forall>n \<in> set roots. \<exists>m. lookup n = Inr m"
    by (insert assms(1) [unfolded installable_def], elim conjE, assumption)+
  have node: "\<exists>pn. nodeFor U B target n f = Inr pn \<and> (\<forall>d \<in> set (DependenciesFor f (targetTag target)).
           (\<exists>m. lookup d = Inr m) \<and> (\<forall>fd dn. F d = Some fd \<longrightarrow> nodeFor U B target d fd = Inr dn
              \<longrightarrow> satisfies U dn (requirementOn pn d dn)))" if "n \<in> ?R" "F n = Some f" for n f
    using assms(1) that unfolding installable_def by blast
  have "\<not> closure_cause U lookup B target F (canonical_roots lookup roots) e"
    unfolding closure_cause_def using node node_cause_Inl by (metis sum.distinct(1))
  moreover have "\<not> (\<exists>p f pn d fd dn. e = Unsatisfied p d \<and> p \<in> ?R \<and> F p = Some f
          \<and> nodeFor U B target p f = Inr pn \<and> d \<in> set (DependenciesFor f (targetTag target)) \<and> F d = Some fd
          \<and> nodeFor U B target d fd = Inr dn \<and> \<not> satisfies U dn (requirementOn pn d dn))"
    using node by (metis sum.inject(2))
  moreover have "0 < time_Unix (sn_GeneratedAt (o_Metadata opts))" using assms(2) by (simp add: options_ok_def)
  moreover have "\<not> (\<exists>n le. e = RootLookup n le \<and> n \<in> set roots \<and> lookup n = Inl le)" using ok(3) by force
  ultimately show False using cause ok(1,2) assms(2) unfolding resolve_cause_def by auto
qed

section \<open>A resolution over a catalog and a registry\<close>

context core_resolver
begin

lemma start_inv:
  assumes c: "good_catalog c"
    and run: "for_result (rootStep (lookup c) target) roots \<lparr>ro_requested = [], ro_queue = [], ro_matches = []\<rparr> = Inr s"
  shows "closure_inv U B target (formula_of c) (canonical_roots (lookup c) roots)
      \<lparr>cl_queue = ro_queue s, cl_matches = ro_matches s, cl_nodes = [], cl_graph = []\<rparr>"
    and "map rr_Canonical (ro_requested s) = canonical_roots (lookup c) roots"
    and "map rr_Requested (ro_requested s) = roots"
proof -
  have loop: "map rr_Canonical (ro_requested s) = canonical_roots (lookup c) roots"
    "map rr_Requested (ro_requested s) = roots" "set (ro_queue s) = set (canonical_roots (lookup c) roots)"
    "set (ro_queue s) = fst ` set (ro_matches s)"
    "\<forall>k f. mget (ro_matches s) k = Some f \<longrightarrow> (\<exists>n m. lookup c n = Inr m \<and> mt_Canonical m = k \<and> mt_Formula m = f)"
    by (insert roots_loop [OF run, simplified], elim conjE, assumption)+
  have matches: "formula_of c k = Some f \<and> f_Bottle f \<noteq> None" if "mget (ro_matches s) k = Some f" for k f
    using that loop(5) lookup_formula [OF c] by blast
  have reach: "set (ro_queue s) \<subseteq> reachable (succs (formula_of c) (targetTag target)) (canonical_roots (lookup c) roots)"
    using loop(3) by (auto intro: reachable_root)
  show "closure_inv U B target (formula_of c) (canonical_roots (lookup c) roots)
      \<lparr>cl_queue = ro_queue s, cl_matches = ro_matches s, cl_nodes = [], cl_graph = []\<rparr>"
    unfolding closure_inv_def using matches reach loop(3,4) by simp
  show "map rr_Canonical (ro_requested s) = canonical_roots (lookup c) roots"
    "map rr_Requested (ro_requested s) = roots" by (fact loop(1), fact loop(2))
qed

lemma no_cycle:
  assumes c: "good_catalog c" and fin: "finished U B target (formula_of c) roots nodes g nodes'"
  shows "\<exists>order. topoOrder g requested = Inr order"
proof (cases "topological (orderGraph g) (map rr_Canonical requested)")
  case (Inl cyc)
  have sub: "set (deps (orderGraph g) n) \<subseteq> set (succs (formula_of c) (targetTag target) n)" for n
    using fin by (simp add: finished_def)
  from Inl have "is_cycle (deps (orderGraph g)) cyc" using topological_Inl by blast
  from is_cycle_mono [OF this sub] acyclic [OF c linux_targetTag] show ?thesis by blast
qed (simp add: topoOrder_def)

lemma nodes_valid:
  assumes b: "good_source b" and fin: "finished (tables b) (resolve b) target F roots nodes g nodes'"
    and versions: "same_versions nodes nodes'"
    and nd: "nd \<in> set (map snd nodes')" and fresh: "\<not> mhas seen (n_Name nd)"
  shows "nodeErrors (tables b) (digests b) (platform_of target) seen nd = []"
proof -
  have named: "n_Name nd' \<noteq> []" if nd': "nd' \<in> set (map snd nodes')" for nd'
  proof -
    from finished_facts [OF fin versions nd'] obtain h sel where sel: "resolve b h target = Inr sel"
      "nd' = (ResolutionNode sel)\<lparr>n_Dependencies := n_Dependencies nd'\<rparr>" by blast
    have "nodeErrors (tables b) (digests b) (platform_of target) [] ((ResolutionNode sel)\<lparr>n_Dependencies := []\<rparr>) = []"
      using resolved_valid [OF b sel(1), of "[]" "[]"] by (simp add: mhas_def)
    then have "n_Name (ResolutionNode sel) \<noteq> []" by (auto simp: nodeErrors_def Let_def err_if_def split: if_split_asm)
    moreover have "n_Name nd' = n_Name (ResolutionNode sel)" using arg_cong [OF sel(2), of n_Name] by simp
    ultimately show ?thesis by simp
  qed
  from finished_facts [OF fin versions nd] obtain h sel where sel: "resolve b h target = Inr sel"
    "nd = (ResolutionNode sel)\<lparr>n_Dependencies := n_Dependencies nd\<rparr>" "distinct (map rq_Name (n_Dependencies nd))"
    "\<forall>q \<in> set (n_Dependencies nd). \<exists>nd' \<in> set (map snd nodes'). n_Name nd' = rq_Name q"
    by blast
  have ne: "[] \<notin> rq_Name ` set (n_Dependencies nd)" using sel(4) named by force
  have "n_Name nd = of_Name h"
    using arg_cong [OF sel(2), of n_Name] resolved_formula [OF sel(1)] by (simp add: ResolutionNode_def Let_def)
  then have "\<not> mhas seen (of_Name h)" using fresh by simp
  from resolved_valid [OF b sel(1) this ne sel(3)] show ?thesis using sel(2) by simp
qed

lemma finish_Inl:
  assumes c: "good_catalog c" and b: "good_source b" and t: "validateTarget target = None"
    and inv: "closure_inv (tables b) (resolve b) target (formula_of c) (canonical_roots (lookup c) roots) s"
    and q: "cl_queue s = []" and requested: "map rr_Canonical requested = canonical_roots (lookup c) roots" "requested \<noteq> []"
    and run: "finishResolve (tables b) (digests b) target opts requested s = Inl e"
  shows "resolve_cause (tables b) (digests b) (lookup c) (resolve b) target (formula_of c) roots opts e"
proof -
  let ?R = "reachable (succs (formula_of c) (targetTag target)) (canonical_roots (lookup c) roots)"
  have ok: "gomap_ok (cl_graph s)" "fst ` set (cl_graph s) = fst ` set (cl_nodes s)"
    and nodes: "\<forall>n node. mget (cl_nodes s) n = Some node \<longrightarrow> n \<in> ?R \<and>
        (\<exists>f. formula_of c n = Some f \<and> nodeFor (tables b) (resolve b) target n f = Inr node)"
    and graph: "\<forall>n es. mget (cl_graph s) n = Some es \<longrightarrow>
        (\<exists>node. mget (cl_nodes s) n = Some node \<and> edges_ok node (succs (formula_of c) (targetTag target) n) es)"
    and closed: "\<forall>n \<in> fst ` set (cl_nodes s). set (succs (formula_of c) (targetTag target) n) \<subseteq> fst ` set (cl_nodes s) \<union> set []"
    by (insert inv [unfolded closure_inv_def q], elim conjE, assumption)+
  have dist: "distinct (mkeys (cl_graph s))" using ok(1) by (simp add: gomap_ok_def)
  have entry: "\<exists>pn f. mget (cl_nodes s) p = Some pn \<and> p \<in> ?R \<and> formula_of c p = Some f
      \<and> nodeFor (tables b) (resolve b) target p f = Inr pn \<and> edges_ok pn (DependenciesFor f (targetTag target)) es
      \<and> fst ` set es \<subseteq> fst ` set (cl_nodes s)" if "(p, es) \<in> set (cl_graph s)" for p es
  proof -
    from graph map_of_is_SomeI [OF dist that] obtain pn where pn: "mget (cl_nodes s) p = Some pn"
      "edges_ok pn (succs (formula_of c) (targetTag target) p) es" by blast
    with nodes obtain f where f: "p \<in> ?R" "formula_of c p = Some f" "nodeFor (tables b) (resolve b) target p f = Inr pn" by blast
    have "p \<in> fst ` set (cl_nodes s)" using that ok(2) by force
    then have "fst ` set es \<subseteq> fst ` set (cl_nodes s)" using closed pn(2) by (auto simp: edges_ok_def)
    moreover have "edges_ok pn (DependenciesFor f (targetTag target)) es" using pn(2) f(2) by (simp add: succs_def)
    ultimately show ?thesis using pn(1) f by blast
  qed
  show ?thesis
  proof (cases "for_result (fillParent (tables b)) (cl_graph s) (cl_nodes s)")
    case (Inl e')
    then have e: "e = e'" using run by (simp add: finishResolve_def)
    have "\<forall>(p, es) \<in> set (cl_graph s). fst ` set es \<subseteq> fst ` set (cl_nodes s)" using entry by fast
    from fill_error [OF Inl dist equalityD1 [OF ok(2)] this] obtain p es d q where u:
      "(p, es) \<in> set (cl_graph s)" "(d, q) \<in> set es"
      "\<not> requirement_met (tables b) (cl_nodes s) (d, q)" "e = Unsatisfied p d"
      unfolding e by blast
    from entry [OF u(1)] obtain pn f where f: "p \<in> ?R" "formula_of c p = Some f"
      "nodeFor (tables b) (resolve b) target p f = Inr pn" "edges_ok pn (DependenciesFor f (targetTag target)) es"
      "fst ` set es \<subseteq> fst ` set (cl_nodes s)" by (elim exE conjE) (rule that)
    have "d \<in> fst ` set es" using imageI [OF u(2), of fst] by simp
    then have d: "d \<in> set (DependenciesFor f (targetTag target))" "d \<in> set (mkeys (cl_nodes s))"
      using f(4,5) by (auto simp: edges_ok_def)
    then obtain dn where dn: "mget (cl_nodes s) d = Some dn" using in_keys_mget by fast
    with nodes obtain fd where fd: "formula_of c d = Some fd" "nodeFor (tables b) (resolve b) target d fd = Inr dn" by blast
    have "q = signedRequirement (tabRequirements pn) d" using f(4) u(2) by (auto simp: edges_ok_def)
    then have "\<not> satisfies (tables b) dn (requirementOn pn d dn)"
      using u(3) dn by (simp add: requirement_met_def selectedRequirement_def requirementOn_def)
    with f(1-3) d(1) fd have "\<exists>p' f pn d' fd dn. Unsatisfied p d = Unsatisfied p' d' \<and> p' \<in> ?R \<and> formula_of c p' = Some f
        \<and> nodeFor (tables b) (resolve b) target p' f = Inr pn \<and> d' \<in> set (DependenciesFor f (targetTag target))
        \<and> formula_of c d' = Some fd \<and> nodeFor (tables b) (resolve b) target d' fd = Inr dn
        \<and> \<not> satisfies (tables b) dn (requirementOn pn d' dn)" by blast
    then show ?thesis unfolding resolve_cause_def u(4) by (rule disjI1 [THEN disjI2, THEN disjI2, THEN disjI2, THEN disjI2])
  next
    case (Inr nodes')
    have fin: "finished (tables b) (resolve b) target (formula_of c) (canonical_roots (lookup c) roots) (cl_nodes s) (cl_graph s) nodes'"
      by (rule finished_closure [OF inv q Inr])
    from no_cycle [OF c fin] obtain order where order: "topoOrder (cl_graph s) requested = Inr order" by blast
    let ?r = "resolvedRecord target opts requested nodes' order"
    have versions: "same_versions (cl_nodes s) nodes'" using fill_loop [OF Inr dist] ok(2) by simp
    have valid: "nodeErrors (tables b) (digests b) (in_Platform (r_Input ?r)) seen nd = []"
      if "nd \<in> set (r_Nodes ?r)" "\<not> mhas seen (n_Name nd)" for nd seen
      using nodes_valid [OF b fin versions] that by (simp add: resolvedRecord_def platform_of_def)
    note rest = Validate_rest [OF record_closure [OF fin order requested(1)] valid]
    have "canonical_roots (lookup c) roots \<noteq> []" using requested by auto
    then have "?R \<noteq> {}" using reachable_root [of _ "canonical_roots (lookup c) roots"] by (metis empty_iff last_in_set)
    then have ne: "nodes' \<noteq> []" using fin by (auto simp: finished_def)
    show ?thesis
    proof (cases "time_Unix (sn_GeneratedAt (o_Metadata opts)) \<le> 0")
      case True
      with run Inr order show ?thesis by (simp add: finishResolve_def resolve_cause_def)
    next
      case False
      with run Inr order have e: "e = InvalidRecord (Validate (tables b) (digests b) ?r)" "Validate (tables b) (digests b) ?r \<noteq> []"
        by (simp_all add: finishResolve_def Let_def split: list.split_asm)
      have "option_error x" if "x \<in> set (Validate (tables b) (digests b) ?r)" for x
        using that header_option_errors [OF t requested(2) ne, of opts x "digests b" order] False
        by (auto simp: rest err_if_def option_error_def split: if_split_asm)
      moreover have "\<not> options_ok (digests b) opts"
      proof
        assume "options_ok (digests b) opts"
        moreover have "headerErrors (digests b) ?r = []"
          using header_ok [OF t requested(2) ne calculation] .
        moreover have "r_Runtime ?r = o_Runtime opts" "r_AttestationPolicy ?r = o_Attestation opts"
          by (simp_all add: resolvedRecord_def)
        ultimately have "Validate (tables b) (digests b) ?r = []"
          by (simp add: rest err_if_def options_ok_def)
        with e(2) show False by simp
      qed
      ultimately show ?thesis using e by (simp add: resolve_cause_def)
    qed
  qed
qed

lemma finish_Inr:
  assumes inv: "closure_inv (tables b) (resolve b) target (formula_of c) (canonical_roots (lookup c) roots) s"
    and q: "cl_queue s = []" and requested: "map rr_Canonical requested = canonical_roots (lookup c) roots"
      "map rr_Requested requested = roots"
    and run: "finishResolve (tables b) (digests b) target opts requested s = Inr r"
  shows "records_closure (tables b) (lookup c) (resolve b) target (formula_of c) roots r
    \<and> Validate (tables b) (digests b) r = []"
proof -
  have ok: "gomap_ok (cl_graph s)" "fst ` set (cl_graph s) = fst ` set (cl_nodes s)"
    by (insert inv [unfolded closure_inv_def q], elim conjE, assumption)+
  from run obtain nodes' order where fill: "for_result (fillParent (tables b)) (cl_graph s) (cl_nodes s) = Inr nodes'"
    and order: "topoOrder (cl_graph s) requested = Inr order" and r: "r = resolvedRecord target opts requested nodes' order"
    and valid: "Validate (tables b) (digests b) r = []"
    by (auto simp: finishResolve_def Let_def split: sum.split_asm if_split_asm list.split_asm)
  note fin = finished_closure [OF inv q fill]
  have dist: "distinct (mkeys (cl_graph s))" using ok(1) by (simp add: gomap_ok_def)
  have versions: "same_versions (cl_nodes s) nodes'" using fill_loop [OF fill dist] ok(2) by simp
  have proj: "set (r_Nodes r) = set (map snd nodes')" "map rr_Requested (r_Requested r) = roots"
    "roots_of r = canonical_roots (lookup c) roots"
    using requested by (simp_all add: r resolvedRecord_def roots_of_def)
  have closure: "closure_ok r" unfolding r by (rule record_closure [OF fin order requested(1)])
  have keys: "n_Name ` set (map snd nodes') = reachable (succs (formula_of c) (targetTag target)) (canonical_roots (lookup c) roots)"
    using record_nodes(2) [OF fin] fin by (simp add: finished_def)
  show ?thesis unfolding records_closure_def proj
    using closure keys valid finished_facts [OF fin versions] by blast
qed

lemma resolve_total:
  assumes c: "good_catalog c" and b: "good_source b"
  shows "\<exists>res. Resolve (tables b) (digests b) now (Some (lookup c)) (Some (resolve b)) roots target opts = Some res
    \<and> (\<forall>e. res = Inl e \<longrightarrow> resolve_cause (tables b) (digests b) (lookup c) (resolve b) target (formula_of c) roots (stamped now opts) e)
    \<and> (\<forall>r. res = Inr r \<longrightarrow> records_closure (tables b) (lookup c) (resolve b) target (formula_of c) roots r
        \<and> Validate (tables b) (digests b) r = [])"
proof (cases "validateTarget target = None \<and> roots \<noteq> []")
  case False
  then show ?thesis by (auto simp: Resolve_def validateTarget_def resolve_cause_def split: if_split_asm)
next
  case True
  then have t: "validateTarget target = None" and ne: "roots \<noteq> []" by simp_all
  let ?opts = "stamped now opts"
  let ?start = "\<lparr>ro_requested = [], ro_queue = [], ro_matches = []\<rparr>"
  let ?cl = "\<lambda>s. \<lparr>cl_queue = ro_queue s, cl_matches = ro_matches s, cl_nodes = [], cl_graph = []\<rparr>"
  have unfold: "Resolve (tables b) (digests b) now (Some (lookup c)) (Some (resolve b)) roots target opts =
     (case for_result (rootStep (lookup c) target) roots ?start of
        Inl e \<Rightarrow> Some (Inl e)
      | Inr s \<Rightarrow> (case closureLoop (closureStep (tables b) (lookup c) (resolve b) target) (?cl s) of
             None \<Rightarrow> None | Some (Inl e) \<Rightarrow> Some (Inl e)
           | Some (Inr k) \<Rightarrow> Some (finishResolve (tables b) (digests b) target ?opts (ro_requested s) k)))"
  proof -
    have "\<not> (op_OS target \<noteq> ''linux'' \<or> (op_Architecture target \<noteq> ''amd64'' \<and> op_Architecture target \<noteq> ''arm64'')
        \<or> op_Variant target \<noteq> [] \<or> op_OSFeatures target \<noteq> [])"
      using t by (auto simp: validateTarget_def split: if_split_asm)
    then show ?thesis unfolding Resolve_def prod.case option.case Let_def stamped_def [symmetric] by (simp only: if_False ne if_not_P)
  qed
  show ?thesis
  proof (cases "for_result (rootStep (lookup c) target) roots ?start")
    case (Inl e)
    with roots_error [OF Inl] show ?thesis by (auto simp: unfold resolve_cause_def)
  next
    case (Inr s)
    note start = start_inv [OF c Inr]
    from loop_returns [OF c start(1)] obtain res where res:
      "closureLoop (closureStep (tables b) (lookup c) (resolve b) target) (?cl s) = Some res"
      "\<forall>e. res = Inl e \<longrightarrow> closure_cause (tables b) (lookup c) (resolve b) target (formula_of c) (canonical_roots (lookup c) roots) e"
      "\<forall>k. res = Inr k \<longrightarrow> closure_inv (tables b) (resolve b) target (formula_of c) (canonical_roots (lookup c) roots) k
         \<and> cl_queue k = []" by blast
    show ?thesis
    proof (cases res)
      case (Inl e)
      with res Inr show ?thesis unfolding unfold by (simp add: resolve_cause_def)
    next
      case (Inr k)
      have k: "closure_inv (tables b) (resolve b) target (formula_of c) (canonical_roots (lookup c) roots) k" "cl_queue k = []"
        using res(3) Inr by blast+
      have rne: "ro_requested s \<noteq> []" using start(3) ne by auto
      have "Resolve (tables b) (digests b) now (Some (lookup c)) (Some (resolve b)) roots target opts
          = Some (finishResolve (tables b) (digests b) target ?opts (ro_requested s) k)"
        unfolding unfold \<open>for_result (rootStep (lookup c) target) roots ?start = Inr s\<close> sum.case res(1) Inr option.case ..
      then show ?thesis
      proof (intro exI conjI allI impI)
        show "resolve_cause (tables b) (digests b) (lookup c) (resolve b) target (formula_of c) roots ?opts e"
          if "finishResolve (tables b) (digests b) target ?opts (ro_requested s) k = Inl e" for e
          by (rule finish_Inl [OF c b t k start(2) rne that])
        show "records_closure (tables b) (lookup c) (resolve b) target (formula_of c) roots r"
          "Validate (tables b) (digests b) r = []"
          if "finishResolve (tables b) (digests b) target ?opts (ro_requested s) k = Inr r" for r
          using finish_Inr [OF k start(2,3) that] by (rule conjunct1, rule conjunct2)
      qed
    qed
  qed
qed

lemma resolve_returns:
  assumes c: "good_catalog c"
  shows "\<exists>res. Resolve U D now (Some (lookup c)) (Some (resolve b)) roots target opts = Some res"
proof (cases "for_result (rootStep (lookup c) target) roots \<lparr>ro_requested = [], ro_queue = [], ro_matches = []\<rparr>")
  case (Inr s)
  from loop_returns [OF c start_inv(1) [OF c Inr]] obtain res where
    "closureLoop (closureStep U (lookup c) (resolve b) target)
      \<lparr>cl_queue = ro_queue s, cl_matches = ro_matches s, cl_nodes = [], cl_graph = []\<rparr> = Some res" by blast
  with Inr show ?thesis by (cases res) (simp_all add: Resolve_def Let_def)
qed (simp add: Resolve_def Let_def)

lemma resolve_succeeds:
  assumes c: "good_catalog c" and b: "good_source b" and opts: "options_ok (digests b) (stamped now opts)"
    and ok: "installable (tables b) (lookup c) (resolve b) target (formula_of c) roots"
  shows "\<exists>r. Resolve (tables b) (digests b) now (Some (lookup c)) (Some (resolve b)) roots target opts = Some (Inr r)"
proof -
  from resolve_total [OF c b] obtain res where
    res: "Resolve (tables b) (digests b) now (Some (lookup c)) (Some (resolve b)) roots target opts = Some res"
    "\<forall>e. res = Inl e \<longrightarrow> resolve_cause (tables b) (digests b) (lookup c) (resolve b) target (formula_of c) roots (stamped now opts) e"
    by blast
  with installable_no_cause [OF ok opts] have "\<nexists>e. res = Inl e" by blast
  with res(1) show ?thesis by (cases res) auto
qed

end

section \<open>The metadata catalog and the OCI client\<close>

definition built :: "Catalog \<Rightarrow> bool" where
  "built c \<longleftrightarrow> (\<exists>fs ms. buildCatalog fs ms = Inr c \<and> external_targets ms)"

abbreviation catalog_formula :: "Catalog \<Rightarrow> string \<Rightarrow> Formula option" where
  "catalog_formula c \<equiv> mget (c_canonical c)"

lemma DependenciesFor_cases:
  "DependenciesFor f tag = f_Dependencies f \<or> (\<exists>v \<in> set (f_Variations f). DependenciesFor f tag = v_Dependencies v)"
  by (auto simp: DependenciesFor_def find_Some_iff split: option.split)

interpretation catalog: formula_catalog "\<lambda>c. Lookup (Some c)" catalog_formula built
proof
  fix c assume "built c"
  then obtain fs ms where build: "buildCatalog fs ms = Inr c" "external_targets ms" by (auto simp: built_def)
  have look: "Lookup (Some c) name = Inr m \<longleftrightarrow> formulaNamePattern name \<and> mt_Requested m = name
      \<and> denotes c name (mt_Canonical m) (mt_Kind m) \<and> usable c (mt_Canonical m) (mt_Formula m)" for name m
    by (rule Lookup_Inr_iff [OF built_lookup_facts [OF build]])
  have ok: "catalog_ok c" by (rule buildCatalog_ok(1) [OF build(1)])
  have index: "index_ok c" and deps: "\<forall>n f. mget (c_canonical c) n = Some f \<longrightarrow> deps_ok c f"
    and acyc: "\<forall>tag. tag = [] \<or> linux_tag tag \<longrightarrow> (\<nexists>cyc. is_cycle (deps (dependencyGraph c tag)) cyc)"
    by (insert ok [unfolded catalog_ok_def], elim conjE, assumption)+
  show "catalog_formula c (mt_Canonical m) = Some (mt_Formula m) \<and> f_Bottle (mt_Formula m) \<noteq> None"
    if "Lookup (Some c) n = Inr m" for n m
    using that unfolding look usable_def by blast
  show "canonical_lookup (Lookup (Some c)) n" if n: "catalog_formula c n \<noteq> None" for n
    unfolding canonical_lookup_def
  proof (intro allI impI)
    fix m assume "Lookup (Some c) n = Inr m"
    then have d: "denotes c n (mt_Canonical m) (mt_Kind m)" unfolding look by blast
    have "n \<in> canonical_names c" using n mget_Some_in_keys [of "c_canonical c" n] by auto
    then have "mget (c_aliases c) n = None" "mget (c_oldNames c) n = None" "mget (c_migrations c) n = None"
      using index unfolding index_ok_def by (auto simp: map_of_eq_None_iff)
    with d resolves_to_migration [of c n "toCanonical (mt_Canonical m)"]
    show "mt_Kind m = MatchCanonical \<and> mt_Canonical m = n"
      by (cases "mt_Kind m") (auto simp: denotes_def)
  qed
  show "f_Name f = n" if "catalog_formula c n = Some f" for n f
    using that index unfolding index_ok_def by blast
  show "catalog_formula c d \<noteq> None" if "catalog_formula c n = Some f" "linux_tag tag" "d \<in> set (DependenciesFor f tag)"
    for n f tag d
  proof -
    have "deps_ok c f" using deps that(1) by blast
    then have "set (DependenciesFor f tag) \<subseteq> canonical_names c"
      using DependenciesFor_cases [of f tag] unfolding deps_ok_def by metis
    with that(3) have "d \<in> canonical_names c" by blast
    then show ?thesis using in_keys_mget [of d "c_canonical c"] by auto
  qed
  show "finite {n. catalog_formula c n \<noteq> None}" 
    using finite_dom_map_of [of "c_canonical c"] by (simp only: dom_def)
  show "\<nexists>cyc. is_cycle (succs (catalog_formula c) tag) cyc" if "linux_tag tag" for tag
  proof -
    have "tag \<noteq> []" using that by (auto simp: linux_tag_def)
    then have "deps (dependencyGraph c tag) = succs (catalog_formula c) tag"
      by (intro ext) (simp add: deps_dependencyGraph succs_def tagDependencies_def split: option.split)
    with acyc that show ?thesis by metis
  qed
qed

interpretation client: bottle_source "\<lambda>(E, l). Client_Resolve E l" "env_unicode \<circ> fst" "env_digests \<circ> fst" "digests_ok \<circ> fst"
proof
  fix b f target r assume "(case b of (E, l) \<Rightarrow> Client_Resolve E l) f target = Inr r"
  then obtain E l where b: "b = (E, l)" and run: "Client_Resolve E l f target = Inr r" by (cases b) simp
  obtain ref where ref: "rs_Formula r = f" "ResolveFormulaReference (env_unicode E) f = Inr ref"
    and chain: "resolveDescriptorChain E l (of_Name f) (of_Name f) (of_BottleRebuild f) (of_BottleFiles f)
      ref target (of_Name f) (of_Name f) (validateCommonAnnotations (env_unicode E) (of_Name f))
      (parseBottleTab E) = Inr (rs_Bottle r)" by (rule Client_Resolve_Inr [OF run])
  have "rb_reference (rs_Bottle r) = ref" by (rule resolveDescriptorChain_Inr [OF chain])
  with ref ResolveFormulaReference_Inr(2) [OF ref(2)]
  show "rs_Formula r = f \<and> fr_PkgVersion (rb_reference (rs_Bottle r)) = PkgVersion (of_StableVersion f) (of_Revision f)"
    by simp
  show "nodeErrors ((env_unicode \<circ> fst) b) ((env_digests \<circ> fst) b) (platform_of target) nodes
      ((ResolutionNode r)\<lparr>n_Dependencies := ds\<rparr>) = []"
    if "(digests_ok \<circ> fst) b" "\<not> mhas nodes (of_Name f)" "[] \<notin> rq_Name ` set ds" "distinct (map rq_Name ds)" for nodes ds
    using resolved_node_ok [OF run _ that(2-4)] that(1) by (simp add: b)
qed

interpretation core: core_resolver "\<lambda>c. Lookup (Some c)" catalog_formula built
  "\<lambda>(E, l). Client_Resolve E l" "env_unicode \<circ> fst" "env_digests \<circ> fst" "digests_ok \<circ> fst"
  by unfold_locales

section \<open>A sample resolution\<close>

definition sample_jq :: Formula where
  "sample_jq = zeroFormula\<lparr>f_Name := ''jq'', f_FullName := ''jq'', f_StableVersion := ''1.7'', f_Revision := 1,
     f_License := ''MIT'', f_Bottle := Some \<lparr>b_Rebuild = 2, b_RootURL = ''https://ghcr.io/v2/homebrew/core'',
       b_Files = [\<lparr>bf_Tag = ''x86_64_linux'', bf_Cellar = '':any'', bf_URL = [],
         bf_SHA256 = replicate 64 CHR ''a''\<rparr>]\<rparr>\<rparr>"

definition sample_options :: Options where
  "sample_options = \<lparr>o_SpecDigest = sample_hash ''1'', o_TargetKey = [], o_Now = 1,
     o_Metadata = \<lparr>sn_SchemaVersion = [], sn_Digest = sample_hash ''1'', sn_FormulaDigest = sample_hash ''1'',
       sn_MigrationDigest = sample_hash ''1'', sn_GeneratedAt = 63000000000000000000, sn_FetchedAt = 1,
       sn_Formula = \<lparr>di_URL = [], di_Size = 0, di_EnvelopeDigest = [], di_PayloadDigest = [], di_GeneratedAt = 0,
         di_GeneratedAtSource = [], di_Signatures = []\<rparr>,
       sn_Migrations = \<lparr>di_URL = [], di_Size = 0, di_EnvelopeDigest = [], di_PayloadDigest = [], di_GeneratedAt = 0,
         di_GeneratedAtSource = [], di_Signatures = []\<rparr>\<rparr>,
     o_Components = r_Components sample_record, o_Runtime = r_Runtime sample_record,
     o_Attestation = r_AttestationPolicy sample_record, o_PruningDigest = []\<rparr>"

lemma sample_jq_catalog:
  obtains c m where "buildCatalog [sample_jq] [] = Inr c" and "catalog_formula c = [''jq'' \<mapsto> sample_jq]"
    and "Lookup (Some c) ''jq'' = Inr m" and "mt_Canonical m = ''jq''"
proof -
  have "case buildCatalog [sample_jq] [] of Inl e \<Rightarrow> False | Inr c \<Rightarrow> is_ok (Lookup (Some c) ''jq'')" by code_simp
  then obtain c m where c: "buildCatalog [sample_jq] [] = Inr c" and m: "Lookup (Some c) ''jq'' = Inr m"
    by (auto simp: is_ok_iff split: sum.split_asm)
  have form: "canonicalForm c sample_jq = sample_jq" and name: "f_Name sample_jq = ''jq''"
    by (simp_all add: canonicalForm_def sample_jq_def zeroFormula_def uniqueSorted_def)
  have get: "catalog_formula c = [''jq'' \<mapsto> sample_jq]"
    unfolding buildCatalog_ok(2) [OF c] by (auto simp: form name)
  have "external_targets []" by (simp add: external_targets_def)
  with c have "built c" unfolding built_def by blast
  from catalog.lookup_canonical [OF this, of "''jq''"] m get have "mt_Canonical m = ''jq''"
    by (simp add: canonical_lookup_def)
  with c get m that show ?thesis by blast
qed

lemma sample_jq_node: "\<exists>node. nodeFor ascii_tables (Client_Resolve sample_core DefaultLimits) sample_target ''jq'' sample_jq = Inr node"
proof -
  have oci: "toOCIFormula sample_jq sample_target = Inr sample_oformula"
    by (simp add: toOCIFormula_def sample_jq_def zeroFormula_def KegOnlyFor_def sample_oformula_def)
  obtain r where run: "Client_Resolve sample_core DefaultLimits sample_oformula sample_target = Inr r"
    using sample_core_resolves by blast
  obtain ref where ref: "rs_Formula r = sample_oformula" "ResolveFormulaReference (env_unicode sample_core) sample_oformula = Inr ref"
    and chain: "resolveDescriptorChain sample_core DefaultLimits (of_Name sample_oformula) (of_Name sample_oformula)
      (of_BottleRebuild sample_oformula) (of_BottleFiles sample_oformula) ref sample_target (of_Name sample_oformula)
      (of_Name sample_oformula) (validateCommonAnnotations (env_unicode sample_core) (of_Name sample_oformula))
      (parseBottleTab sample_core) = Inr (rs_Bottle r)" by (rule Client_Resolve_Inr [OF run])
  obtain v a where tab: "parseBottleTab sample_core v sample_target a = Inr (rb_tab (rs_Bottle r))"
    by (rule resolveDescriptorChain_Inr [OF chain]) (rule that)
  have "env_tab sample_core v = None \<or> env_tab sample_core v = Some sample_tab"
    by (simp add: sample_core_def sample_registry_def sample_env_fields)
  then have "bt_Arch t = tw_Arch sample_tab \<and> bt_BuiltOn t = tw_BuiltOn sample_tab"
    if "parseBottleTab sample_core v sample_target a = Inr t" for t
    using that by (auto simp: parseBottleTab_def parseBottleTabWith_def split: option.split_asm sum.split_asm if_split_asm)
  from this [OF tab] have "bt_Arch (rb_tab (rs_Bottle r)) = tw_Arch sample_tab"
    "bt_BuiltOn (rb_tab (rs_Bottle r)) = tw_BuiltOn sample_tab" by simp_all
  moreover have "to_lower ascii_tables [] = []" by (rule to_lower_id(1)) (simp_all add: ascii_conform_def)
  ultimately have compat: "validateRuntimeCompatibility ascii_tables (rb_tab (rs_Bottle r)) sample_target = None"
    by (simp add: validateRuntimeCompatibility_def sample_tab_def sample_target_def Let_def)
  have "n_Name (ResolutionNode r) = ''jq''" "n_PkgVersion (ResolutionNode r) = Formula_PkgVersion sample_jq"
    using client.resolved_formula [of "(sample_core, DefaultLimits)" sample_oformula sample_target r] run
    by (simp_all add: ResolutionNode_def Let_def sample_oformula_def Formula_PkgVersion_def PkgVersion_def
        sample_jq_def zeroFormula_def)
  with oci run compat show ?thesis by (simp add: nodeFor_def Let_def)
qed

lemma sample_tables: "env_unicode sample_core = ascii_tables" "env_digests sample_core = sample_digests"
  by (simp_all add: sample_core_def sample_registry_def sample_env_fields)

lemma sample_installable:
  assumes get: "catalog_formula c = [''jq'' \<mapsto> sample_jq]" and m: "Lookup (Some c) ''jq'' = Inr m" "mt_Canonical m = ''jq''"
  shows "installable ascii_tables (Lookup (Some c)) (Client_Resolve sample_core DefaultLimits) sample_target
    (catalog_formula c) [''jq'']"
proof -
  have nodeps: "DependenciesFor sample_jq tag = []" for tag by (simp add: DependenciesFor_def sample_jq_def zeroFormula_def)
  have roots: "canonical_roots (Lookup (Some c)) [''jq''] = [''jq'']" by (simp add: canonical_roots_def m)
  have "reachable (succs (catalog_formula c) (targetTag sample_target)) [''jq''] \<subseteq> {''jq''}"
    by (rule reachable_least) (simp_all add: succs_def get nodeps)
  moreover have "validateTarget sample_target = None" by (simp add: validateTarget_def sample_target_def)
  ultimately show ?thesis
    using sample_jq_node m by (auto simp: installable_def roots get nodeps split: if_split_asm)
qed

lemma sample_options_ok: "options_ok sample_digests (stamped now sample_options)"
proof -
  have "trim_space ''linuxbrew'' = ''linuxbrew''" by (simp add: trim_space_ascii ascii_def unicode_IsSpace_def)
  then have user: "validateRuntimeIdentity (r_Runtime sample_record)"
    by (simp add: validateRuntimeIdentity_def sample_record_def)
  have dg: "validateDigest sample_digests (sample_hash b)" for b by (simp add: validateDigest_iff sample_hash_parses)
  show ?thesis
    unfolding options_ok_def stamped_def by (simp add: sample_options_def dg user time_Unix_def) (simp add: sample_record_def)
qed

section \<open>Properties\<close>

text \<open>
  C1: A core resolution records exactly the signed closure. When \<open>Resolve\<close> succeeds on a built catalog,
  the record passes \<open>Validate\<close>, lists the roots as requested, and its nodes are exactly the Formulae the
  canonical roots reach through the signed dependencies. Each node is the verified bottle of its
  Formula, depends on exactly its signed dependencies, and each requirement is the minimum of the
  bottle tab, or the selected version, and is met by the node selected for it.
\<close>

theorem resolver_records_closure:
  assumes "buildCatalog fs ms = Inr c" and "external_targets ms" and "digests_ok E"
    and "Resolve (env_unicode E) (env_digests E) now (Some (Lookup (Some c))) (Some (Client_Resolve E l))
      roots target opts = Some (Inr r)"
  shows "records_closure (env_unicode E) (Lookup (Some c)) (Client_Resolve E l) target (catalog_formula c) roots r
    \<and> Validate (env_unicode E) (env_digests E) r = []"
proof -
  have "built c" using assms(1,2) unfolding built_def by blast
  from core.resolve_total [OF this, where b = "(E, l)" and now = now and roots = roots and target = target and opts = opts] assms(3,4) show ?thesis by simp
qed

lemma sample_run:
  obtains c r where "buildCatalog [sample_jq] [] = Inr c"
    and "Resolve ascii_tables sample_digests now (Some (Lookup (Some c))) (Some (Client_Resolve sample_core DefaultLimits))
      [''jq''] sample_target sample_options = Some (Inr r)"
proof -
  obtain c m where c: "buildCatalog [sample_jq] [] = Inr c" and get: "catalog_formula c = [''jq'' \<mapsto> sample_jq]"
    and m: "Lookup (Some c) ''jq'' = Inr m" "mt_Canonical m = ''jq''" by (rule sample_jq_catalog)
  have "external_targets []" by (simp add: external_targets_def)
  with c have "built c" unfolding built_def by blast
  from core.resolve_succeeds [OF this, of "(sample_core, DefaultLimits)" now sample_options sample_target "[''jq'']"]
    sample_installable [OF get m] sample_options_ok [of now] sample_core_digests
  obtain r where "Resolve ascii_tables sample_digests now (Some (Lookup (Some c))) (Some (Client_Resolve sample_core DefaultLimits))
      [''jq''] sample_target sample_options = Some (Inr r)" by (auto simp: sample_tables)
  with c that show ?thesis by blast
qed

theorem resolver_records_closure_witness:
  "\<exists>c r. buildCatalog [sample_jq] [] = Inr c
    \<and> Resolve ascii_tables sample_digests 1 (Some (Lookup (Some c))) (Some (Client_Resolve sample_core DefaultLimits))
      [''jq''] sample_target sample_options = Some (Inr r)
    \<and> records_closure ascii_tables (Lookup (Some c)) (Client_Resolve sample_core DefaultLimits) sample_target
        (catalog_formula c) [''jq''] r"
proof -
  obtain c r where c: "buildCatalog [sample_jq] [] = Inr c"
    and r: "Resolve ascii_tables sample_digests 1 (Some (Lookup (Some c))) (Some (Client_Resolve sample_core DefaultLimits))
      [''jq''] sample_target sample_options = Some (Inr r)" by (rule sample_run)
  have "external_targets []" by (simp add: external_targets_def)
  from resolver_records_closure [OF c this sample_core_digests, unfolded sample_tables, OF r] c r
  show ?thesis by blast
qed

text \<open>
  C2: A core resolution always returns. For every built catalog, every registry and every request the
  loop over the queue ends, because each step uses up a name of the catalog or a place in the queue.
\<close>

theorem resolver_returns:
  assumes "buildCatalog fs ms = Inr c" and "external_targets ms"
  shows "\<exists>res. Resolve U D now (Some (Lookup (Some c))) (Some (Client_Resolve E l)) roots target opts = Some res"
proof -
  have "built c" using assms unfolding built_def by blast
  from core.resolve_returns [OF this, where b = "(E, l)"] show ?thesis by simp
qed

theorem resolver_returns_witness:
  "\<exists>c res. buildCatalog sample_formulae sample_migrations = Inr c
    \<and> Resolve ascii_tables sample_digests 1 (Some (Lookup (Some c))) (Some (Client_Resolve sample_core DefaultLimits))
      [''wget''] sample_target sample_options = Some res"
proof -
  obtain c where c: "buildCatalog sample_formulae sample_migrations = Inr c" using sample_build by blast
  have "external_targets sample_migrations" by code_simp
  from resolver_returns [OF c this] c show ?thesis by blast
qed

text \<open>
  C3: A core resolution fails only for reasons outside the resolver. Every error is an unsupported
  target, an empty request, a failed lookup of a root or of a signed dependency, a bottle of a reached
  Formula that cannot be resolved or does not fit the runtime, a bottle-tab minimum the selected
  Formula does not meet, or options \<open>Validate\<close> rejects. The remaining error paths, a dependency cycle,
  a dependency that is not canonical or was not resolved and a mismatched identity, are never taken.
\<close>

theorem resolver_error_causes:
  assumes "buildCatalog fs ms = Inr c" and "external_targets ms" and "digests_ok E"
    and "Resolve (env_unicode E) (env_digests E) now (Some (Lookup (Some c))) (Some (Client_Resolve E l))
      roots target opts = Some (Inl e)"
  shows "resolve_cause (env_unicode E) (env_digests E) (Lookup (Some c)) (Client_Resolve E l) target
      (catalog_formula c) roots (stamped now opts) e
    \<and> e \<notin> range Resolver.DependencyCycle \<union> range DependencyNotCanonical \<union> range (case_prod NotResolved)
        \<union> range (case_prod SignedDependencyNotCanonical) \<union> range MismatchedIdentity \<union> range NoCurrentBottle"
proof -
  have "built c" using assms(1,2) unfolding built_def by blast
  from core.resolve_total [OF this, where b = "(E, l)" and now = now and roots = roots and target = target and opts = opts] assms(3,4) have cause:
    "resolve_cause (env_unicode E) (env_digests E) (Lookup (Some c)) (Client_Resolve E l) target
      (catalog_formula c) roots (stamped now opts) e" by simp
  then have "e \<notin> range Resolver.DependencyCycle \<union> range DependencyNotCanonical \<union> range (case_prod NotResolved)
        \<union> range (case_prod SignedDependencyNotCanonical) \<union> range MismatchedIdentity \<union> range NoCurrentBottle"
    by (auto simp: resolve_cause_def closure_cause_def node_cause_def)
  with cause show ?thesis by blast
qed

theorem resolver_error_causes_witness:
  "\<exists>c e. buildCatalog [sample_jq] [] = Inr c
    \<and> Resolve ascii_tables sample_digests 1 (Some (Lookup (Some c))) (Some (Client_Resolve sample_core DefaultLimits))
      [''nope''] sample_target sample_options = Some (Inl e)
    \<and> resolve_cause ascii_tables sample_digests (Lookup (Some c)) (Client_Resolve sample_core DefaultLimits) sample_target
      (catalog_formula c) [''nope''] (stamped 1 sample_options) e"
proof -
  have "case buildCatalog [sample_jq] [] of Inl e \<Rightarrow> False | Inr c \<Rightarrow> \<not> is_ok (Lookup (Some c) ''nope'')" by code_simp
  then obtain c le where c: "buildCatalog [sample_jq] [] = Inr c" and le: "Lookup (Some c) ''nope'' = Inl le"
    by (auto simp: is_ok_def split: sum.split_asm)
  have run: "Resolve ascii_tables sample_digests 1 (Some (Lookup (Some c))) (Some (Client_Resolve sample_core DefaultLimits))
      [''nope''] sample_target sample_options = Some (Inl (RootLookup ''nope'' le))"
    by (simp add: Resolve_def rootStep_def le sample_target_def)
  have "external_targets []" by (simp add: external_targets_def)
  from resolver_error_causes [OF c this sample_core_digests, unfolded sample_tables, OF run] c run
  show ?thesis by blast
qed

text \<open>
  C4: A core resolution succeeds whenever it can. If the target is supported, the roots are known, every
  Formula they reach has a verified bottle that fits the runtime, their signed dependencies are
  enabled, the bottle-tab minimums are met and the options are well formed, \<open>Resolve\<close> returns a record.
\<close>

theorem resolver_succeeds:
  assumes "buildCatalog fs ms = Inr c" and "external_targets ms" and "digests_ok E"
    and "options_ok (env_digests E) (stamped now opts)"
    and "installable (env_unicode E) (Lookup (Some c)) (Client_Resolve E l) target (catalog_formula c) roots"
  shows "\<exists>r. Resolve (env_unicode E) (env_digests E) now (Some (Lookup (Some c))) (Some (Client_Resolve E l))
      roots target opts = Some (Inr r)"
proof -
  have "built c" using assms(1,2) unfolding built_def by blast
  from core.resolve_succeeds [OF this, where b = "(E, l)" and now = now and roots = roots and target = target and opts = opts] assms(3-5) show ?thesis by simp
qed

theorem resolver_succeeds_witness:
  "\<exists>c r. buildCatalog [sample_jq] [] = Inr c
    \<and> Resolve ascii_tables sample_digests 1 (Some (Lookup (Some c))) (Some (Client_Resolve sample_core DefaultLimits))
      [''jq''] sample_target sample_options = Some (Inr r)"
proof -
  obtain c m where c: "buildCatalog [sample_jq] [] = Inr c" and get: "catalog_formula c = [''jq'' \<mapsto> sample_jq]"
    and m: "Lookup (Some c) ''jq'' = Inr m" "mt_Canonical m = ''jq''" by (rule sample_jq_catalog)
  have "external_targets []" by (simp add: external_targets_def)
  from resolver_succeeds [OF c this sample_core_digests, unfolded sample_tables,
      OF sample_options_ok sample_installable [OF get m]] c
  show ?thesis by blast
qed

end
