(* ===== verification/Jws.thy ===== *)
theory Jws
  imports Metadata
begin

text \<open>
  Signed JSON documents: \<open>internal/homebrew/metadata/jws.go\<close>, the key sets of \<open>keys.go\<close>, and
  \<open>decodeJSONObject\<close> and \<open>decodeString\<close> of \<open>jsonutil.go\<close>.

  \<^item> A \<open>json.RawMessage\<close> is the decoded value; \<open>jl_Values\<close> gives the values a text is made of.
  \<^item> The record \<open>jws_lib\<close> holds the parser, the hash functions, \<open>rsa.VerifyPSS\<close> with the PS512 options, and
    the key set read from the embedded Homebrew key.

  The lemmas show that an accepted envelope carries a signature of the required key over exactly the
  returned payload, that all known signatures in it verify, and that an envelope built the way
  \<open>catalogauth.Sign\<close> does is accepted.
\<close>

section \<open>Keys\<close>

record PublicKey =
  pk_N :: int
  pk_E :: int

type_synonym KeySet = "(string, PublicKey) gomap"

definition NewKeySet :: "(string \<times> PublicKey option) list \<Rightarrow> KeySet option" where
  "NewKeySet keys =
     (if keys = [] then None
      else if list_ex (\<lambda>(kid, key). trim_space kid = []
          \<or> (case key of None \<Rightarrow> True | Some k \<Rightarrow> pk_N k \<le> 0 \<or> pk_E k < 3)) keys then None
      else Some (map (\<lambda>(kid, key). (kid, the key)) keys))"

record jws_lib =
  jl_Values :: "string \<Rightarrow> json list option"
  jl_SHA256 :: "string \<Rightarrow> string"
  jl_SHA512 :: "string \<Rightarrow> string"
  jl_VerifyPSS :: "PublicKey \<Rightarrow> string \<Rightarrow> string \<Rightarrow> bool"
  jl_DefaultKeySet :: "KeySet option"

definition DefaultRequiredKeyID :: string where
  "DefaultRequiredKeyID = ''homebrew-1''"

definition JWSAlgorithmPS512 :: string where
  "JWSAlgorithmPS512 = ''PS512''"

section \<open>Reading envelopes\<close>

text \<open>\<open>decodeJSONObject\<close> on decoded values, and on text.\<close>

definition object_of :: "json list \<Rightarrow> (string, json) gomap option" where
  "object_of values =
     (if rejectDuplicateJSONKeys values \<noteq> None then None
      else case values of [JObject members] \<Rightarrow> Some members | _ \<Rightarrow> None)"

definition decodeJSONObject :: "jws_lib \<Rightarrow> string \<Rightarrow> (string, json) gomap option" where
  "decodeJSONObject L data = (case jl_Values L data of None \<Rightarrow> None | Some values \<Rightarrow> object_of values)"

definition decodeString :: "json option \<Rightarrow> string option" where
  "decodeString raw = (case raw of None \<Rightarrow> None | Some v \<Rightarrow> as_string v)"

definition decodeBase64URL :: "string \<Rightarrow> string option" where
  "decodeBase64URL value =
     (if contains_any value [CHR ''+'', CHR ''/'', CHR 0x0D, CHR 0x0A, CHR 0x09, CHR '' ''] then None
      else if CHR ''='' \<in> set value then b64_decode_padded value
      else b64_decode value)"

record parsedJWSSignature =
  pj_kid :: string
  pj_protected :: string
  pj_protectedJSON :: string
  pj_signature :: string

text \<open>The loop over the critical names.\<close>

fun criticalOK :: "(string, json) gomap \<Rightarrow> string list \<Rightarrow> string list \<Rightarrow> bool" where
  "criticalOK protected seen [] = True"
| "criticalOK protected seen (name # names) =
     (if name = [] then False
      else if name \<in> set seen then False
      else if \<not> mhas protected name then False
      else if name \<noteq> ''b64'' then False
      else criticalOK protected (name # seen) names)"

definition criticalNames :: "json option \<Rightarrow> string list option" where
  "criticalNames raw =
     (case raw of Some (JArray vs) \<Rightarrow> as_strings vs | Some JNull \<Rightarrow> Some [] | _ \<Rightarrow> None)"

text \<open>The checks of the protected header: algorithm, unencoded payload, critical names.\<close>

definition headerOK :: "(string, json) gomap \<Rightarrow> bool" where
  "headerOK protected =
     (decodeString (mget protected ''alg'') = Some JWSAlgorithmPS512
      \<and> mget protected ''b64'' = Some (JBool False)
      \<and> (case criticalNames (mget protected ''crit'') of
           None \<Rightarrow> False
         | Some critical \<Rightarrow> critical \<noteq> [] \<and> criticalOK protected [] critical))"

definition parseJWSSignature :: "jws_lib \<Rightarrow> json \<Rightarrow> parsedJWSSignature option" where
  "parseJWSSignature L raw =
     (case object_of [raw] of
        None \<Rightarrow> None
      | Some object \<Rightarrow>
          if \<not> list_all (\<lambda>field. field = ''protected'' \<or> field = ''header'' \<or> field = ''signature'') (mkeys object) then None
          else (case decodeString (mget object ''protected'') of
              None \<Rightarrow> None
            | Some protectedEncoded \<Rightarrow>
                if protectedEncoded = [] then None
                else (case decodeBase64URL protectedEncoded of
                    None \<Rightarrow> None
                  | Some protectedJSON \<Rightarrow>
                      (case decodeJSONObject L protectedJSON of
                         None \<Rightarrow> None
                       | Some protected \<Rightarrow>
                           (case (case mget object ''header'' of None \<Rightarrow> Some [] | Some h \<Rightarrow> object_of [h]) of
                              None \<Rightarrow> None
                            | Some unprotected \<Rightarrow>
                                if list_ex (mhas unprotected) (mkeys protected) then None
                                else if \<not> headerOK protected then None
                                else (case decodeString (if mhas protected ''kid'' then mget protected ''kid''
                                                         else mget unprotected ''kid'') of
                                    None \<Rightarrow> None
                                  | Some kid \<Rightarrow>
                                      if trim_space kid = [] then None
                                      else (case decodeString (mget object ''signature'') of
                                          None \<Rightarrow> None
                                        | Some signatureEncoded \<Rightarrow>
                                            if signatureEncoded = [] then None
                                            else map_option (\<lambda>signature. \<lparr>pj_kid = kid, pj_protected = protectedEncoded,
                                                   pj_protectedJSON = protectedJSON, pj_signature = signature\<rparr>)
                                                 (decodeBase64URL signatureEncoded))))))))"

section \<open>Verification\<close>

definition verifyPS512 :: "jws_lib \<Rightarrow> PublicKey \<Rightarrow> string \<Rightarrow> string \<Rightarrow> string \<Rightarrow> bool" where
  "verifyPS512 L key protected payload signature =
     jl_VerifyPSS L key (jl_SHA512 L (protected @ ''.'' @ payload)) signature"

definition digestBytes :: "jws_lib \<Rightarrow> string \<Rightarrow> string" where
  "digestBytes L data = ''sha256:'' @ jl_SHA256 L data"

definition RejectUnknownSignatures :: nat where
  "RejectUnknownSignatures = 0"

definition IgnoreUnknownSignatures :: nat where
  "IgnoreUnknownSignatures = 1"

record VerificationPolicy =
  vp_RequiredKeyID :: string
  vp_UnknownSignatures :: nat

definition policy_normalized :: "VerificationPolicy \<Rightarrow> VerificationPolicy option" where
  "policy_normalized p =
     (let p = (if vp_RequiredKeyID p = [] then p\<lparr>vp_RequiredKeyID := DefaultRequiredKeyID\<rparr> else p)
      in if trim_space (vp_RequiredKeyID p) = [] then None
         else if vp_UnknownSignatures p \<noteq> RejectUnknownSignatures \<and> vp_UnknownSignatures p \<noteq> IgnoreUnknownSignatures then None
         else Some p)"

record VerifiedJWS =
  vj_payload :: string
  vj_envelopeDigest :: string
  vj_payloadDigest :: string
  vj_signatures :: "SignatureInfo list"

datatype jws_error =
    NoDefaultKeys
  | InvalidPolicy
  | InvalidJWS
  | UnknownSigner string
  | SignatureMismatch string
  | RequiredSignatureMissing string

text \<open>The loop over the signatures, with the maps and flags it fills.\<close>

fun verifySignatures ::
  "jws_lib \<Rightarrow> KeySet \<Rightarrow> VerificationPolicy \<Rightarrow> string \<Rightarrow> json list \<Rightarrow> string list \<Rightarrow> SignatureInfo list \<Rightarrow> bool
     \<Rightarrow> (jws_error, SignatureInfo list \<times> bool) result" where
  "verifySignatures L keys policy payload [] seenKids verified requiredVerified = Inr (verified, requiredVerified)"
| "verifySignatures L keys policy payload (raw # raws) seenKids verified requiredVerified =
     (case parseJWSSignature L raw of
        None \<Rightarrow> Inl InvalidJWS
      | Some s \<Rightarrow>
          if pj_kid s \<in> set seenKids then Inl InvalidJWS
          else (case mget keys (pj_kid s) of
              None \<Rightarrow>
                if vp_UnknownSignatures policy = IgnoreUnknownSignatures
                then verifySignatures L keys policy payload raws (pj_kid s # seenKids) verified requiredVerified
                else Inl (UnknownSigner (pj_kid s))
            | Some key \<Rightarrow>
                if \<not> verifyPS512 L key (pj_protected s) payload (pj_signature s) then Inl (SignatureMismatch (pj_kid s))
                else verifySignatures L keys policy payload raws (pj_kid s # seenKids)
                       (verified @ [\<lparr>si_KeyID = pj_kid s, si_Algorithm = JWSAlgorithmPS512, si_Verified = True,
                          si_ProtectedDigest = digestBytes L (pj_protectedJSON s),
                          si_SignatureDigest = digestBytes L (pj_signature s)\<rparr>])
                       (requiredVerified \<or> pj_kid s = vp_RequiredKeyID policy)))"

definition envelopeSignatures :: "(string, json) gomap \<Rightarrow> json list option" where
  "envelopeSignatures envelope =
     (let hasGeneral = mhas envelope ''signatures'';
          flattened = filter (mhas envelope) [''protected'', ''header'', ''signature'']
      in if hasGeneral = (flattened \<noteq> []) then None
         else if hasGeneral
         then (case mget envelope ''signatures'' of
                 Some (JArray vs) \<Rightarrow> if vs = [] then None else Some vs
               | _ \<Rightarrow> None)
         else Some [JObject (map (\<lambda>field. (field, the (mget envelope field))) flattened)])"

definition VerifyJWS ::
  "jws_lib \<Rightarrow> string \<Rightarrow> KeySet \<Rightarrow> VerificationPolicy \<Rightarrow> (jws_error, VerifiedJWS) result" where
  "VerifyJWS L data keys policy =
     (case (if keys = [] then jl_DefaultKeySet L else Some keys) of
        None \<Rightarrow> Inl NoDefaultKeys
      | Some keys \<Rightarrow>
          (case policy_normalized policy of
             None \<Rightarrow> Inl InvalidPolicy
           | Some policy \<Rightarrow>
               (case decodeJSONObject L data of
                  None \<Rightarrow> Inl InvalidJWS
                | Some envelope \<Rightarrow>
                    if \<not> list_all (\<lambda>field. field \<in> {''payload'', ''signatures'', ''protected'', ''header'', ''signature''}) (mkeys envelope)
                    then Inl InvalidJWS
                    else (case (decodeString (mget envelope ''payload''), envelopeSignatures envelope) of
                        (Some payload, Some signatures) \<Rightarrow>
                          (case verifySignatures L keys policy payload signatures [] [] False of
                             Inl e \<Rightarrow> Inl e
                           | Inr (verified, requiredVerified) \<Rightarrow>
                               if \<not> requiredVerified then Inl (RequiredSignatureMissing (vp_RequiredKeyID policy))
                               else Inr \<lparr>vj_payload = payload, vj_envelopeDigest = digestBytes L data,
                                      vj_payloadDigest = digestBytes L payload,
                                      vj_signatures = sort_key si_KeyID (sort_key si_SignatureDigest verified)\<rparr>)
                      | _ \<Rightarrow> Inl InvalidJWS))))"

section \<open>What verification shows\<close>

text \<open>
  \<open>signed_by\<close>: the signature object \<open>raw\<close> has a protected header for PS512 over an unencoded payload, names
  \<open>kid\<close>, and the key of that name verifies its bytes over that header and \<open>payload\<close>.
\<close>

definition signed_by :: "jws_lib \<Rightarrow> KeySet \<Rightarrow> string \<Rightarrow> string \<Rightarrow> json \<Rightarrow> bool" where
  "signed_by L keys payload kid raw \<longleftrightarrow>
     (\<exists>members protected headerText header unprotected encoded signature key. raw = JObject members
       \<and> mget members ''protected'' = Some (JString protected) \<and> decodeBase64URL protected = Some headerText
       \<and> decodeJSONObject L headerText = Some header
       \<and> mget header ''alg'' = Some (JString ''PS512'') \<and> mget header ''b64'' = Some (JBool False)
       \<and> mget header ''crit'' = Some (JArray [JString ''b64''])
       \<and> (unprotected = [] \<or> mget members ''header'' = Some (JObject unprotected))
       \<and> (if mhas header ''kid'' then mget header ''kid'' else mget unprotected ''kid'') = Some (JString kid)
       \<and> mget members ''signature'' = Some (JString encoded) \<and> decodeBase64URL encoded = Some signature
       \<and> mget keys kid = Some key \<and> jl_VerifyPSS L key (jl_SHA512 L (protected @ ''.'' @ payload)) signature)"

lemma object_of_Some: "object_of [v] = Some members \<Longrightarrow> v = JObject members"
  by (cases v) (simp_all add: object_of_def split: if_splits)

lemma decodeString_nonempty: "decodeString raw = Some s \<Longrightarrow> s \<noteq> [] \<Longrightarrow> raw = Some (JString s)"
  by (auto simp: decodeString_def as_string_def split: option.splits json.splits)

lemma as_strings_nonempty: "as_strings vs = Some ss \<Longrightarrow> [] \<notin> set ss \<Longrightarrow> vs = map JString ss"
proof (induction vs arbitrary: ss)
  case (Cons v vs)
  then obtain s rest where s: "as_string v = Some s" "as_strings vs = Some rest" "ss = s # rest" by (auto split: option.splits)
  with Cons.prems(2) have "v = JString s" by (auto simp: as_string_def split: json.splits)
  with Cons s show ?case by simp
qed simp

lemma criticalOK_b64: "criticalOK protected seen names \<Longrightarrow> distinct names \<and> set names \<inter> set seen = {} \<and> set names \<subseteq> {''b64''}"
  by (induction names arbitrary: seen) (fastforce split: if_splits)+

lemma headerOK_cases:
  assumes "headerOK header"
  shows "mget header ''alg'' = Some (JString ''PS512'')" and "mget header ''b64'' = Some (JBool False)"
    and "mget header ''crit'' = Some (JArray [JString ''b64''])"
proof -
  show "mget header ''alg'' = Some (JString ''PS512'')" "mget header ''b64'' = Some (JBool False)"
    using assms by (auto simp: headerOK_def JWSAlgorithmPS512_def intro: decodeString_nonempty)
  from assms obtain critical where critical: "criticalNames (mget header ''crit'') = Some critical" "critical \<noteq> []"
    "criticalOK header [] critical" by (auto simp: headerOK_def split: option.splits)
  from criticalOK_b64 [OF critical(3)] critical(2) have names: "critical = [''b64'']"
    by (cases critical; cases "tl critical") auto
  with critical(1) obtain vs where vs: "mget header ''crit'' = Some (JArray vs)" "as_strings vs = Some critical"
    by (auto simp: criticalNames_def split: option.splits json.splits)
  from as_strings_nonempty [OF vs(2)] names vs(1) show "mget header ''crit'' = Some (JArray [JString ''b64''])" by simp
qed

lemma parseJWSSignature_Some:
  assumes "parseJWSSignature L raw = Some s"
  obtains members header unprotected encoded where "raw = JObject members" "mget members ''protected'' = Some (JString (pj_protected s))"
    "decodeBase64URL (pj_protected s) = Some (pj_protectedJSON s)" "decodeJSONObject L (pj_protectedJSON s) = Some header"
    "headerOK header" "unprotected = [] \<or> mget members ''header'' = Some (JObject unprotected)"
    "(if mhas header ''kid'' then mget header ''kid'' else mget unprotected ''kid'') = Some (JString (pj_kid s))"
    "mget members ''signature'' = Some (JString encoded)" "decodeBase64URL encoded = Some (pj_signature s)"
proof -
  from assms obtain members header unprotected encoded where m: "object_of [raw] = Some members"
    and p: "decodeString (mget members ''protected'') = Some (pj_protected s)" "pj_protected s \<noteq> []"
      "decodeBase64URL (pj_protected s) = Some (pj_protectedJSON s)" "decodeJSONObject L (pj_protectedJSON s) = Some header"
    and u: "(case mget members ''header'' of None \<Rightarrow> Some [] | Some h \<Rightarrow> object_of [h]) = Some unprotected"
    and ok: "headerOK header"
    and kid: "decodeString (if mhas header ''kid'' then mget header ''kid'' else mget unprotected ''kid'') = Some (pj_kid s)"
      "trim_space (pj_kid s) \<noteq> []"
    and sig: "decodeString (mget members ''signature'') = Some encoded" "encoded \<noteq> []" "decodeBase64URL encoded = Some (pj_signature s)"
    unfolding parseJWSSignature_def by (auto split: option.splits if_splits)
  have "pj_kid s \<noteq> []" using kid(2) by (auto simp: trim_space_def)
  moreover have "unprotected = [] \<or> mget members ''header'' = Some (JObject unprotected)"
    using u by (auto dest: object_of_Some split: option.splits)
  ultimately show thesis
    using that object_of_Some [OF m] decodeString_nonempty [OF p(1,2)] p(3,4) ok
      decodeString_nonempty [OF kid(1)] decodeString_nonempty [OF sig(1,2)] sig(3) by blast
qed

lemma signed_by_iff:
  assumes "parseJWSSignature L raw = Some s"
  shows "signed_by L keys payload kid raw \<longleftrightarrow> kid = pj_kid s
     \<and> (\<exists>key. mget keys kid = Some key \<and> verifyPS512 L key (pj_protected s) payload (pj_signature s))"
proof -
  obtain members header unprotected encoded where raw: "raw = JObject members" "mget members ''protected'' = Some (JString (pj_protected s))"
    "decodeBase64URL (pj_protected s) = Some (pj_protectedJSON s)" "decodeJSONObject L (pj_protectedJSON s) = Some header"
    and ok: "headerOK header"
    and u: "unprotected = [] \<or> mget members ''header'' = Some (JObject unprotected)"
    and kid: "(if mhas header ''kid'' then mget header ''kid'' else mget unprotected ''kid'') = Some (JString (pj_kid s))"
    and sig: "mget members ''signature'' = Some (JString encoded)" "decodeBase64URL encoded = Some (pj_signature s)"
    by (rule parseJWSSignature_Some [OF assms])
  show ?thesis
  proof
    assume "signed_by L keys payload kid raw"
    then obtain unprotected' key where *: "unprotected' = [] \<or> mget members ''header'' = Some (JObject unprotected')"
      "(if mhas header ''kid'' then mget header ''kid'' else mget unprotected' ''kid'') = Some (JString kid)"
      "mget keys kid = Some key" "jl_VerifyPSS L key (jl_SHA512 L (pj_protected s @ ''.'' @ payload)) (pj_signature s)"
      using raw sig unfolding signed_by_def by auto
    with u kid have "kid = pj_kid s" by (auto split: if_splits)
    with *(3,4) show "kid = pj_kid s \<and> (\<exists>key. mget keys kid = Some key \<and> verifyPS512 L key (pj_protected s) payload (pj_signature s))"
      by (simp add: verifyPS512_def)
  next
    assume "kid = pj_kid s \<and> (\<exists>key. mget keys kid = Some key \<and> verifyPS512 L key (pj_protected s) payload (pj_signature s))"
    then show "signed_by L keys payload kid raw"
      using raw headerOK_cases [OF ok] u kid sig unfolding signed_by_def verifyPS512_def by blast
  qed
qed

text \<open>What the loop has established for the signatures it went through.\<close>

definition kid_of :: "jws_lib \<Rightarrow> json \<Rightarrow> string option" where
  "kid_of L raw = map_option pj_kid (parseJWSSignature L raw)"

definition signatures_ok :: "jws_lib \<Rightarrow> KeySet \<Rightarrow> VerificationPolicy \<Rightarrow> string \<Rightarrow> json list \<Rightarrow> bool" where
  "signatures_ok L keys policy payload raws \<longleftrightarrow> distinct (map (kid_of L) raws)
     \<and> (\<forall>raw \<in> set raws. \<exists>kid. kid_of L raw = Some kid
          \<and> (signed_by L keys payload kid raw \<or> mget keys kid = None \<and> vp_UnknownSignatures policy = IgnoreUnknownSignatures))"

lemma verifySignatures_Inr:
  assumes "verifySignatures L keys policy payload raws seen verified required = Inr (verified', required')"
  shows "signatures_ok L keys policy payload raws \<and> Some ` set seen \<inter> kid_of L ` set raws = {}
     \<and> (\<forall>kid. kid \<in> si_KeyID ` set verified' \<longleftrightarrow> kid \<in> si_KeyID ` set verified \<or> (\<exists>raw \<in> set raws. signed_by L keys payload kid raw))
     \<and> (required' \<longleftrightarrow> required \<or> (\<exists>raw \<in> set raws. signed_by L keys payload (vp_RequiredKeyID policy) raw))"
  using assms
proof (induction raws arbitrary: seen verified required)
  case Nil
  then show ?case by (simp add: signatures_ok_def)
next
  case (Cons raw raws)
  then obtain s where s: "parseJWSSignature L raw = Some s" "pj_kid s \<notin> set seen" by (auto split: option.splits if_splits)
  have kid: "kid_of L raw = Some (pj_kid s)" using s(1) by (simp add: kid_of_def)
  show ?case
  proof (cases "mget keys (pj_kid s)")
    case None
    with Cons.prems s have run: "verifySignatures L keys policy payload raws (pj_kid s # seen) verified required = Inr (verified', required')"
      and ignore: "vp_UnknownSignatures policy = IgnoreUnknownSignatures" by (auto split: if_splits)
    have "\<not> signed_by L keys payload k raw" for k using None by (simp add: signed_by_iff [OF s(1)])
    with Cons.IH [OF run] kid s(2) None ignore show ?thesis by (auto simp: signatures_ok_def)
  next
    case (Some key)
    let ?info = "\<lparr>si_KeyID = pj_kid s, si_Algorithm = JWSAlgorithmPS512, si_Verified = True,
      si_ProtectedDigest = digestBytes L (pj_protectedJSON s), si_SignatureDigest = digestBytes L (pj_signature s)\<rparr>"
    from Some Cons.prems s have run: "verifySignatures L keys policy payload raws (pj_kid s # seen) (verified @ [?info])
        (required \<or> pj_kid s = vp_RequiredKeyID policy) = Inr (verified', required')"
      and sig: "verifyPS512 L key (pj_protected s) payload (pj_signature s)" by (auto split: if_splits)
    from sig Some have "signed_by L keys payload k raw \<longleftrightarrow> k = pj_kid s" for k by (auto simp: signed_by_iff [OF s(1)])
    with Cons.IH [OF run] kid s(2) show ?thesis by (auto simp: signatures_ok_def)
  qed
qed

lemma verifySignatures_complete:
  assumes "signatures_ok L keys policy payload raws" and "Some ` set seen \<inter> kid_of L ` set raws = {}"
  shows "\<exists>verified' required'. verifySignatures L keys policy payload raws seen verified required = Inr (verified', required')"
  using assms
proof (induction raws arbitrary: seen verified required)
  case (Cons raw raws)
  from Cons.prems(1) obtain s where s: "parseJWSSignature L raw = Some s"
    and kid: "signed_by L keys payload (pj_kid s) raw
      \<or> mget keys (pj_kid s) = None \<and> vp_UnknownSignatures policy = IgnoreUnknownSignatures"
    by (auto simp: signatures_ok_def kid_of_def)
  then have name: "kid_of L raw = Some (pj_kid s)" by (simp add: kid_of_def)
  have rest: "signatures_ok L keys policy payload raws" "Some ` set (pj_kid s # seen) \<inter> kid_of L ` set raws = {}"
    using Cons.prems name by (auto simp: signatures_ok_def)
  have "pj_kid s \<notin> set seen" using Cons.prems(2) name by auto
  with s kid Cons.IH [OF rest] show ?case by (auto simp: signed_by_iff [OF s])
qed simp

lemma VerifyJWS_Inr:
  assumes "VerifyJWS L data keys policy = Inr v"
  shows "\<exists>used p envelope raws verified. (if keys = [] then jl_DefaultKeySet L else Some keys) = Some used
     \<and> policy_normalized policy = Some p \<and> decodeJSONObject L data = Some envelope
     \<and> set (mkeys envelope) \<subseteq> {''payload'', ''signatures'', ''protected'', ''header'', ''signature''}
     \<and> decodeString (mget envelope ''payload'') = Some (vj_payload v) \<and> envelopeSignatures envelope = Some raws
     \<and> verifySignatures L used p (vj_payload v) raws [] [] False = Inr (verified, True) \<and> set (vj_signatures v) = set verified"
    and "vj_envelopeDigest v = digestBytes L data" and "vj_payloadDigest v = digestBytes L (vj_payload v)"
  using assms unfolding VerifyJWS_def by (auto simp: list_all_iff subset_iff split: option.splits if_splits sum.splits)

lemma VerifyJWS_complete:
  assumes "(if keys = [] then jl_DefaultKeySet L else Some keys) = Some used"
    and "policy_normalized policy = Some p" and "decodeJSONObject L data = Some envelope"
    and "set (mkeys envelope) \<subseteq> {''payload'', ''signatures'', ''protected'', ''header'', ''signature''}"
    and "decodeString (mget envelope ''payload'') = Some payload" and "envelopeSignatures envelope = Some raws"
    and "signatures_ok L used p payload raws" and "\<exists>raw \<in> set raws. signed_by L used payload (vp_RequiredKeyID p) raw"
  shows "\<exists>v. VerifyJWS L data keys policy = Inr v \<and> vj_payload v = payload"
proof -
  from verifySignatures_complete [OF assms(7), of "[]"] obtain verified required
    where run: "verifySignatures L used p payload raws [] [] False = Inr (verified, required)" by fastforce
  with verifySignatures_Inr [OF run] assms(8) have "verifySignatures L used p payload raws [] [] False = Inr (verified, True)" by simp
  moreover have "list_all (\<lambda>field. field \<in> {''payload'', ''signatures'', ''protected'', ''header'', ''signature''}) (mkeys envelope)"
    using assms(4) by (auto simp: list_all_iff)
  ultimately show ?thesis using assms(1-3,5,6) by (simp add: VerifyJWS_def del: insert_iff)
qed

text \<open>An envelope with one flattened signature of a known key is accepted.\<close>

definition flattened_envelope :: "string \<Rightarrow> string \<Rightarrow> string \<Rightarrow> json" where
  "flattened_envelope payload protected signature =
     JObject [(''payload'', JString payload), (''protected'', JString protected), (''signature'', JString signature)]"

definition PS512_header :: "string \<Rightarrow> json" where
  "PS512_header kid = JObject [(''alg'', JString JWSAlgorithmPS512), (''b64'', JBool False), (''crit'', JArray [JString ''b64'']),
     (''kid'', JString kid)]"

lemma decodeBase64URL_encode: "decodeBase64URL (b64_encode s) = Some s"
proof -
  have "c \<notin> set (b64_encode s)" if "b64_value c = None" for c using b64_encode_values [of c s] that by auto
  moreover have "list_all (\<lambda>c. b64_value c = None) [CHR ''+'', CHR ''/'', CHR 0x0D, CHR 0x0A, CHR 0x09, CHR '' '', CHR ''='']"
    by code_simp
  ultimately show ?thesis
    by (auto simp: decodeBase64URL_def b64_decode_encode contains_any_def list_ex_iff)
qed

lemma parseJWSSignature_PS512:
  assumes "jl_Values L header = Some [PS512_header kid]" and "trim_space kid \<noteq> []" and "header \<noteq> []" and "signature \<noteq> []"
  shows "parseJWSSignature L (JObject [(''protected'', JString (b64_encode header)), (''signature'', JString (b64_encode signature))])
     = Some \<lparr>pj_kid = kid, pj_protected = b64_encode header, pj_protectedJSON = header, pj_signature = signature\<rparr>"
  using assms
  by (simp add: parseJWSSignature_def object_of_def rejectDuplicateJSONKeys_def decodeString_def as_string_def
      decodeBase64URL_encode decodeJSONObject_def PS512_header_def headerOK_def criticalNames_def mhas_def)

lemma VerifyJWS_flattened:
  assumes "jl_Values L data = Some [flattened_envelope payload (b64_encode header) (b64_encode signature)]"
    and "jl_Values L header = Some [PS512_header kid]" and "trim_space kid \<noteq> []" and "header \<noteq> []" and "signature \<noteq> []"
    and "mget keys kid = Some key" and "verifyPS512 L key (b64_encode header) payload signature"
  shows "\<exists>v. VerifyJWS L data keys \<lparr>vp_RequiredKeyID = kid, vp_UnknownSignatures = RejectUnknownSignatures\<rparr> = Inr v
     \<and> vj_payload v = payload"
proof -
  have "keys \<noteq> []" "kid \<noteq> []" using assms(3,6) by (auto simp: trim_space_def)
  moreover have "decodeJSONObject L data = Some [(''payload'', JString payload), (''protected'', JString (b64_encode header)),
      (''signature'', JString (b64_encode signature))]"
    using assms(1) by (simp add: decodeJSONObject_def flattened_envelope_def object_of_def rejectDuplicateJSONKeys_def)
  ultimately show ?thesis
    using assms(3,6,7) parseJWSSignature_PS512 [OF assms(2-5)]
    by (simp add: VerifyJWS_def policy_normalized_def envelopeSignatures_def decodeString_def as_string_def mhas_def
        RejectUnknownSignatures_def IgnoreUnknownSignatures_def)
qed

section \<open>Claims\<close>

text \<open>
  C36: A signed document is accepted with a payload exactly when it is one JSON object with known
  members and that payload, in one of the two serialisations, whose signatures name distinct keys, each of
  them a PS512 signature over that payload that verifies with the named key or, if the policy ignores
  them, of an unknown key, and one of them is of the required key. The signers that are reported
  are those whose signatures verify, and the reported digests are those of the document and the
  payload.
\<close>

theorem verified_payload_is_signed:
  "((\<exists>v. VerifyJWS L data keys policy = Inr v \<and> vj_payload v = payload) \<longleftrightarrow>
      (\<exists>used p envelope raws. (if keys = [] then jl_DefaultKeySet L else Some keys) = Some used
         \<and> policy_normalized policy = Some p \<and> decodeJSONObject L data = Some envelope
         \<and> set (mkeys envelope) \<subseteq> {''payload'', ''signatures'', ''protected'', ''header'', ''signature''}
         \<and> decodeString (mget envelope ''payload'') = Some payload \<and> envelopeSignatures envelope = Some raws
         \<and> signatures_ok L used p payload raws \<and> (\<exists>raw \<in> set raws. signed_by L used payload (vp_RequiredKeyID p) raw)))
   \<and> (\<forall>v. VerifyJWS L data keys policy = Inr v \<longrightarrow>
        vj_envelopeDigest v = digestBytes L data \<and> vj_payloadDigest v = digestBytes L (vj_payload v)
        \<and> (\<exists>used envelope raws. (if keys = [] then jl_DefaultKeySet L else Some keys) = Some used
             \<and> decodeJSONObject L data = Some envelope \<and> envelopeSignatures envelope = Some raws
             \<and> (\<forall>kid. kid \<in> si_KeyID ` set (vj_signatures v) \<longleftrightarrow> (\<exists>raw \<in> set raws. signed_by L used (vj_payload v) kid raw))))"
proof (intro conjI iffI allI impI)
  assume "\<exists>v. VerifyJWS L data keys policy = Inr v \<and> vj_payload v = payload"
  then obtain v where v: "VerifyJWS L data keys policy = Inr v" "vj_payload v = payload" by blast
  from VerifyJWS_Inr [OF v(1)] obtain used p envelope raws verified
    where *: "(if keys = [] then jl_DefaultKeySet L else Some keys) = Some used" "policy_normalized policy = Some p"
      "decodeJSONObject L data = Some envelope"
      "set (mkeys envelope) \<subseteq> {''payload'', ''signatures'', ''protected'', ''header'', ''signature''}"
      "decodeString (mget envelope ''payload'') = Some payload" "envelopeSignatures envelope = Some raws"
    and run: "verifySignatures L used p payload raws [] [] False = Inr (verified, True)"
    unfolding v(2) by metis
  from verifySignatures_Inr [OF run]
  have "signatures_ok L used p payload raws \<and> (\<exists>raw \<in> set raws. signed_by L used payload (vp_RequiredKeyID p) raw)" by simp
  with * show "\<exists>used p envelope raws. (if keys = [] then jl_DefaultKeySet L else Some keys) = Some used
         \<and> policy_normalized policy = Some p \<and> decodeJSONObject L data = Some envelope
         \<and> set (mkeys envelope) \<subseteq> {''payload'', ''signatures'', ''protected'', ''header'', ''signature''}
         \<and> decodeString (mget envelope ''payload'') = Some payload \<and> envelopeSignatures envelope = Some raws
         \<and> signatures_ok L used p payload raws \<and> (\<exists>raw \<in> set raws. signed_by L used payload (vp_RequiredKeyID p) raw)"
    by blast
next
  assume "\<exists>used p envelope raws. (if keys = [] then jl_DefaultKeySet L else Some keys) = Some used
         \<and> policy_normalized policy = Some p \<and> decodeJSONObject L data = Some envelope
         \<and> set (mkeys envelope) \<subseteq> {''payload'', ''signatures'', ''protected'', ''header'', ''signature''}
         \<and> decodeString (mget envelope ''payload'') = Some payload \<and> envelopeSignatures envelope = Some raws
         \<and> signatures_ok L used p payload raws \<and> (\<exists>raw \<in> set raws. signed_by L used payload (vp_RequiredKeyID p) raw)"
  then show "\<exists>v. VerifyJWS L data keys policy = Inr v \<and> vj_payload v = payload" by (elim exE conjE) (rule VerifyJWS_complete)
next
  fix v
  assume v: "VerifyJWS L data keys policy = Inr v"
  from VerifyJWS_Inr [OF v] obtain used p envelope raws verified
    where *: "(if keys = [] then jl_DefaultKeySet L else Some keys) = Some used"
      "decodeJSONObject L data = Some envelope" "envelopeSignatures envelope = Some raws"
    and run: "verifySignatures L used p (vj_payload v) raws [] [] False = Inr (verified, True)"
    and signatures: "set (vj_signatures v) = set verified" by metis
  from verifySignatures_Inr [OF run] signatures
  have "\<forall>kid. kid \<in> si_KeyID ` set (vj_signatures v) \<longleftrightarrow> (\<exists>raw \<in> set raws. signed_by L used (vj_payload v) kid raw)" by simp
  with * show "\<exists>used envelope raws. (if keys = [] then jl_DefaultKeySet L else Some keys) = Some used
             \<and> decodeJSONObject L data = Some envelope \<and> envelopeSignatures envelope = Some raws
             \<and> (\<forall>kid. kid \<in> si_KeyID ` set (vj_signatures v) \<longleftrightarrow> (\<exists>raw \<in> set raws. signed_by L used (vj_payload v) kid raw))"
    by blast
qed (use VerifyJWS_Inr in blast)+

definition sample_lib :: jws_lib where
  "sample_lib = \<lparr>jl_Values = (\<lambda>d. if d = ''h'' then Some [PS512_header ''homebrew-1'']
       else if d = ''d'' then Some [flattened_envelope ''p'' (b64_encode ''h'') (b64_encode ''s'')] else None),
     jl_SHA256 = (\<lambda>d. d), jl_SHA512 = (\<lambda>d. d),
     jl_VerifyPSS = (\<lambda>key digest signature. digest = b64_encode ''h'' @ ''.p'' \<and> signature = ''s''), jl_DefaultKeySet = None\<rparr>"

theorem verified_payload_is_signed_witness:
  "\<exists>v. VerifyJWS sample_lib ''d'' [(''homebrew-1'', \<lparr>pk_N = 15, pk_E = 3\<rparr>)]
         \<lparr>vp_RequiredKeyID = ''homebrew-1'', vp_UnknownSignatures = RejectUnknownSignatures\<rparr> = Inr v
     \<and> vj_payload v = ''p'' \<and> vj_payloadDigest v = ''sha256:p''
     \<and> (\<exists>raw. signed_by sample_lib [(''homebrew-1'', \<lparr>pk_N = 15, pk_E = 3\<rparr>)] ''p'' ''homebrew-1'' raw)"
proof -
  let ?keys = "[(''homebrew-1'', \<lparr>pk_N = 15, pk_E = 3\<rparr>)]"
  let ?policy = "\<lparr>vp_RequiredKeyID = ''homebrew-1'', vp_UnknownSignatures = RejectUnknownSignatures\<rparr>"
  have "trim_space ''homebrew-1'' \<noteq> []" by (simp add: trim_space_solid ascii_def unicode_IsSpace_def)
  then have accepted: "\<exists>v. VerifyJWS sample_lib ''d'' ?keys ?policy = Inr v \<and> vj_payload v = ''p''"
    by (intro VerifyJWS_flattened [where header = "''h''" and signature = "''s''" and key = "\<lparr>pk_N = 15, pk_E = 3\<rparr>"])
      (simp_all add: sample_lib_def verifyPS512_def)
  then obtain v where v: "VerifyJWS sample_lib ''d'' ?keys ?policy = Inr v" "vj_payload v = ''p''" by blast
  note signed = verified_payload_is_signed [of sample_lib "''d''" ?keys ?policy "''p''"]
  have normalized: "policy_normalized ?policy = Some ?policy"
    using \<open>trim_space ''homebrew-1'' \<noteq> []\<close> by (simp add: policy_normalized_def)
  obtain raw where raw: "signed_by sample_lib ?keys ''p'' ''homebrew-1'' raw"
    using signed [THEN conjunct1, THEN iffD1, OF accepted] unfolding normalized option.inject if_False list.distinct(2)
    by (elim exE conjE bexE) (hypsubst, simp)
  from signed [THEN conjunct2, rule_format, OF v(1), THEN conjunct2, THEN conjunct1] v(2) have "vj_payloadDigest v = ''sha256:p''"
    by (simp add: digestBytes_def sample_lib_def)
  with v raw show ?thesis by blast
qed

end
