(* ===== verification/CatalogRequest.thy ===== *)
theory CatalogRequest
  imports Formulaid
begin

text \<open>
  The catalog request of package catalog: \<open>internal/catalog/types.go\<close>, \<open>validate.go\<close> and
  \<open>canonical.go\<close>. \<open>ValidateRequest\<close>, \<open>normalizedRequestTargets\<close>, \<open>NormalizedTargets\<close>,
  \<open>canonicalizeRequest\<close>, \<open>CanonicalRequest\<close>, \<open>RequestDigest\<close> and \<open>DecodeRequest\<close> keep their names.

  \<^item> A slice the code compares with nil is a list option; the code never tells a nil slice of core
    roots or of targets from an empty one, so these are lists.
  \<^item> The record \<open>json_codec\<close> holds \<open>encoding/json\<close> on requests, that is encoding, the values a text is
    made of and decoding of one value without unknown fields, and SHA-256. The fields of the legacy
    form are not serialised. \<open>json_faithful\<close> is the law on it: what is encoded for a valid request
    without legacy fields is UTF-8, one value of bounded depth without repeated members, and decodes to
    the same request.

  The lemmas show which requests are accepted, that the canonical form is sorted and that making it
  again changes nothing, that the canonical bytes decode to the canonical request, and that requests
  with the same roots for each platform have the same bytes, whatever their order and form.
\<close>

section \<open>Requests\<close>

datatype TargetPlatform = TargetPlatform (pl_OS: string) (pl_Architecture: string) (pl_Variant: string)

record PlatformRequest =
  pq_Platform :: TargetPlatform
  pq_ExternalRoots :: "FormulaIDw list option"
  pq_CoreRoots :: "FormulaIDw list"

record Request =
  rq_SchemaVersion :: string
  rq_Targets :: "PlatformRequest list"
  rq_HomebrewCommit :: string
  rq_CoreSnapshotDigest :: string
  rq_ExternalRoots :: "FormulaIDw list"
  rq_Platforms :: "TargetPlatform list"

definition RequestSchemaVersion :: string where
  "RequestSchemaVersion = ''dalec-homebrew-catalog-request/v1''"

definition MaxTaps :: nat where
  "MaxTaps = 16"

definition MaxClosureNodes :: nat where
  "MaxClosureNodes = 256"

definition MaxRequestBytes :: int where
  "MaxRequestBytes = 1048576"

definition comparePlatform :: "TargetPlatform \<Rightarrow> TargetPlatform \<Rightarrow> int" where
  "comparePlatform l r =
     (if strings_Compare (pl_OS l) (pl_OS r) \<noteq> 0 then strings_Compare (pl_OS l) (pl_OS r)
      else if strings_Compare (pl_Architecture l) (pl_Architecture r) \<noteq> 0
      then strings_Compare (pl_Architecture l) (pl_Architecture r)
      else strings_Compare (pl_Variant l) (pl_Variant r))"

text \<open>The order of platforms is the one of \<open>comparePlatform\<close>.\<close>

instantiation TargetPlatform :: linorder
begin

definition less_eq_TargetPlatform :: "TargetPlatform \<Rightarrow> TargetPlatform \<Rightarrow> bool" where
  "less_eq_TargetPlatform l r = (comparePlatform l r \<le> 0)"

definition less_TargetPlatform :: "TargetPlatform \<Rightarrow> TargetPlatform \<Rightarrow> bool" where
  "less_TargetPlatform l r = (comparePlatform l r < 0)"

instance
  by standard
    (auto simp: less_eq_TargetPlatform_def less_TargetPlatform_def comparePlatform_def strings_Compare_def
       split: if_splits intro: TargetPlatform.expand)

end

definition Platform_Validate :: "TargetPlatform \<Rightarrow> bool" where
  "Platform_Validate p =
     (\<not> (pl_OS p \<noteq> ''linux'' \<or> (pl_Architecture p \<noteq> ''amd64'' \<and> pl_Architecture p \<noteq> ''arm64'')
         \<or> pl_Variant p \<noteq> []))"

definition Platform_key :: "TargetPlatform \<Rightarrow> string" where
  "Platform_key p = pl_OS p @ ''/'' @ pl_Architecture p"

definition lowerHex :: "string \<Rightarrow> bool" where
  "lowerHex value = list_all lower_hex_char value"

definition validateCommit :: "string \<Rightarrow> bool" where
  "validateCommit value = (\<not> (length value \<noteq> 40 \<or> \<not> lowerHex value))"

definition validateSHA256Digest :: "string \<Rightarrow> bool" where
  "validateSHA256Digest value =
     (prefix ''sha256:'' value
      \<and> (let hexValue = trim_prefix ''sha256:'' value
         in \<not> (length hexValue \<noteq> 32 * 2 \<or> \<not> lowerHex hexValue) \<and> hex_ok hexValue))"

section \<open>Normalisation\<close>

datatype request_error =
    UnsupportedSchema
  | MixedTargets
  | LegacyIncomplete
  | NoTargets
  | TooManyTargets nat
  | BadPlatform nat
  | DuplicatePlatform string
  | NilExternalRoots nat
  | BadExternalRoot nat nat formulaid_error
  | CoreExternalRoot nat nat
  | DuplicateExternalRoot FormulaIDw string
  | BadCoreRoot nat nat formulaid_error
  | NotCoreRoot nat nat
  | DuplicateCoreRoot FormulaIDw string
  | NoExternalRoots
  | TooManyRoots nat
  | TooManyTaps nat
  | BadCommit
  | BadSnapshot

definition normalizedRequestTargets :: "Request \<Rightarrow> (request_error, PlatformRequest list) result" where
  "normalizedRequestTargets r =
     (if rq_Targets r \<noteq> []
      then if rq_Platforms r \<noteq> [] \<or> rq_ExternalRoots r \<noteq> [] then Inl MixedTargets else Inr (rq_Targets r)
      else if rq_Platforms r = [] \<and> rq_ExternalRoots r = [] then Inr []
      else if rq_Platforms r = [] \<or> rq_ExternalRoots r = [] then Inl LegacyIncomplete
      else Inr (map (\<lambda>p. \<lparr>pq_Platform = p, pq_ExternalRoots = Some (rq_ExternalRoots r), pq_CoreRoots = []\<rparr>)
                 (rq_Platforms r)))"

definition sortRoots :: "PlatformRequest \<Rightarrow> PlatformRequest" where
  "sortRoots t = t\<lparr>pq_ExternalRoots := map_option sort (pq_ExternalRoots t), pq_CoreRoots := sort (pq_CoreRoots t)\<rparr>"

definition sortTargets :: "PlatformRequest list \<Rightarrow> PlatformRequest list" where
  "sortTargets ts = sort_key pq_Platform (map sortRoots ts)"

definition canonicalizeRequest :: "Request \<Rightarrow> Request" where
  "canonicalizeRequest r =
     r\<lparr>rq_Targets := sortTargets (case normalizedRequestTargets r of Inl e \<Rightarrow> rq_Targets r | Inr ts \<Rightarrow> ts),
       rq_ExternalRoots := [], rq_Platforms := []\<rparr>"

section \<open>Validation\<close>

text \<open>
  The loops of \<open>ValidateRequest\<close>: the sets it collects are lists in the order of insertion, and
  \<open>set_add\<close> is the write into a set of the code.
\<close>

definition set_add :: "'a \<Rightarrow> 'a list \<Rightarrow> 'a list" where
  "set_add x xs = (if x \<in> set xs then xs else xs @ [x])"

record request_scan =
  sc_platforms :: "string list"
  sc_roots :: "FormulaIDw list"
  sc_taps :: "TapID list"
  sc_associations :: nat
  sc_errors :: "request_error list"

fun scanExternal ::
  "nat \<Rightarrow> string \<Rightarrow> nat \<Rightarrow> FormulaIDw list \<Rightarrow> FormulaIDw list \<Rightarrow> request_scan \<Rightarrow> request_scan" where
  "scanExternal ti key ri targetRoots [] s = s"
| "scanExternal ti key ri targetRoots (i # rest) s =
     (let s = s\<lparr>sc_associations := sc_associations s + 1\<rparr>
      in case FormulaID_Validate i of
           Some e \<Rightarrow> scanExternal ti key (ri + 1) targetRoots rest
             (s\<lparr>sc_errors := sc_errors s @ [BadExternalRoot ti ri e]\<rparr>)
         | None \<Rightarrow>
             scanExternal ti key (ri + 1) (set_add i targetRoots) rest
               (s\<lparr>sc_errors := sc_errors s @ (if FormulaID_IsCore i then [CoreExternalRoot ti ri] else [])
                     @ (if i \<in> set targetRoots then [DuplicateExternalRoot i key] else []),
                  sc_roots := set_add i (sc_roots s), sc_taps := set_add (FormulaID_Tap i) (sc_taps s)\<rparr>))"

fun scanCore ::
  "nat \<Rightarrow> string \<Rightarrow> nat \<Rightarrow> FormulaIDw list \<Rightarrow> FormulaIDw list \<Rightarrow> request_scan \<Rightarrow> request_scan" where
  "scanCore ti key ri coreRoots [] s = s"
| "scanCore ti key ri coreRoots (i # rest) s =
     (case FormulaID_Validate i of
        Some e \<Rightarrow> scanCore ti key (ri + 1) coreRoots rest
          (s\<lparr>sc_errors := sc_errors s @ [BadCoreRoot ti ri e]\<rparr>)
      | None \<Rightarrow>
          scanCore ti key (ri + 1) (set_add i coreRoots) rest
            (s\<lparr>sc_errors := sc_errors s @ (if \<not> FormulaID_IsCore i then [NotCoreRoot ti ri] else [])
                  @ (if i \<in> set coreRoots then [DuplicateCoreRoot i key] else []),
               sc_roots := set_add i (sc_roots s)\<rparr>))"

definition scanPlatform :: "nat \<Rightarrow> TargetPlatform \<Rightarrow> request_scan \<Rightarrow> request_scan" where
  "scanPlatform ti p s =
     (if \<not> Platform_Validate p then s\<lparr>sc_errors := sc_errors s @ [BadPlatform ti]\<rparr>
      else s\<lparr>sc_errors := sc_errors s
               @ (if Platform_key p \<in> set (sc_platforms s) then [DuplicatePlatform (Platform_key p)] else []),
             sc_platforms := set_add (Platform_key p) (sc_platforms s)\<rparr>)"

definition scanTarget :: "nat \<times> PlatformRequest \<Rightarrow> request_scan \<Rightarrow> request_scan" where
  "scanTarget = (\<lambda>(ti, t) s.
     let key = Platform_key (pq_Platform t);
         s = scanPlatform ti (pq_Platform t) s;
         s = (if pq_ExternalRoots t = None then s\<lparr>sc_errors := sc_errors s @ [NilExternalRoots ti]\<rparr> else s);
         s = scanExternal ti key 0 [] (case pq_ExternalRoots t of None \<Rightarrow> [] | Some rs \<Rightarrow> rs) s
     in scanCore ti key 0 [] (pq_CoreRoots t) s)"

definition ValidateRequest :: "Request \<Rightarrow> request_error list" where
  "ValidateRequest r =
     (let normalized = normalizedRequestTargets r;
          targets = (case normalized of Inl e \<Rightarrow> [] | Inr ts \<Rightarrow> ts);
          errs = (if rq_SchemaVersion r \<noteq> RequestSchemaVersion then [UnsupportedSchema] else [])
            @ (case normalized of Inl e \<Rightarrow> [e] | Inr ts \<Rightarrow> [])
            @ (if targets = [] then [NoTargets] else [])
            @ (if 2 < length targets then [TooManyTargets (length targets)] else []);
          s = fold scanTarget (enumerate 0 targets)
                \<lparr>sc_platforms = [], sc_roots = [], sc_taps = [], sc_associations = 0, sc_errors = errs\<rparr>
      in sc_errors s
         @ (if sc_associations s = 0 then [NoExternalRoots] else [])
         @ (if MaxClosureNodes < length (sc_roots s) then [TooManyRoots (length (sc_roots s))] else [])
         @ (if MaxTaps < length (sc_taps s) then [TooManyTaps (length (sc_taps s))] else [])
         @ (if \<not> validateCommit (rq_HomebrewCommit r) then [BadCommit] else [])
         @ (if \<not> validateSHA256Digest (rq_CoreSnapshotDigest r) then [BadSnapshot] else []))"

definition NormalizedTargets :: "Request \<Rightarrow> (request_error list, PlatformRequest list) result" where
  "NormalizedTargets r =
     (if ValidateRequest r \<noteq> [] then Inl (ValidateRequest r)
      else case normalizedRequestTargets r of Inl e \<Rightarrow> Inl [e] | Inr ts \<Rightarrow> Inr (sortTargets ts))"

section \<open>Canonical bytes\<close>

record json_codec =
  js_Encode :: "Request \<Rightarrow> string option"
  js_Values :: "string \<Rightarrow> json list option"
  js_Unmarshal :: "json \<Rightarrow> Request option"
  js_SHA256 :: "string \<Rightarrow> string"

definition MaxJSONDepth :: nat where
  "MaxJSONDepth = 128"

text \<open>Every value is checked for its depth, and the members of an object for repeated names, in order.\<close>

function walkUniqueJSONValue :: "nat \<Rightarrow> json \<Rightarrow> bool"
  and walkUniqueMembers :: "nat \<Rightarrow> string list \<Rightarrow> (string \<times> json) list \<Rightarrow> bool"
  and walkUniqueElements :: "nat \<Rightarrow> json list \<Rightarrow> bool" where
  "walkUniqueJSONValue depth v =
     (if MaxJSONDepth < depth then False
      else case v of
          JObject ms \<Rightarrow> walkUniqueMembers depth [] ms
        | JArray vs \<Rightarrow> walkUniqueElements depth vs
        | _ \<Rightarrow> True)"
| "walkUniqueMembers depth seen [] = True"
| "walkUniqueMembers depth seen ((key, v) # ms) =
     (if key \<in> set seen then False
      else if \<not> walkUniqueJSONValue (depth + 1) v then False
      else walkUniqueMembers depth (key # seen) ms)"
| "walkUniqueElements depth [] = True"
| "walkUniqueElements depth (v # vs) =
     (if \<not> walkUniqueJSONValue (depth + 1) v then False else walkUniqueElements depth vs)"
  by pat_completeness auto
termination
  by (relation "measure (\<lambda>x. case x of Inl (_, v) \<Rightarrow> size v
        | Inr (Inl (_, _, ms)) \<Rightarrow> size_list (size_prod (\<lambda>_. 0) size) ms
        | Inr (Inr (_, vs)) \<Rightarrow> size_list size vs)")
    (auto)

definition validateUniqueJSON :: "json list \<Rightarrow> bool" where
  "validateUniqueJSON values =
     (case values of
        [] \<Rightarrow> False
      | v # trailing \<Rightarrow> if \<not> walkUniqueJSONValue 0 v then False else trailing = [])"

text \<open>\<open>decodeDocument\<close> for a request. The decoder rejects unknown fields.\<close>

definition DecodeRequest :: "json_codec \<Rightarrow> string \<Rightarrow> Request option" where
  "DecodeRequest J data =
     (if MaxRequestBytes < int (length data) then None
      else if \<not> valid_utf8 data then None
      else case js_Values J data of
          None \<Rightarrow> None
        | Some values \<Rightarrow>
            if \<not> validateUniqueJSON values then None
            else (case values of
                [] \<Rightarrow> None
              | v # trailing \<Rightarrow>
                  (case js_Unmarshal J v of
                     None \<Rightarrow> None
                   | Some r \<Rightarrow>
                       if trailing \<noteq> [] then None
                       else let value = canonicalizeRequest r
                            in if ValidateRequest value \<noteq> [] then None else Some value)))"

definition CanonicalRequest :: "json_codec \<Rightarrow> Request \<Rightarrow> string option" where
  "CanonicalRequest J r =
     (if ValidateRequest r \<noteq> [] then None
      else let clone = canonicalizeRequest r
           in if ValidateRequest clone \<noteq> [] then None
              else case js_Encode J clone of
                  None \<Rightarrow> None
                | Some data \<Rightarrow> if MaxRequestBytes < int (length data) then None else Some data)"

definition RequestDigest :: "json_codec \<Rightarrow> Request \<Rightarrow> string option" where
  "RequestDigest J r = map_option (js_SHA256 J) (CanonicalRequest J r)"

definition json_faithful :: "json_codec \<Rightarrow> bool" where
  "json_faithful J \<longleftrightarrow> (\<forall>r data. ValidateRequest r = [] \<longrightarrow> rq_ExternalRoots r = [] \<longrightarrow> rq_Platforms r = []
     \<longrightarrow> js_Encode J r = Some data
     \<longrightarrow> valid_utf8 data \<and> (\<exists>v. js_Values J data = Some [v] \<and> json_unique v \<and> json_depth v \<le> MaxJSONDepth
           \<and> js_Unmarshal J v = Some r))"

lemma walkUnique_iff:
  "walkUniqueJSONValue depth v \<longleftrightarrow> json_unique v \<and> depth + json_depth v \<le> MaxJSONDepth"
  "depth \<le> MaxJSONDepth \<Longrightarrow> walkUniqueMembers depth seen ms \<longleftrightarrow> distinct (map fst ms) \<and> set (map fst ms) \<inter> set seen = {}
     \<and> (\<forall>m \<in> set ms. json_unique (snd m) \<and> depth + 1 + json_depth (snd m) \<le> MaxJSONDepth)"
  "depth \<le> MaxJSONDepth \<Longrightarrow> walkUniqueElements depth vs \<longleftrightarrow>
     (\<forall>v \<in> set vs. json_unique v \<and> depth + 1 + json_depth v \<le> MaxJSONDepth)"
proof (induction depth v and depth seen ms and depth vs rule: walkUniqueJSONValue_walkUniqueMembers_walkUniqueElements.induct)
  case (1 depth v)
  have depth: "depth + json_depth v \<le> MaxJSONDepth \<longleftrightarrow> depth \<le> MaxJSONDepth \<and> json_depth v \<le> MaxJSONDepth - depth" by auto
  show ?case
  proof (cases "MaxJSONDepth < depth")
    case False
    then have "Suc n \<le> MaxJSONDepth - depth \<longleftrightarrow> depth + 1 + n \<le> MaxJSONDepth" for n by auto
    with False 1 show ?thesis unfolding depth
      by (cases v) (auto simp: json_depth_le simp del: json_depth.simps(1,2))
  qed simp
qed (auto simp del: walkUniqueJSONValue.simps)

lemma validateUniqueJSON_iff:
  "validateUniqueJSON values \<longleftrightarrow> (\<exists>v. values = [v] \<and> json_unique v \<and> json_depth v \<le> MaxJSONDepth)"
  by (auto simp: validateUniqueJSON_def walkUnique_iff(1) simp del: walkUniqueJSONValue.simps split: list.splits)

section \<open>What validation accepts\<close>

lemma set_set_add [simp]: "set (set_add x xs) = insert x (set xs)"
  by (auto simp: set_add_def)

lemma distinct_set_add [simp]: "distinct xs \<Longrightarrow> distinct (set_add x xs)"
  by (auto simp: set_add_def)

abbreviation id_valid :: "FormulaIDw \<Rightarrow> bool" where
  "id_valid i \<equiv> FormulaID_Validate i = None"

lemma scanExternal_errors:
  "sc_errors (scanExternal ti key ri seen rs s) = [] \<longleftrightarrow>
     sc_errors s = [] \<and> (\<forall>i \<in> set rs. id_valid i \<and> \<not> FormulaID_IsCore i \<and> i \<notin> set seen) \<and> distinct rs"
  by (induction rs arbitrary: ri seen s) (auto simp: Let_def split: option.splits)

lemma scanExternal_state:
  "sc_platforms (scanExternal ti key ri seen rs s) = sc_platforms s
   \<and> set (sc_roots (scanExternal ti key ri seen rs s)) = set (sc_roots s) \<union> {i \<in> set rs. id_valid i}
   \<and> set (sc_taps (scanExternal ti key ri seen rs s)) = set (sc_taps s) \<union> FormulaID_Tap ` {i \<in> set rs. id_valid i}
   \<and> sc_associations (scanExternal ti key ri seen rs s) = sc_associations s + length rs
   \<and> (distinct (sc_roots s) \<longrightarrow> distinct (sc_roots (scanExternal ti key ri seen rs s)))
   \<and> (distinct (sc_taps s) \<longrightarrow> distinct (sc_taps (scanExternal ti key ri seen rs s)))"
proof (induction ti key ri seen rs s rule: scanExternal.induct)
  case (2 ti key ri seen i rest s)
  show ?case
  proof (cases "FormulaID_Validate i")
    case None
    then have "{j \<in> set (i # rest). id_valid j} = insert i {j \<in> set rest. id_valid j}" by auto
    with 2 None show ?thesis by (simp add: Let_def split del: if_split)
  next
    case (Some e)
    then have "{j \<in> set (i # rest). id_valid j} = {j \<in> set rest. id_valid j}" by auto
    with 2 Some show ?thesis by (simp add: Let_def split del: if_split)
  qed
qed simp

lemma scanCore_errors:
  "sc_errors (scanCore ti key ri seen rs s) = [] \<longleftrightarrow>
     sc_errors s = [] \<and> (\<forall>i \<in> set rs. id_valid i \<and> FormulaID_IsCore i \<and> i \<notin> set seen) \<and> distinct rs"
  by (induction rs arbitrary: ri seen s) (auto split: option.splits)

lemma scanCore_state:
  "sc_platforms (scanCore ti key ri seen rs s) = sc_platforms s
   \<and> set (sc_roots (scanCore ti key ri seen rs s)) = set (sc_roots s) \<union> {i \<in> set rs. id_valid i}
   \<and> sc_taps (scanCore ti key ri seen rs s) = sc_taps s
   \<and> sc_associations (scanCore ti key ri seen rs s) = sc_associations s
   \<and> (distinct (sc_roots s) \<longrightarrow> distinct (sc_roots (scanCore ti key ri seen rs s)))"
proof (induction ti key ri seen rs s rule: scanCore.induct)
  case (2 ti key ri seen i rest s)
  show ?case
  proof (cases "FormulaID_Validate i")
    case None
    then have "{j \<in> set (i # rest). id_valid j} = insert i {j \<in> set rest. id_valid j}" by auto
    with 2 None show ?thesis by (simp split del: if_split)
  next
    case (Some e)
    then have "{j \<in> set (i # rest). id_valid j} = {j \<in> set rest. id_valid j}" by auto
    with 2 Some show ?thesis by (simp split del: if_split)
  qed
qed simp

text \<open>A target, and the targets of a request, as the protocol admits them.\<close>

definition external_roots :: "PlatformRequest \<Rightarrow> FormulaIDw list" where
  "external_roots t = (case pq_ExternalRoots t of None \<Rightarrow> [] | Some rs \<Rightarrow> rs)"

definition target_ok :: "PlatformRequest \<Rightarrow> bool" where
  "target_ok t \<longleftrightarrow> Platform_Validate (pq_Platform t) \<and> pq_ExternalRoots t \<noteq> None
     \<and> distinct (external_roots t) \<and> (\<forall>i \<in> set (external_roots t). id_valid i \<and> \<not> FormulaID_IsCore i)
     \<and> distinct (pq_CoreRoots t) \<and> (\<forall>i \<in> set (pq_CoreRoots t). id_valid i \<and> FormulaID_IsCore i)"

definition targets_ok :: "PlatformRequest list \<Rightarrow> bool" where
  "targets_ok ts \<longleftrightarrow> length ts \<le> 2 \<and> (\<forall>t \<in> set ts. target_ok t) \<and> distinct (map pq_Platform ts)
     \<and> (\<exists>t \<in> set ts. external_roots t \<noteq> [])
     \<and> card (\<Union>t \<in> set ts. set (external_roots t) \<union> set (pq_CoreRoots t)) \<le> MaxClosureNodes
     \<and> card (FormulaID_Tap ` (\<Union>t \<in> set ts. set (external_roots t))) \<le> MaxTaps"

lemma scanTarget_errors:
  "sc_errors (scanTarget (ti, t) s) = [] \<longleftrightarrow>
     sc_errors s = [] \<and> target_ok t \<and> Platform_key (pq_Platform t) \<notin> set (sc_platforms s)"
  unfolding scanTarget_def Let_def prod.case
  by (auto simp: scanCore_errors scanExternal_errors scanPlatform_def target_ok_def external_roots_def)

lemma scanTarget_state:
  assumes "target_ok t"
  shows "set (sc_platforms (scanTarget (ti, t) s)) = insert (Platform_key (pq_Platform t)) (set (sc_platforms s))"
    and "set (sc_roots (scanTarget (ti, t) s)) = set (sc_roots s) \<union> (set (external_roots t) \<union> set (pq_CoreRoots t))"
    and "set (sc_taps (scanTarget (ti, t) s)) = set (sc_taps s) \<union> FormulaID_Tap ` set (external_roots t)"
    and "sc_associations (scanTarget (ti, t) s) = sc_associations s + length (external_roots t)"
    and "distinct (sc_roots s) \<Longrightarrow> distinct (sc_roots (scanTarget (ti, t) s))"
    and "distinct (sc_taps s) \<Longrightarrow> distinct (sc_taps (scanTarget (ti, t) s))"
proof -
  have valid: "{i \<in> set (external_roots t). id_valid i} = set (external_roots t)"
    "{i \<in> set (pq_CoreRoots t). id_valid i} = set (pq_CoreRoots t)" and
    p: "Platform_Validate (pq_Platform t)" "pq_ExternalRoots t \<noteq> None"
    using assms by (auto simp: target_ok_def)
  note state = scanTarget_def scanCore_state scanExternal_state scanPlatform_def valid p external_roots_def [symmetric]
  show "set (sc_platforms (scanTarget (ti, t) s)) = insert (Platform_key (pq_Platform t)) (set (sc_platforms s))"
    "set (sc_roots (scanTarget (ti, t) s)) = set (sc_roots s) \<union> (set (external_roots t) \<union> set (pq_CoreRoots t))"
    "set (sc_taps (scanTarget (ti, t) s)) = set (sc_taps s) \<union> FormulaID_Tap ` set (external_roots t)"
    "sc_associations (scanTarget (ti, t) s) = sc_associations s + length (external_roots t)"
    "distinct (sc_roots s) \<Longrightarrow> distinct (sc_roots (scanTarget (ti, t) s))"
    "distinct (sc_taps s) \<Longrightarrow> distinct (sc_taps (scanTarget (ti, t) s))"
    by (simp_all add: state Let_def Un_assoc)
qed

lemma scanTargets_errors:
  "sc_errors (fold scanTarget (enumerate n ts) s) = [] \<longleftrightarrow>
     sc_errors s = [] \<and> (\<forall>t \<in> set ts. target_ok t \<and> Platform_key (pq_Platform t) \<notin> set (sc_platforms s))
     \<and> distinct (map (Platform_key \<circ> pq_Platform) ts)"
proof (induction ts arbitrary: n s)
  case (Cons t ts)
  show ?case
  proof (cases "target_ok t")
    case True
    then show ?thesis by (auto simp: Cons.IH scanTarget_errors scanTarget_state(1) image_iff)
  next
    case False
    then show ?thesis by (simp add: Cons.IH scanTarget_errors)
  qed
qed simp

lemma scanTargets_state:
  assumes "\<forall>t \<in> set ts. target_ok t"
  shows "set (sc_roots (fold scanTarget (enumerate n ts) s)) =
           set (sc_roots s) \<union> (\<Union>t \<in> set ts. set (external_roots t) \<union> set (pq_CoreRoots t))
     \<and> set (sc_taps (fold scanTarget (enumerate n ts) s)) =
           set (sc_taps s) \<union> FormulaID_Tap ` (\<Union>t \<in> set ts. set (external_roots t))
     \<and> sc_associations (fold scanTarget (enumerate n ts) s) =
           sc_associations s + sum_list (map (length \<circ> external_roots) ts)
     \<and> (distinct (sc_roots s) \<longrightarrow> distinct (sc_roots (fold scanTarget (enumerate n ts) s)))
     \<and> (distinct (sc_taps s) \<longrightarrow> distinct (sc_taps (fold scanTarget (enumerate n ts) s)))"
  using assms
proof (induction ts arbitrary: n s)
  case (Cons t ts)
  then have "target_ok t" and "\<forall>t \<in> set ts. target_ok t" by simp_all
  with Cons.IH [of "Suc n" "scanTarget (n, t) s"] show ?case
    by (simp add: scanTarget_state image_Un Un_assoc)
qed simp

lemma Platform_key_inj:
  "Platform_Validate p \<Longrightarrow> Platform_Validate q \<Longrightarrow> Platform_key p = Platform_key q \<longleftrightarrow> p = q"
  by (cases p; cases q) (auto simp: Platform_Validate_def Platform_key_def)

lemma distinct_platform_keys:
  assumes "\<forall>t \<in> set ts. target_ok t"
  shows "distinct (map (Platform_key \<circ> pq_Platform) ts) \<longleftrightarrow> distinct (map pq_Platform ts)"
proof -
  have "inj_on Platform_key (set (map pq_Platform ts))"
    using assms by (auto simp: inj_on_def target_ok_def Platform_key_inj)
  then have "distinct (map Platform_key (map pq_Platform ts)) \<longleftrightarrow> distinct (map pq_Platform ts)"
    by (simp only: distinct_map simp_thms)
  then show ?thesis by (simp add: comp_def)
qed

lemma ValidateRequest_iff:
  "ValidateRequest r = [] \<longleftrightarrow> rq_SchemaVersion r = RequestSchemaVersion
     \<and> (\<exists>ts. normalizedRequestTargets r = Inr ts \<and> targets_ok ts)
     \<and> validateCommit (rq_HomebrewCommit r) \<and> validateSHA256Digest (rq_CoreSnapshotDigest r)"
proof (cases "normalizedRequestTargets r")
  case (Inl e)
  then show ?thesis by (simp add: ValidateRequest_def)
next
  case (Inr ts)
  show ?thesis
  proof (cases "\<forall>t \<in> set ts. target_ok t")
    case False
    then show ?thesis by (auto simp: ValidateRequest_def Inr Let_def scanTargets_errors targets_ok_def)
  next
    case True
    note state = scanTargets_state [OF True, of 0 "\<lparr>sc_platforms = [], sc_roots = [], sc_taps = [], sc_associations = 0,
      sc_errors = errs\<rparr>" for errs]
    have card: "length xs = card (set xs)" if "distinct xs" for xs :: "string list"
      using that by (simp add: distinct_card)
    have "(\<exists>t \<in> set ts. external_roots t \<noteq> []) \<Longrightarrow> ts \<noteq> []" by auto
    then show ?thesis
      unfolding ValidateRequest_def Let_def Inr sum.case
      by (auto simp: scanTargets_errors state card targets_ok_def True distinct_platform_keys [OF True] linorder_not_less
          simp del: distinct_map)
  qed
qed

section \<open>The canonical form\<close>

lemma sort_eq_Nil_iff [simp]: "sort xs = [] \<longleftrightarrow> xs = []"
  by (metis length_0_conv length_sort)

lemma external_roots_sortRoots [simp]: "external_roots (sortRoots t) = sort (external_roots t)"
  by (simp add: external_roots_def sortRoots_def split: option.split)

lemma sortRoots_fields [simp]:
  "pq_Platform (sortRoots t) = pq_Platform t" "pq_CoreRoots (sortRoots t) = sort (pq_CoreRoots t)"
  "pq_ExternalRoots (sortRoots t) = None \<longleftrightarrow> pq_ExternalRoots t = None"
  by (simp_all add: sortRoots_def)

lemma sortRoots_idem [simp]: "sortRoots (sortRoots t) = sortRoots t"
  by (cases t) (simp add: sortRoots_def option.map_comp comp_def sort_key_id_if_sorted)

lemma target_ok_sortRoots [simp]: "target_ok (sortRoots t) = target_ok t"
  by (simp add: target_ok_def)

lemma set_sortTargets [simp]: "set (sortTargets ts) = sortRoots ` set ts"
  by (simp add: sortTargets_def)

lemma length_sortTargets [simp]: "length (sortTargets ts) = length ts"
  by (simp add: sortTargets_def)

lemma platforms_sortTargets: "mset (map pq_Platform (sortTargets ts)) = mset (map pq_Platform ts)"
  by (simp add: sortTargets_def multiset.map_comp comp_def)

lemma sorted_sortTargets: "sorted (map pq_Platform (sortTargets ts))"
  by (simp add: sortTargets_def)

lemma distinct_sortTargets [simp]: "distinct (map pq_Platform (sortTargets ts)) \<longleftrightarrow> distinct (map pq_Platform ts)"
  using platforms_sortTargets [of ts] mset_eq_imp_distinct_iff by blast

lemma targets_ok_sortTargets [simp]: "targets_ok (sortTargets ts) = targets_ok ts"
  unfolding targets_ok_def distinct_sortTargets by simp

lemma sortTargets_idem [simp]: "sortTargets (sortTargets ts) = sortTargets ts"
proof -
  have "map sortRoots (sortTargets ts) = sortTargets ts"
    by (rule map_idI) auto
  then show ?thesis using sorted_sortTargets [of ts] by (simp add: sortTargets_def [of "sortTargets ts"] sort_key_id_if_sorted)
qed

lemma normalized_canonical:
  assumes "normalizedRequestTargets r = Inr ts"
  shows "normalizedRequestTargets (canonicalizeRequest r) = Inr (sortTargets ts)"
  using assms by (auto simp: canonicalizeRequest_def normalizedRequestTargets_def)

lemma ValidateRequest_canonicalize: "ValidateRequest r = [] \<Longrightarrow> ValidateRequest (canonicalizeRequest r) = []"
  unfolding ValidateRequest_iff
  by (elim conjE exE) (simp add: normalized_canonical, simp add: canonicalizeRequest_def)

lemma canonicalizeRequest_idem:
  assumes "ValidateRequest r = []"
  shows "canonicalizeRequest (canonicalizeRequest r) = canonicalizeRequest r"
proof -
  from assms obtain ts where ts: "normalizedRequestTargets r = Inr ts" by (auto simp: ValidateRequest_iff)
  show ?thesis
    unfolding canonicalizeRequest_def [of "canonicalizeRequest r"] normalized_canonical [OF ts]
    by (simp add: canonicalizeRequest_def ts)
qed

lemma CanonicalRequest_Some:
  "CanonicalRequest J r = Some b \<longleftrightarrow> ValidateRequest r = [] \<and> js_Encode J (canonicalizeRequest r) = Some b
     \<and> int (length b) \<le> MaxRequestBytes"
  using ValidateRequest_canonicalize [of r]
  by (auto simp: CanonicalRequest_def Let_def split: option.split)

text \<open>
  What a request asks for: the revisions, and for each platform the set of external and of core
  roots.
\<close>

definition target_meaning :: "PlatformRequest \<Rightarrow> TargetPlatform \<times> FormulaIDw set \<times> FormulaIDw set" where
  "target_meaning t = (pq_Platform t, set (external_roots t), set (pq_CoreRoots t))"

definition request_meaning ::
  "Request \<Rightarrow> string \<times> string \<times> (TargetPlatform \<times> FormulaIDw set \<times> FormulaIDw set) set" where
  "request_meaning r = (rq_HomebrewCommit r, rq_CoreSnapshotDigest r,
     target_meaning ` set (case normalizedRequestTargets r of Inl e \<Rightarrow> [] | Inr ts \<Rightarrow> ts))"

lemma sortRoots_meaning:
  assumes "target_ok t"
  shows "sortRoots t = (case target_meaning t of (p, ext, core) \<Rightarrow>
     \<lparr>pq_Platform = p, pq_ExternalRoots = Some (sorted_list_of_set ext), pq_CoreRoots = sorted_list_of_set core\<rparr>)"
proof -
  have sorted: "sort xs = sorted_list_of_set (set xs)" if "distinct xs" for xs :: "string list"
    using that by (simp add: sorted_list_of_set_sort_remdups distinct_remdups_id)
  from assms have "pq_ExternalRoots t = Some (external_roots t)" "distinct (external_roots t)" "distinct (pq_CoreRoots t)"
    by (auto simp: target_ok_def external_roots_def)
  then show ?thesis by (intro PlatformRequest.equality) (simp_all add: sortRoots_def target_meaning_def sorted)
qed

lemma target_meaning_sortRoots [simp]: "target_meaning (sortRoots t) = target_meaning t"
  by (simp add: target_meaning_def)

lemma sortTargets_eq:
  assumes "targets_ok ts" and "targets_ok ts'"
  shows "sortTargets ts = sortTargets ts' \<longleftrightarrow> target_meaning ` set ts = target_meaning ` set ts'"
proof
  assume "sortTargets ts = sortTargets ts'"
  then have "target_meaning ` set (sortTargets ts) = target_meaning ` set (sortTargets ts')" by simp
  then show "target_meaning ` set ts = target_meaning ` set ts'" by (simp add: image_image)
next
  assume same: "target_meaning ` set ts = target_meaning ` set ts'"
  let ?f = "\<lambda>(p, ext, core). \<lparr>pq_Platform = p, pq_ExternalRoots = Some (sorted_list_of_set ext),
    pq_CoreRoots = sorted_list_of_set core\<rparr> :: PlatformRequest"
  have image: "sortRoots ` set us = ?f ` target_meaning ` set us" if "targets_ok us" for us
    using that by (force simp: targets_ok_def sortRoots_meaning image_image intro!: image_cong)
  have sets: "set (sortTargets ts) = set (sortTargets ts')"
    using assms same by (simp add: image)
  have distinct: "distinct (map pq_Platform (sortTargets us))" if "targets_ok us" for us
    using that by (simp add: targets_ok_def)
  from distinct [OF assms(1)] have inj: "inj_on pq_Platform (set (sortTargets ts))" by (simp only: distinct_map)
  show "sortTargets ts = sortTargets ts'"
  proof (rule map_sorted_distinct_set_unique [of pq_Platform])
    show "inj_on pq_Platform (set (sortTargets ts) \<union> set (sortTargets ts'))"
      using inj by (simp only: sets Un_absorb)
  qed (rule sorted_sortTargets distinct sets assms)+
qed

lemma request_eqI:
  assumes "normalizedRequestTargets r = Inr ts" and "normalizedRequestTargets r' = Inr ts'"
    and "rq_SchemaVersion r = rq_SchemaVersion r'"
  shows "canonicalizeRequest r = canonicalizeRequest r' \<longleftrightarrow>
     rq_HomebrewCommit r = rq_HomebrewCommit r' \<and> rq_CoreSnapshotDigest r = rq_CoreSnapshotDigest r'
     \<and> sortTargets ts = sortTargets ts'"
  using assms by (cases r; cases r') (auto simp: canonicalizeRequest_def)

lemma canonicalizeRequest_eq:
  assumes "ValidateRequest r = []" and "ValidateRequest r' = []"
  shows "canonicalizeRequest r = canonicalizeRequest r' \<longleftrightarrow> request_meaning r = request_meaning r'"
proof -
  from assms obtain ts ts' where ts: "normalizedRequestTargets r = Inr ts" "targets_ok ts"
    and ts': "normalizedRequestTargets r' = Inr ts'" "targets_ok ts'"
    and "rq_SchemaVersion r = rq_SchemaVersion r'"
    by (auto simp: ValidateRequest_iff)
  then show ?thesis by (simp add: request_eqI request_meaning_def sortTargets_eq)
qed

lemma canonical_legacy [simp]:
  "rq_ExternalRoots (canonicalizeRequest r) = []" "rq_Platforms (canonicalizeRequest r) = []"
  by (simp_all add: canonicalizeRequest_def)

lemma json_faithfulD:
  assumes "json_faithful J" and "CanonicalRequest J r = Some b"
  shows "valid_utf8 b" and "\<exists>v. js_Values J b = Some [v] \<and> validateUniqueJSON [v] \<and> js_Unmarshal J v = Some (canonicalizeRequest r)"
  using assms ValidateRequest_canonicalize [of r] by (auto simp: json_faithful_def CanonicalRequest_Some validateUniqueJSON_iff)

lemma DecodeRequest_canonical:
  assumes "json_faithful J" and "CanonicalRequest J r = Some b"
  shows "DecodeRequest J b = Some (canonicalizeRequest r)" and "CanonicalRequest J (canonicalizeRequest r) = Some b"
  using assms(2) json_faithfulD [OF assms]
  by (auto simp: CanonicalRequest_Some DecodeRequest_def canonicalizeRequest_idem ValidateRequest_canonicalize linorder_not_less)

section \<open>Claims\<close>

text \<open>A request of one platform, and a codec that knows its canonical form.\<close>

definition sample_request :: Request where
  "sample_request = \<lparr>rq_SchemaVersion = RequestSchemaVersion, rq_Targets = [],
     rq_HomebrewCommit = replicate 40 CHR ''a'', rq_CoreSnapshotDigest = ''sha256:'' @ replicate 64 CHR ''0'',
     rq_ExternalRoots = [''acme/tools/b'', ''acme/tools/a''], rq_Platforms = [TargetPlatform ''linux'' ''amd64'' []]\<rparr>"

definition sample_codec :: json_codec where
  "sample_codec = \<lparr>js_Encode = (\<lambda>r. if r = canonicalizeRequest sample_request then Some ''{}'' else None),
     js_Values = (\<lambda>d. if d = ''{}'' then Some [JObject []] else None),
     js_Unmarshal = (\<lambda>v. if v = JObject [] then Some (canonicalizeRequest sample_request) else None),
     js_SHA256 = (\<lambda>d. replicate 64 CHR ''0'')\<rparr>"

lemma sample_faithful: "json_faithful sample_codec"
proof -
  have "valid_utf8 ''{}''" by code_simp
  then show ?thesis by (auto simp: json_faithful_def sample_codec_def split: if_splits)
qed

lemma sample_ids:
  "FormulaID_Validate ''acme/tools/a'' = None" "FormulaID_Validate ''acme/tools/b'' = None"
  "FormulaID_Tap ''acme/tools/a'' = ''acme/tools''" "FormulaID_Tap ''acme/tools/b'' = ''acme/tools''"
  by code_simp+

lemma sample_targets: "targets_ok (map (\<lambda>p. \<lparr>pq_Platform = p, pq_ExternalRoots = Some [''acme/tools/b'', ''acme/tools/a''],
    pq_CoreRoots = []\<rparr>) [TargetPlatform ''linux'' ''amd64'' []])"
  by (simp add: targets_ok_def target_ok_def external_roots_def Platform_Validate_def FormulaID_IsCore_def
      sample_ids MaxClosureNodes_def MaxTaps_def CoreTap_def Tap_String_def zeroTap_def)

lemma sample_valid: "ValidateRequest sample_request = []"
proof -
  have "validateCommit (replicate 40 CHR ''a'')" "validateSHA256Digest (''sha256:'' @ replicate 64 CHR ''0'')"
    by (simp_all add: validateCommit_def validateSHA256Digest_def trim_prefix_def lowerHex_def hex_ok_def
        list_all_iff lower_hex_char_def hex_char_def ascii_digit_def less_eq_char_def)
  with sample_targets show ?thesis
    by (simp add: ValidateRequest_iff sample_request_def normalizedRequestTargets_def)
qed

text \<open>
  C21: The canonical bytes of a request decode to its canonical form, and the canonical bytes of what
  was decoded are the same bytes. So a stored request is found canonical when it is read again.
\<close>

theorem request_roundtrip:
  assumes "json_faithful J" and "CanonicalRequest J r = Some data"
  shows "DecodeRequest J data = Some (canonicalizeRequest r)
     \<and> CanonicalRequest J (canonicalizeRequest r) = Some data
     \<and> ValidateRequest (canonicalizeRequest r) = [] \<and> request_meaning (canonicalizeRequest r) = request_meaning r"
proof -
  from assms(2) have r: "ValidateRequest r = []" by (simp add: CanonicalRequest_Some)
  note valid = ValidateRequest_canonicalize [OF r]
  show ?thesis
    using DecodeRequest_canonical [OF assms] valid canonicalizeRequest_eq [OF valid r] canonicalizeRequest_idem [OF r] by simp
qed

theorem request_roundtrip_witness:
  "DecodeRequest sample_codec ''{}'' = Some (canonicalizeRequest sample_request)"
proof -
  have "CanonicalRequest sample_codec sample_request = Some ''{}''"
    by (simp add: CanonicalRequest_Some sample_valid) (simp add: sample_codec_def MaxRequestBytes_def)
  from request_roundtrip [OF sample_faithful this] show ?thesis by (rule conjunct1)
qed

text \<open>
  C20: Two valid requests that can be encoded have the same canonical bytes exactly when they ask for
  the same: the order of targets and roots and the legacy form of a request do not matter, and no
  other difference is lost.
\<close>

theorem request_identity:
  assumes "json_faithful J" and "CanonicalRequest J r = Some b" and "CanonicalRequest J r' = Some b'"
  shows "b = b' \<longleftrightarrow> request_meaning r = request_meaning r'"
proof -
  from assms have valid: "ValidateRequest r = []" "ValidateRequest r' = []"
    and enc: "js_Encode J (canonicalizeRequest r) = Some b" "js_Encode J (canonicalizeRequest r') = Some b'"
    by (simp_all add: CanonicalRequest_Some)
  from json_faithfulD(2) [OF assms(1,2)] json_faithfulD(2) [OF assms(1,3)] enc
  have "b = b' \<longleftrightarrow> canonicalizeRequest r = canonicalizeRequest r'" by auto
  then show ?thesis by (simp add: canonicalizeRequest_eq valid)
qed

theorem request_identity_witness:
  "request_meaning (canonicalizeRequest sample_request) = request_meaning sample_request"
proof -
  have valid: "ValidateRequest (canonicalizeRequest sample_request) = []"
    by (rule ValidateRequest_canonicalize [OF sample_valid])
  have "CanonicalRequest sample_codec sample_request = Some ''{}''"
    "CanonicalRequest sample_codec (canonicalizeRequest sample_request) = Some ''{}''"
    using valid by (simp_all add: CanonicalRequest_Some sample_valid canonicalizeRequest_idem)
      (simp_all add: sample_codec_def MaxRequestBytes_def)
  from request_identity [OF sample_faithful this(2,1)] show ?thesis by simp
qed

end
