(* ===== verification/CatalogPublish.thy ===== *)
theory CatalogPublish
  imports CatalogStore
begin

text \<open>
  Publication in \<open>internal/catalogservice/service.go\<close>: \<open>validateGeneratedSet\<close>, \<open>publishGenerated\<close>,
  \<open>cachedResultFresh\<close> and \<open>gcCatalogsLocked\<close> with \<open>removeCatalogsExcept\<close> of \<open>store.go\<close>, over the files of
  \<open>CatalogStore\<close>. The lemmas follow the sequence numbers, the stored documents and the collection of
  documents through these operations.
\<close>

section \<open>Settings\<close>

record config =
  cf_slots :: nat
  cf_maxPending :: nat
  cf_maxStoredOperations :: nat
  cf_retryAfterSeconds :: int
  cf_catalogSetLifetime :: int
  cf_catalogRefresh :: int
  cf_origin :: string
  cf_catalogService :: ComponentIdentity
  cf_extractor :: ComponentIdentity

section \<open>Generated sets\<close>

definition resultKey :: "TargetPlatform \<Rightarrow> string" where
  "resultKey p = pl_OS p @ ''/'' @ pl_Architecture p"

definition targetRoots :: "PlatformRequest list \<Rightarrow> (string, FormulaIDw list) gomap" where
  "targetRoots targets = fold (\<lambda>t m. mput (resultKey (pq_Platform t)) (sort (pq_CoreRoots t @ external_roots t)) m) targets []"

definition resultRoots :: "'x PlatformResult \<Rightarrow> FormulaIDw list" where
  "resultRoots r = sort (if pr_RequestedMappings r = [] then pr_Requested r else map fst (pr_RequestedMappings r))"

fun validateResults ::
  "'x environment \<Rightarrow> (string, FormulaIDw list) gomap \<Rightarrow> string list \<Rightarrow> 'x PlatformResult list \<Rightarrow> bool" where
  "validateResults E roots seen [] = True"
| "validateResults E roots seen (r # rs) =
     (if ev_CanonicalPlatformResult E r = None then False
      else let key = resultKey (pr_Platform r)
           in case mget roots key of
                None \<Rightarrow> False
              | Some expected \<Rightarrow>
                  if key \<in> set seen then False
                  else if resultRoots r \<noteq> expected then False
                  else validateResults E roots (key # seen) rs)"

text \<open>\<open>time.Unix(1, 0)\<close>.\<close>

definition validationTime :: int where
  "validationTime = 62135596801 * 1000000000"

fun validateCatalogs :: "'x environment \<Rightarrow> TapID list \<Rightarrow> 'x TapCatalog list \<Rightarrow> bool" where
  "validateCatalogs E seen [] = True"
| "validateCatalogs E seen (c # cs) =
     (let tap = ts_ID (tc_Tap c)
      in if TapID_IsCore tap then False
         else if tap \<in> set seen then False
         else if ev_CanonicalTapCatalog E (c\<lparr>tc_PublishedAt := validationTime, tc_Sequence := 1\<rparr>) = None then False
         else validateCatalogs E (tap # seen) cs)"

definition validateGeneratedSet :: "'x environment \<Rightarrow> Request \<Rightarrow> 'x GeneratedSet \<Rightarrow> bool" where
  "validateGeneratedSet E request generated =
     (if gs_Catalogs generated = [] then False
      else if MaxTaps < length (gs_Catalogs generated) then False
      else case NormalizedTargets request of
          Inl e \<Rightarrow> False
        | Inr targets \<Rightarrow>
            if length (gs_Results generated) \<noteq> length targets then False
            else validateResults E (targetRoots targets) [] (gs_Results generated)
                 \<and> validateCatalogs E [] (gs_Catalogs generated))"

section \<open>Publication\<close>

datatype publish_error = InvalidGeneration | PublishFailed

record staged =
  sg_data :: string
  sg_reference :: CatalogReference

definition sourceIdentity :: "'x environment \<Rightarrow> TapSource \<Rightarrow> string option" where
  "sourceIdentity E t = map_option (\<lambda>data. ''sha256:'' @ sha256_of E data) (ev_TapSourceJSON E t)"

definition stageOne ::
  "'x environment \<Rightarrow> config \<Rightarrow> call \<Rightarrow> 'x TapCatalog \<Rightarrow> store \<Rightarrow> (publish_error, staged) result \<times> store" where
  "stageOne E C io c st =
     (let c = c\<lparr>tc_PublishedAt := io_now io\<rparr>
      in case sourceIdentity E (tc_Tap c) of
           None \<Rightarrow> (Inl PublishFailed, st)
         | Some source \<Rightarrow>
             (case nextSequence E io (ts_ID (tc_Tap c)) source st of
                (None, st') \<Rightarrow> (Inl PublishFailed, st')
              | (Some n, st') \<Rightarrow>
                  (case ev_CanonicalTapCatalog E (c\<lparr>tc_Sequence := n\<rparr>) of
                     None \<Rightarrow> (Inl InvalidGeneration, st')
                   | Some canonical \<Rightarrow>
                       let d = sha256_of E canonical
                       in (Inr \<lparr>sg_data = canonical, sg_reference =
                            \<lparr>kr_Tap = tc_Tap c, kr_PublishedAt = io_now io, kr_Sequence = n,
                             kr_URL = cf_origin C @ CatalogDocumentPathPrefix @ d,
                             kr_Size = int (length canonical), kr_SHA256 = ''sha256:'' @ d\<rparr>\<rparr>, st'))))"

fun stageAll ::
  "'x environment \<Rightarrow> config \<Rightarrow> call \<Rightarrow> 'x TapCatalog list \<Rightarrow> store \<Rightarrow> (publish_error, staged list) result \<times> store" where
  "stageAll E C io [] st = (Inr [], st)"
| "stageAll E C io (c # cs) st =
     (case stageOne E C io c st of
        (Inl e, st') \<Rightarrow> (Inl e, st')
      | (Inr s, st') \<Rightarrow>
          (case stageAll E C io cs st' of
             (Inl e, st'') \<Rightarrow> (Inl e, st'')
           | (Inr ss, st'') \<Rightarrow> (Inr (s # ss), st'')))"

fun persistAll :: "'x environment \<Rightarrow> call \<Rightarrow> staged list \<Rightarrow> store \<Rightarrow> bool \<times> store" where
  "persistAll E io [] st = (True, st)"
| "persistAll E io (s # ss) st =
     (case putCatalog E io (sg_data s) st of
        (None, st') \<Rightarrow> (False, st')
      | (Some persisted, st') \<Rightarrow>
          if persisted \<noteq> kr_SHA256 (sg_reference s) then (False, st') else persistAll E io ss st')"

definition signedResult :: "'x environment \<Rightarrow> string \<Rightarrow> 'x CatalogSetPayload \<Rightarrow> CatalogSetResult option" where
  "signedResult E requestDigest payload =
     (case ev_Sign E payload of
        None \<Rightarrow> None
      | Some envelope \<Rightarrow>
          (case ev_CanonicalPayload E payload of
             None \<Rightarrow> None
           | Some raw \<Rightarrow>
               let result = \<lparr>cr_SchemaVersion = ResultSchemaVersion, cr_RequestDigest = requestDigest,
                     cr_PayloadDigest = ''sha256:'' @ sha256_of E raw, cr_JWS = envelope\<rparr>
               in if ValidateCatalogSetResult E result then Some result else None))"

definition setPayload ::
  "config \<Rightarrow> call \<Rightarrow> Request \<Rightarrow> string \<Rightarrow> staged list \<Rightarrow> 'x PlatformResult list \<Rightarrow> 'x CatalogSetPayload" where
  "setPayload C io request requestDigest ss results =
     \<lparr>ps_SchemaVersion = CatalogSetSchemaVersion, ps_RequestDigest = requestDigest,
      ps_CoreSnapshotDigest = rq_CoreSnapshotDigest request, ps_GeneratedAt = io_now io,
      ps_ExpiresAt = io_now io + cf_catalogSetLifetime C, ps_CatalogService = cf_catalogService C,
      ps_Extractor = cf_extractor C, ps_Catalogs = map sg_reference ss, ps_Results = results\<rparr>"

text \<open>The catalogs are sorted by tap; the taps of a validated set are distinct.\<close>

definition publishGenerated ::
  "'x environment \<Rightarrow> config \<Rightarrow> call \<Rightarrow> Request \<Rightarrow> 'x GeneratedSet option \<Rightarrow> store
     \<Rightarrow> (publish_error, CatalogSetResult) result \<times> store" where
  "publishGenerated E C io request generated st =
     (case generated of
        None \<Rightarrow> (Inl InvalidGeneration, st)
      | Some g \<Rightarrow>
          if \<not> validateGeneratedSet E request g then (Inl InvalidGeneration, st)
          else (case RequestDigest (ev_codec E) request of
              None \<Rightarrow> (Inl InvalidGeneration, st)
            | Some encoded \<Rightarrow>
                if io_now io = 0 then (Inl PublishFailed, st)
                else (case stageAll E C io (sort_key (\<lambda>c. ts_ID (tc_Tap c)) (gs_Catalogs g)) st of
                    (Inl e, st') \<Rightarrow> (Inl e, st')
                  | (Inr ss, st') \<Rightarrow>
                      let payload = setPayload C io request (''sha256:'' @ encoded) ss (gs_Results g)
                      in if \<not> ev_ValidateCatalogSetPayload E payload then (Inl InvalidGeneration, st')
                         else (case persistAll E io ss st' of
                             (False, st'') \<Rightarrow> (Inl PublishFailed, st'')
                           | (True, st'') \<Rightarrow>
                               (case signedResult E (''sha256:'' @ encoded) payload of
                                  None \<Rightarrow> (Inl PublishFailed, st'')
                                | Some result \<Rightarrow> (Inr result, st''))))))"

section \<open>The cached result\<close>

fun loadReferenced ::
  "'x environment \<Rightarrow> call \<Rightarrow> store \<Rightarrow> CatalogReference list \<Rightarrow> 'x TapCatalog list option" where
  "loadReferenced E io st [] = Some []"
| "loadReferenced E io st (reference # refs) =
     (if \<not> ev_ReferenceOrigin E reference then None
      else case loadCatalog E io (trim_prefix ''sha256:'' (kr_SHA256 reference)) st of
          Loaded data \<Rightarrow>
            (case DecodeReferencedTapCatalog E reference data of
               None \<Rightarrow> None
             | Some c \<Rightarrow> map_option ((#) c) (loadReferenced E io st refs))
        | _ \<Rightarrow> None)"

definition cachedResultFresh ::
  "'x environment \<Rightarrow> config \<Rightarrow> call \<Rightarrow> Request \<Rightarrow> CatalogSetResult option \<Rightarrow> store \<Rightarrow> bool" where
  "cachedResultFresh E C io request result st =
     (case result of
        None \<Rightarrow> False
      | Some r \<Rightarrow>
          if \<not> ValidateCatalogSetResult E r then False
          else (case RequestDigest (ev_codec E) request of
              None \<Rightarrow> False
            | Some encoded \<Rightarrow>
                if cr_RequestDigest r \<noteq> ''sha256:'' @ encoded then False
                else (case ev_Verify E (cr_JWS r) (''sha256:'' @ encoded) (rq_CoreSnapshotDigest request) (io_now io) of
                    None \<Rightarrow> False
                  | Some payload \<Rightarrow>
                      if ps_CatalogService payload \<noteq> cf_catalogService C \<or> ps_Extractor payload \<noteq> cf_extractor C then False
                      else if \<not> (io_refreshNow io < ps_GeneratedAt payload + cf_catalogRefresh C) then False
                      else if map_option (\<lambda>raw. ''sha256:'' @ sha256_of E raw) (ev_CanonicalPayload E payload)
                              \<noteq> Some (cr_PayloadDigest r) then False
                      else (case loadReferenced E io st (ps_Catalogs payload) of
                          None \<Rightarrow> False
                        | Some catalogs \<Rightarrow>
                            validateGeneratedSet E request \<lparr>gs_Catalogs = catalogs, gs_Results = ps_Results payload\<rparr>))))"

section \<open>Collection of catalog documents\<close>

definition referencedBy :: "'x environment \<Rightarrow> call \<Rightarrow> store \<Rightarrow> string \<Rightarrow> string list" where
  "referencedBy E io st i =
     (case loadOperation E io i st of
        Loaded op \<Rightarrow>
          if op_Status op \<noteq> OperationCompleted then []
          else (case op_Result op of
              None \<Rightarrow> []
            | Some r \<Rightarrow>
                (case loadRequest E io i st of
                   Loaded request \<Rightarrow>
                     (case RequestDigest (ev_codec E) request of
                        None \<Rightarrow> []
                      | Some encoded \<Rightarrow>
                          (case ev_Verify E (cr_JWS r) (''sha256:'' @ encoded) (rq_CoreSnapshotDigest request) (io_verifyNow io i) of
                             None \<Rightarrow> []
                           | Some payload \<Rightarrow> map (trim_prefix ''sha256:'' \<circ> kr_SHA256) (ps_Catalogs payload)))
                 | _ \<Rightarrow> []))
      | _ \<Rightarrow> [])"

fun removeCatalogsLoop ::
  "'x environment \<Rightarrow> call \<Rightarrow> string list \<Rightarrow> int \<Rightarrow> string list \<Rightarrow> store \<Rightarrow> bool \<times> store" where
  "removeCatalogsLoop E io referenced retention [] st = (io_syncCatalogs io, st)"
| "removeCatalogsLoop E io referenced retention (n # names) st =
     (if \<not> validSHA256Hex (ev_unicode E) n then removeCatalogsLoop E io referenced retention names st
      else if n \<in> set referenced then removeCatalogsLoop E io referenced retention names st
      else if \<not> io_catalogInfo io n then (False, st)
      else case mget (st_catalogs st) n of
          None \<Rightarrow> (False, st)
        | Some (data, t) \<Rightarrow>
            if 0 < retention \<and> io_removeNow io - t < retention then removeCatalogsLoop E io referenced retention names st
            else if \<not> io_removeCatalog io n then (False, st)
            else removeCatalogsLoop E io referenced retention names (st\<lparr>st_catalogs := mdel n (st_catalogs st)\<rparr>))"

definition removeCatalogsExcept ::
  "'x environment \<Rightarrow> call \<Rightarrow> string list \<Rightarrow> int \<Rightarrow> store \<Rightarrow> bool \<times> store" where
  "removeCatalogsExcept E io referenced retention st =
     (if \<not> io_listCatalogs io then (False, st)
      else removeCatalogsLoop E io referenced retention (sort (mkeys (st_catalogs st))) st)"

definition gcCatalogs :: "'x environment \<Rightarrow> config \<Rightarrow> call \<Rightarrow> store \<Rightarrow> bool \<times> store" where
  "gcCatalogs E C io st =
     (case listOperations E io st of
        None \<Rightarrow> (False, st)
      | Some ids \<Rightarrow> removeCatalogsExcept E io (concat (map (referencedBy E io st) ids)) (cf_catalogSetLifetime C) st)"

section \<open>Sequence numbers\<close>

lemma write_to_cases:
  "write_to w old new = (ok, st) \<Longrightarrow> (st = new \<and> (ok \<longleftrightarrow> w = Written)) \<or> (st = old \<and> \<not> ok)"
  by (cases w) (auto simp: write_to_def)

text \<open>
  \<open>follows a b\<close>: the state \<open>b\<close> of a tap can come after \<open>a\<close>. The number only grows, and it stays the same
  only for the same source.
\<close>

definition follows :: "64 word \<times> string \<Rightarrow> 64 word \<times> string \<Rightarrow> bool" where
  "follows a b \<longleftrightarrow> fst a < fst b \<or> a = b"

definition sequence_of :: "store \<Rightarrow> TapID \<Rightarrow> (64 word \<times> string) option" where
  "sequence_of st tap = map_option (\<lambda>q. (sq_Sequence q, sq_SourceIdentity q)) (mget (st_sequences st) tap)"

lemma follows_trans: "follows a b \<Longrightarrow> follows b c \<Longrightarrow> follows a c"
  by (auto simp: follows_def)

lemma follows_refl [simp]: "follows a a"
  by (simp add: follows_def)

lemma Suc_word_eq_0: "(n :: 64 word) + 1 = 0 \<longleftrightarrow> n = - 1"
  by (simp add: eq_neg_iff_add_eq_0)

lemma less_Suc_word: "(n :: 64 word) \<noteq> - 1 \<Longrightarrow> n < n + 1"
  by (meson inc_less_eq_triv_imp linorder_not_less)

lemma nextSequence_state:
  assumes "nextSequence E io tap source st = (r, st')"
  shows "sequence_of st' other = (if other = tap then sequence_of st' tap else sequence_of st other)"
    and "sequence_of st tap = Some a \<Longrightarrow> \<exists>b. sequence_of st' tap = Some b \<and> follows a b"
    and "r = Some n \<Longrightarrow> sequence_of st' tap = Some (n, source) \<and> n \<noteq> 0"
    and "st' = st\<lparr>st_sequences := st_sequences st'\<rparr>"
  using assms
  by (auto simp: nextSequence_def Let_def sequence_of_def follows_def less_Suc_word Suc_word_eq_0
      split: if_splits option.splits prod.splits dest!: write_to_cases)

text \<open>The allocations of a history of calls: tap, source and number of each that succeeded.\<close>

fun allocations ::
  "'x environment \<Rightarrow> (call \<times> TapID \<times> string) list \<Rightarrow> store \<Rightarrow> (TapID \<times> 64 word \<times> string) list" where
  "allocations E [] st = []"
| "allocations E ((io, tap, source) # calls) st =
     (case nextSequence E io tap source st of
        (None, st') \<Rightarrow> allocations E calls st'
      | (Some n, st') \<Rightarrow> (tap, n, source) # allocations E calls st')"

lemma allocations_follow:
  assumes "sequence_of st tap = Some a" and "(tap, b) \<in> set (allocations E calls st)"
  shows "follows a b"
  using assms
proof (induction calls arbitrary: st a)
  case (Cons c calls)
  obtain io t source where c: "c = (io, t, source)" by (cases c)
  obtain r st' where ns: "nextSequence E io t source st = (r, st')" by fastforce
  obtain a' where a': "sequence_of st' tap = Some a'" "follows a a'"
  proof (cases "t = tap")
    case True
    with Cons.prems(1) show ?thesis using nextSequence_state(2) [OF ns] that by blast
  next
    case False
    with nextSequence_state(1) [OF ns, of tap] Cons.prems(1) show ?thesis using that [of a] by simp
  qed
  from Cons.prems(2) c ns consider "(tap, b) \<in> set (allocations E calls st')"
    | n where "r = Some n" "tap = t" "b = (n, source)"
    by (cases r) auto
  then show ?case
  proof cases
    case 1
    from Cons.IH [OF a'(1) this] a'(2) show ?thesis by (rule follows_trans [rotated])
  next
    case 2
    with nextSequence_state(3) [OF ns] a' show ?thesis by auto
  qed
qed simp

lemma allocations_sorted:
  "sorted_wrt (\<lambda>(tap, a) (tap', b). tap = tap' \<longrightarrow> follows a b) (allocations E calls st)"
proof (induction calls arbitrary: st)
  case (Cons c calls)
  obtain io t source where c: "c = (io, t, source)" by (cases c)
  obtain r st' where ns: "nextSequence E io t source st = (r, st')" by fastforce
  show ?case
  proof (cases r)
    case (Some n)
    from nextSequence_state(3) [OF ns this] have "sequence_of st' t = Some (n, source)" by simp
    from allocations_follow [OF this] have "follows (n, source) b" if "(t, b) \<in> set (allocations E calls st')" for b
      using that by blast
    with Cons.IH c ns Some show ?thesis by auto
  qed (use Cons.IH c ns in simp)
qed simp

lemma allocations_positive: "(tap, n, source) \<in> set (allocations E calls st) \<Longrightarrow> n \<noteq> 0"
proof (induction calls arbitrary: st)
  case (Cons c calls)
  obtain io t src where c: "c = (io, t, src)" by (cases c)
  obtain r st' where ns: "nextSequence E io t src st = (r, st')" by fastforce
  show ?case using Cons.prems Cons.IH [of st'] nextSequence_state(3) [OF ns] c ns by (cases r) auto
qed simp

section \<open>Publication\<close>

text \<open>The document of catalog \<open>c\<close> stamped with time and number, and the reference to it.\<close>

definition stages :: "'x environment \<Rightarrow> config \<Rightarrow> call \<Rightarrow> 'x TapCatalog \<Rightarrow> staged \<Rightarrow> bool" where
  "stages E C io c s \<longleftrightarrow> ev_CanonicalTapCatalog E (c\<lparr>tc_PublishedAt := io_now io, tc_Sequence := kr_Sequence (sg_reference s)\<rparr>)
       = Some (sg_data s)
     \<and> kr_Tap (sg_reference s) = tc_Tap c \<and> kr_PublishedAt (sg_reference s) = io_now io
     \<and> kr_Size (sg_reference s) = int (length (sg_data s))
     \<and> kr_SHA256 (sg_reference s) = ''sha256:'' @ sha256_of E (sg_data s)
     \<and> kr_URL (sg_reference s) = cf_origin C @ CatalogDocumentPathPrefix @ sha256_of E (sg_data s)"

definition numbered :: "'x environment \<Rightarrow> store \<Rightarrow> CatalogReference \<Rightarrow> bool" where
  "numbered E st k \<longleftrightarrow> (\<exists>source. sourceIdentity E (kr_Tap k) = Some source
     \<and> sequence_of st (ts_ID (kr_Tap k)) = Some (kr_Sequence k, source))"

lemma stageOne_Inr:
  assumes "stageOne E C io c st = (Inr s, st')"
  shows "stages E C io c s" and "numbered E st' (sg_reference s)"
    and "st' = st\<lparr>st_sequences := st_sequences st'\<rparr>"
    and "tap \<noteq> ts_ID (tc_Tap c) \<Longrightarrow> sequence_of st' tap = sequence_of st tap"
proof -
  from assms obtain source n where source: "sourceIdentity E (tc_Tap c) = Some source"
    and ns: "nextSequence E io (ts_ID (tc_Tap c)) source st = (Some n, st')"
    and s: "sg_reference s = \<lparr>kr_Tap = tc_Tap c, kr_PublishedAt = io_now io, kr_Sequence = n,
              kr_URL = cf_origin C @ CatalogDocumentPathPrefix @ sha256_of E (sg_data s),
              kr_Size = int (length (sg_data s)), kr_SHA256 = ''sha256:'' @ sha256_of E (sg_data s)\<rparr>"
    and data: "ev_CanonicalTapCatalog E (c\<lparr>tc_PublishedAt := io_now io, tc_Sequence := n\<rparr>) = Some (sg_data s)"
    by (auto simp: stageOne_def Let_def split: option.splits prod.splits)
  show "stages E C io c s" using s data by (simp add: stages_def)
  show "numbered E st' (sg_reference s)"
    using nextSequence_state(3) [OF ns refl] s source by (simp add: numbered_def)
  show "st' = st\<lparr>st_sequences := st_sequences st'\<rparr>" by (rule nextSequence_state(4) [OF ns])
  show "tap \<noteq> ts_ID (tc_Tap c) \<Longrightarrow> sequence_of st' tap = sequence_of st tap"
    using nextSequence_state(1) [OF ns, of tap] by simp
qed

lemma stageAll_Inr:
  assumes "stageAll E C io cs st = (Inr ss, st')"
  shows "list_all2 (stages E C io) cs ss \<and> st' = st\<lparr>st_sequences := st_sequences st'\<rparr>
     \<and> (\<forall>tap. tap \<notin> (ts_ID \<circ> tc_Tap) ` set cs \<longrightarrow> sequence_of st' tap = sequence_of st tap)
     \<and> (distinct (map (ts_ID \<circ> tc_Tap) cs) \<longrightarrow> (\<forall>s \<in> set ss. numbered E st' (sg_reference s)))"
  using assms
proof (induction cs arbitrary: st ss)
  case (Cons c cs)
  then obtain s st1 ss1 where one: "stageOne E C io c st = (Inr s, st1)" and all: "stageAll E C io cs st1 = (Inr ss1, st')"
    and ss: "ss = s # ss1" by (auto split: prod.splits sum.splits)
  note s = stageOne_Inr [OF one] and rest = Cons.IH [OF all]
  have "numbered E st' (sg_reference s)" if "ts_ID (tc_Tap c) \<notin> (ts_ID \<circ> tc_Tap) ` set cs"
    using s(1,2) rest that by (simp add: numbered_def stages_def)
  moreover from s(3) rest have "st' = st\<lparr>st_sequences := st_sequences st'\<rparr>"
    by (metis store.surjective store.update_convs(4))
  ultimately show ?case using s(1,4) rest ss by auto
qed simp

lemma putCatalog_keeps:
  assumes "putCatalog E io data st = (r, st')"
  shows "mget (st_catalogs st) d = Some x \<Longrightarrow> mget (st_catalogs st') d = Some x"
    and "st' = st\<lparr>st_catalogs := st_catalogs st'\<rparr>"
    and "r = Some k \<Longrightarrow> k = ''sha256:'' @ sha256_of E data \<and> (\<exists>t. mget (st_catalogs st') (sha256_of E data) = Some (data, t))"
  using assms by (auto simp: putCatalog_def Let_def split: option.splits if_splits prod.splits dest!: write_to_cases)

lemma persistAll_True:
  assumes "persistAll E io ss st = (True, st')"
  shows "\<forall>s \<in> set ss. \<exists>t. mget (st_catalogs st') (sha256_of E (sg_data s)) = Some (sg_data s, t)"
    and "mget (st_catalogs st) d = Some x \<Longrightarrow> mget (st_catalogs st') d = Some x"
    and "st' = st\<lparr>st_catalogs := st_catalogs st'\<rparr>"
  using assms
proof (induction ss arbitrary: st d x)
  case (Cons s ss)
  { case 1
    then obtain k st1 where put: "putCatalog E io (sg_data s) st = (Some k, st1)"
      and all: "persistAll E io ss st1 = (True, st')" by (auto split: prod.splits option.splits if_splits)
    from putCatalog_keeps(3) [OF put refl] obtain t
      where "mget (st_catalogs st1) (sha256_of E (sg_data s)) = Some (sg_data s, t)" by blast
    from Cons.IH(2) [OF this all] Cons.IH(1) [OF all] show ?case by auto
  next
    case 2
    then obtain k st1 where put: "putCatalog E io (sg_data s) st = (Some k, st1)"
      and all: "persistAll E io ss st1 = (True, st')" by (auto split: prod.splits option.splits if_splits)
    show ?case by (rule Cons.IH(2) [OF putCatalog_keeps(1) [OF put 2(1)] all])
  next
    case 3
    then obtain k st1 where put: "putCatalog E io (sg_data s) st = (Some k, st1)"
      and all: "persistAll E io ss st1 = (True, st')" by (auto split: prod.splits option.splits if_splits)
    from putCatalog_keeps(2) [OF put] Cons.IH(3) [OF all] show ?case
      by (metis store.surjective store.update_convs(3)) }
qed simp_all

lemma publishGenerated_Inr:
  assumes "publishGenerated E C io request generated st = (Inr result, st')"
  obtains g encoded ss st1 where "generated = Some g" "validateGeneratedSet E request g"
    "RequestDigest (ev_codec E) request = Some encoded"
    "stageAll E C io (sort_key (\<lambda>c. ts_ID (tc_Tap c)) (gs_Catalogs g)) st = (Inr ss, st1)"
    "persistAll E io ss st1 = (True, st')"
    "ev_ValidateCatalogSetPayload E (setPayload C io request (''sha256:'' @ encoded) ss (gs_Results g))"
    "signedResult E (''sha256:'' @ encoded) (setPayload C io request (''sha256:'' @ encoded) ss (gs_Results g)) = Some result"
  using assms by (auto simp: publishGenerated_def Let_def split: option.splits if_splits prod.splits sum.splits bool.splits)

lemma validateCatalogs_distinct:
  "validateCatalogs E seen cs \<Longrightarrow> distinct (map (ts_ID \<circ> tc_Tap) cs) \<and> (ts_ID \<circ> tc_Tap) ` set cs \<inter> set seen = {}"
proof (induction cs arbitrary: seen)
  case (Cons c cs)
  from Cons.prems Cons.IH [of "ts_ID (tc_Tap c) # seen"] show ?case by (auto simp: Let_def split: if_splits)
qed simp

lemma validateGeneratedSet_taps:
  "validateGeneratedSet E request g \<Longrightarrow> distinct (map (ts_ID \<circ> tc_Tap) (gs_Catalogs g))"
  by (auto simp: validateGeneratedSet_def validateCatalogs_distinct split: if_splits sum.splits)

section \<open>Collection\<close>

text \<open>What the collection may remove: an old document that no operation refers to.\<close>

definition collectable :: "'x environment \<Rightarrow> call \<Rightarrow> string list \<Rightarrow> int \<Rightarrow> store \<Rightarrow> string \<Rightarrow> bool" where
  "collectable E io referenced retention st n \<longleftrightarrow> validSHA256Hex (ev_unicode E) n \<and> n \<notin> set referenced
     \<and> (case mget (st_catalogs st) n of None \<Rightarrow> False
        | Some (data, t) \<Rightarrow> \<not> (0 < retention \<and> io_removeNow io - t < retention))"

lemma removeCatalogsLoop_keeps:
  assumes "removeCatalogsLoop E io referenced retention names st = (ok, st')"
  shows "st' = st\<lparr>st_catalogs := st_catalogs st'\<rparr>
     \<and> (mget (st_catalogs st') n = mget (st_catalogs st) n
        \<or> mget (st_catalogs st') n = None \<and> collectable E io referenced retention st n)"
  using assms
proof (induction names arbitrary: st)
  case (Cons m names)
  show ?case
  proof (cases "collectable E io referenced retention st m \<and> io_catalogInfo io m \<and> io_removeCatalog io m")
    case True
    define st1 where "st1 = st\<lparr>st_catalogs := mdel m (st_catalogs st)\<rparr>"
    from True Cons.prems have "removeCatalogsLoop E io referenced retention names st1 = (ok, st')"
      by (auto simp: collectable_def st1_def split: option.splits)
    note IH = Cons.IH [OF this]
    have "collectable E io referenced retention st1 n \<Longrightarrow> collectable E io referenced retention st n"
      by (auto simp: collectable_def st1_def split: if_splits)
    with IH True show ?thesis
      by (cases "n = m") (auto simp: st1_def)
  next
    case False
    with Cons.prems have "st' = st \<or> removeCatalogsLoop E io referenced retention names st = (ok, st')"
      by (auto simp: collectable_def split: if_splits option.splits)
    with Cons.IH show ?thesis by auto
  qed
qed simp

lemma keys_mdel: "fst ` set (mdel k m) = fst ` set m - {k}"
proof -
  have "set (mkeys (mdel k m)) = set (mkeys m) - {k}" by (simp only: delete_keys) auto
  then show ?thesis by simp
qed

lemma removeCatalogsLoop_complete:
  assumes "removeCatalogsLoop E io referenced retention names st = (ok, st')"
    and "\<forall>n. io_catalogInfo io n \<and> io_removeCatalog io n"
    and "set names \<subseteq> set (mkeys (st_catalogs st))" and "distinct names"
    and "n \<in> set names" and "collectable E io referenced retention st n"
  shows "mget (st_catalogs st') n = None"
  using assms
proof (induction names arbitrary: st)
  case (Cons m names)
  define st1 where "st1 = (if collectable E io referenced retention st m
    then st\<lparr>st_catalogs := mdel m (st_catalogs st)\<rparr> else st)"
  from Cons.prems(3) have "m \<in> set (mkeys (st_catalogs st))" by simp
  from in_keys_mget [OF this] obtain data t where m: "mget (st_catalogs st) m = Some (data, t)" by auto
  then have step: "removeCatalogsLoop E io referenced retention names st1 = (ok, st')"
    using Cons.prems(1,2) by (auto simp: collectable_def st1_def split: if_splits)
  show ?case
  proof (cases "n = m")
    case True
    then have "mget (st_catalogs st1) n = None" using Cons.prems(6) by (simp add: st1_def)
    with removeCatalogsLoop_keeps [OF step, of n] show ?thesis by auto
  next
    case False
    have "set names \<subseteq> set (mkeys (st_catalogs st1))"
      using Cons.prems(3,4) by (auto simp: st1_def keys_mdel)
    moreover have "collectable E io referenced retention st1 n"
      using Cons.prems(6) False by (simp add: st1_def collectable_def)
    ultimately show ?thesis using Cons.IH [OF step Cons.prems(2)] Cons.prems(4,5) False by simp
  qed
qed simp

lemma gcCatalogs_cases:
  assumes "gcCatalogs E C io st = (ok, st')"
  obtains "st' = st"
  | ids ok' where "listOperations E io st = Some ids"
      "removeCatalogsLoop E io (concat (map (referencedBy E io st) ids)) (cf_catalogSetLifetime C)
         (sort (mkeys (st_catalogs st))) st = (ok', st')"
  using assms by (auto simp: gcCatalogs_def removeCatalogsExcept_def split: option.splits if_splits)

lemma listed_operation:
  "loadOperation E io i st = Loaded op \<Longrightarrow> listOperations E io st = Some ids \<Longrightarrow> i \<in> set ids"
  by (auto simp: loadOperation_def listOperations_def split: if_splits option.splits dest!: mget_Some_in_keys)

text \<open>
  The specification of what is in use, read off the files: the operation \<open>i\<close> is completed, and its signed
  set verifies now for the stored request.
\<close>

definition live_set :: "'x environment \<Rightarrow> int \<Rightarrow> store \<Rightarrow> string \<Rightarrow> 'x CatalogSetPayload \<Rightarrow> bool" where
  "live_set E now st i payload \<longleftrightarrow> (\<exists>op t r data request encoded. mget (st_operations st) i = Some (op, t)
     \<and> op_Status op = OperationCompleted \<and> op_Result op = Some r
     \<and> mget (st_requests st) i = Some data \<and> DecodeRequest (ev_codec E) data = Some request
     \<and> RequestDigest (ev_codec E) request = Some encoded
     \<and> ev_Verify E (cr_JWS r) (''sha256:'' @ encoded) (rq_CoreSnapshotDigest request) now = Some payload)"

definition refers_to :: "'x CatalogSetPayload \<Rightarrow> string \<Rightarrow> bool" where
  "refers_to payload n \<longleftrightarrow> (\<exists>k \<in> set (ps_Catalogs payload). trim_prefix ''sha256:'' (kr_SHA256 k) = n)"

lemma loadOperation_found:
  "mget (st_operations st) i = Some (op, t) \<Longrightarrow> loadOperation E io i st \<noteq> LoadError \<Longrightarrow> loadOperation E io i st = Loaded op"
  by (auto simp: loadOperation_def split: if_splits)

lemma loadRequest_found:
  "mget (st_requests st) i = Some data \<Longrightarrow> DecodeRequest (ev_codec E) data = Some request \<Longrightarrow> loadRequest E io i st \<noteq> LoadError
     \<Longrightarrow> loadRequest E io i st = Loaded request"
  by (auto simp: loadRequest_def split: if_splits)

lemma live_set_referencedBy:
  assumes "live_set E (io_verifyNow io i) st i payload" and "loadOperation E io i st \<noteq> LoadError" and "loadRequest E io i st \<noteq> LoadError"
  shows "n \<in> set (referencedBy E io st i) \<longleftrightarrow> refers_to payload n"
proof -
  from assms(1) obtain op t r data request encoded where op: "mget (st_operations st) i = Some (op, t)"
    and live: "op_Status op = OperationCompleted" "op_Result op = Some r" "RequestDigest (ev_codec E) request = Some encoded"
      "ev_Verify E (cr_JWS r) (''sha256:'' @ encoded) (rq_CoreSnapshotDigest request) (io_verifyNow io i) = Some payload"
    and request: "mget (st_requests st) i = Some data" "DecodeRequest (ev_codec E) data = Some request"
    by (auto simp: live_set_def)
  from loadOperation_found [OF op assms(2)] loadRequest_found [OF request assms(3)] live
  have "referencedBy E io st i = map (trim_prefix ''sha256:'' \<circ> kr_SHA256) (ps_Catalogs payload)" by (simp add: referencedBy_def)
  then show ?thesis by (auto simp: refers_to_def)
qed

lemma referencedBy_cases:
  assumes "n \<in> set (referencedBy E io st i)"
  obtains op r request encoded payload where "loadOperation E io i st = Loaded op" "op_Status op = OperationCompleted"
    "op_Result op = Some r" "loadRequest E io i st = Loaded request" "RequestDigest (ev_codec E) request = Some encoded"
    "ev_Verify E (cr_JWS r) (''sha256:'' @ encoded) (rq_CoreSnapshotDigest request) (io_verifyNow io i) = Some payload"
    "refers_to payload n"
proof (cases "loadOperation E io i st")
  case op: (Loaded op)
  with assms have status: "op_Status op = OperationCompleted" "op_Result op \<noteq> None"
    by (cases "op_Status op = OperationCompleted"; cases "op_Result op"; simp add: referencedBy_def)+
  then obtain r where r: "op_Result op = Some r" by blast
  show thesis
  proof (cases "loadRequest E io i st")
    case request: (Loaded request)
    from assms op status r request obtain encoded where encoded: "RequestDigest (ev_codec E) request = Some encoded"
      by (cases "RequestDigest (ev_codec E) request") (simp_all add: referencedBy_def)
    from assms op status r request encoded obtain payload
      where payload: "ev_Verify E (cr_JWS r) (''sha256:'' @ encoded) (rq_CoreSnapshotDigest request) (io_verifyNow io i) = Some payload"
      by (cases "ev_Verify E (cr_JWS r) (''sha256:'' @ encoded) (rq_CoreSnapshotDigest request) (io_verifyNow io i)")
        (simp_all add: referencedBy_def)
    with assms op status r request encoded have "refers_to payload n"
      by (auto simp: referencedBy_def refers_to_def)
    with op status(1) r request encoded payload show thesis by (rule that)
  qed (use assms op status r in \<open>simp_all add: referencedBy_def\<close>)
qed (use assms in \<open>simp_all add: referencedBy_def\<close>)

lemma referencedBy_live_set:
  assumes "n \<in> set (referencedBy E io st i)"
  shows "\<exists>payload. live_set E (io_verifyNow io i) st i payload \<and> refers_to payload n"
proof -
  from assms obtain op r request encoded payload where op: "loadOperation E io i st = Loaded op" "op_Status op = OperationCompleted"
      "op_Result op = Some r" and request: "loadRequest E io i st = Loaded request" "RequestDigest (ev_codec E) request = Some encoded"
    and payload: "ev_Verify E (cr_JWS r) (''sha256:'' @ encoded) (rq_CoreSnapshotDigest request) (io_verifyNow io i) = Some payload"
      "refers_to payload n"
    by (rule referencedBy_cases)
  from op(1) obtain t where "mget (st_operations st) i = Some (op, t)"
    by (auto simp: loadOperation_def split: if_splits option.splits)
  moreover from request(1) obtain data where "mget (st_requests st) i = Some data" "DecodeRequest (ev_codec E) data = Some request"
    by (auto simp: loadRequest_def split: if_splits option.splits)
  ultimately have "live_set E (io_verifyNow io i) st i payload" using op request payload(1) by (auto simp: live_set_def)
  with payload(2) show ?thesis by blast
qed

lemma loadReferenced_cong:
  assumes "\<forall>k \<in> set refs. mget (st_catalogs st') (trim_prefix ''sha256:'' (kr_SHA256 k))
     = mget (st_catalogs st) (trim_prefix ''sha256:'' (kr_SHA256 k))"
  shows "loadReferenced E io st' refs = loadReferenced E io st refs"
  using assms
proof (induction refs)
  case (Cons k refs)
  then have "loadCatalog E io (trim_prefix ''sha256:'' (kr_SHA256 k)) st' = loadCatalog E io (trim_prefix ''sha256:'' (kr_SHA256 k)) st"
    by (simp add: loadCatalog_def)
  with Cons show ?case by (simp split: loaded.split option.split)
qed simp

lemma cachedResultFresh_cong:
  assumes "loadOperation E io i st = Loaded op" and "op_Status op = OperationCompleted"
    and "loadRequest E io i st = Loaded request"
    and kept: "\<And>n. n \<in> set (referencedBy E io st i) \<Longrightarrow> mget (st_catalogs st') n = mget (st_catalogs st) n"
    and now: "io_now io' = io_verifyNow io i"
    and fresh: "cachedResultFresh E C io' request (op_Result op) st"
  shows "cachedResultFresh E C io' request (op_Result op) st'"
proof -
  from fresh obtain r encoded payload where r: "op_Result op = Some r"
    and encoded: "RequestDigest (ev_codec E) request = Some encoded"
    and payload: "ev_Verify E (cr_JWS r) (''sha256:'' @ encoded) (rq_CoreSnapshotDigest request) (io_verifyNow io i) = Some payload"
    using now by (auto simp: cachedResultFresh_def split: option.splits if_splits)
  have "referencedBy E io st i = map (trim_prefix ''sha256:'' \<circ> kr_SHA256) (ps_Catalogs payload)"
    using assms(1-3) r encoded payload by (simp add: referencedBy_def)
  with kept have "loadReferenced E io' st' (ps_Catalogs payload) = loadReferenced E io' st (ps_Catalogs payload)"
    by (intro loadReferenced_cong) simp
  with fresh now r encoded payload show ?thesis by (simp add: cachedResultFresh_def split: if_splits)
qed

section \<open>Claims\<close>

text \<open>An environment with one published tap, and a call on a working file system.\<close>

definition sample_source :: TapSource where
  "sample_source = \<lparr>ts_ID = ''acme/tools'', ts_Repository = ''https://github.com/acme/homebrew-tools'',
     ts_Commit = replicate 40 CHR ''c'', ts_TreeDigest = ''t'', ts_ArchiveDigest = ''a''\<rparr>"

definition sample_catalog :: "unit TapCatalog" where
  "sample_catalog = \<lparr>tc_Tap = sample_source, tc_PublishedAt = 0, tc_Sequence = 0, tc_Content = ()\<rparr>"

definition sample_hex :: string where
  "sample_hex = replicate 64 CHR ''0''"

definition sample_env :: "unit environment" where
  "sample_env = \<lparr>ev_unicode = ascii_tables, ev_codec = sample_codec, ev_ParseMediaType = (\<lambda>_. Some (''application/json'', [])),
     ev_validDigest = (\<lambda>_. True), ev_TapSourceJSON = (\<lambda>_. Some ''{}''),
     ev_DecodeTapCatalog = (\<lambda>_. Some (sample_catalog\<lparr>tc_PublishedAt := 7, tc_Sequence := 1\<rparr>)),
     ev_CanonicalTapCatalog = (\<lambda>_. Some ''{}''), ev_CanonicalPlatformResult = (\<lambda>_. Some ''{}''),
     ev_ValidateCatalogReference = (\<lambda>_. True), ev_ReferenceOrigin = (\<lambda>_. True),
     ev_ValidateCatalogSetPayload = (\<lambda>_. True), ev_CanonicalPayload = (\<lambda>_. Some ''{}''),
     ev_Sign = (\<lambda>_. Some ''{}''), ev_Verify = (\<lambda>_ _ _ _. None), ev_JWSShape = (\<lambda>_. True)\<rparr>"

definition sample_call :: call where
  "sample_call = \<lparr>io_now = 7, io_refreshNow = 7, io_verifyNow = (\<lambda>_. 7), io_removeNow = 7, io_time = 7,
     io_load = (\<lambda>_. True), io_loadRequest = (\<lambda>_. True), io_list = True,
     io_infos = True, io_put = Written, io_save = Written, io_remove = (\<lambda>_. Removed), io_sort = sort_key snd,
     io_loadCatalog = (\<lambda>_. True), io_putCatalog = (\<lambda>_. Written), io_listCatalogs = True, io_catalogInfo = (\<lambda>_. True),
     io_removeCatalog = (\<lambda>_. True), io_syncCatalogs = True, io_sequenceOwner = (\<lambda>_. True),
     io_loadSequence = (\<lambda>_. True), io_saveSequence = (\<lambda>_. Written)\<rparr>"

definition empty_store :: store where
  "empty_store = \<lparr>st_operations = [], st_requests = [], st_catalogs = [], st_sequences = []\<rparr>"

definition sample_config :: config where
  "sample_config = \<lparr>cf_slots = 1, cf_maxPending = 1, cf_maxStoredOperations = 4, cf_retryAfterSeconds = 2,
     cf_catalogSetLifetime = 100, cf_catalogRefresh = 10, cf_origin = ''https://catalog.example'',
     cf_catalogService = \<lparr>ci_Name = ''s'', ci_Version = ''1'', ci_Digest = ''d''\<rparr>,
     cf_extractor = \<lparr>ci_Name = ''x'', ci_Version = ''1'', ci_Digest = ''d''\<rparr>\<rparr>"

definition sample_generated :: "unit GeneratedSet" where
  "sample_generated = \<lparr>gs_Catalogs = [sample_catalog], gs_Results = [\<lparr>pr_Platform = TargetPlatform ''linux'' ''amd64'' [],
     pr_Requested = [''acme/tools/a'', ''acme/tools/b''], pr_RequestedMappings = [], pr_Content = ()\<rparr>]\<rparr>"

lemma sample_tap: "TapID_Validate ''acme/tools'' = None" "\<not> TapID_IsCore ''acme/tools''"
  by code_simp+

lemma sample_digest: "validateSHA256Digest (''sha256:'' @ replicate 64 CHR ''0'')" "validSHA256Hex ascii_tables (replicate 64 CHR ''0'')"
proof -
  have "to_lower ascii_tables (replicate 64 CHR ''0'') = replicate 64 CHR ''0''"
    by (rule to_lower_id(1)) (simp_all add: ascii_conform_def)
  then show "validSHA256Hex ascii_tables (replicate 64 CHR ''0'')"
    by (simp add: validSHA256Hex_def hex_ok_def list_all_iff hex_char_def ascii_digit_def less_eq_char_def)
  show "validateSHA256Digest (''sha256:'' @ replicate 64 CHR ''0'')"
    by (simp add: validateSHA256Digest_def trim_prefix_def lowerHex_def hex_ok_def
        list_all_iff lower_hex_char_def hex_char_def ascii_digit_def less_eq_char_def)
qed

lemma sample_request_digest: "RequestDigest sample_codec sample_request = Some (replicate 64 CHR ''0'')"
  by (simp add: RequestDigest_def CanonicalRequest_def sample_valid ValidateRequest_canonicalize Let_def)
    (simp add: sample_codec_def MaxRequestBytes_def)

lemma sample_roots: "sort [''acme/tools/b'', ''acme/tools/a''] = [''acme/tools/a'', ''acme/tools/b'']"
  by code_simp

lemma sample_set_ok:
  assumes "NormalizedTargets request = NormalizedTargets sample_request" and "tc_Tap c = sample_source"
    and "ev_CanonicalTapCatalog E = (\<lambda>_. Some ''{}'')" and "ev_CanonicalPlatformResult E = (\<lambda>_. Some ''{}'')"
  shows "validateGeneratedSet E request \<lparr>gs_Catalogs = [c], gs_Results = gs_Results sample_generated\<rparr>"
  using assms
  by (simp add: validateGeneratedSet_def NormalizedTargets_def sample_valid sample_generated_def)
    (simp add: sample_request_def normalizedRequestTargets_def MaxTaps_def sortTargets_def sortRoots_def targetRoots_def
      external_roots_def resultKey_def resultRoots_def sample_source_def Let_def sample_tap sample_roots)

lemma sample_generated_ok: "validateGeneratedSet sample_env sample_request sample_generated"
  using sample_set_ok [of sample_request sample_catalog sample_env]
  by (simp add: sample_env_def sample_generated_def sample_catalog_def)

text \<open>
  C27: The sequence numbers a tap is given over any history of publications, failed writes included,
  are positive and never decrease, and they identify what was published: equal numbers mean the same
  source. So the 64-bit counter never wraps around.
\<close>

theorem sequence_numbers_identify_sources:
  assumes "i < j" and "j < length (allocations E calls st)"
    and "allocations E calls st ! i = (tap, n, source)" and "allocations E calls st ! j = (tap, m, source')"
  shows "0 < n \<and> n \<le> m \<and> (n = m \<longrightarrow> source = source')"
proof -
  have "follows (n, source) (m, source')"
    using sorted_wrt_nth_less [OF allocations_sorted assms(1,2)] assms(3,4) by simp
  moreover from assms have "(tap, n, source) \<in> set (allocations E calls st)"
    using nth_mem [of i "allocations E calls st"] by simp
  from allocations_positive [OF this] have "0 < n" by (simp add: word_neq_0_conv)
  ultimately show ?thesis by (auto simp: follows_def)
qed

theorem sequence_numbers_identify_sources_witness:
  "allocations sample_env [(sample_call, ''acme/tools'', ''a''), (sample_call, ''acme/tools'', ''b'')] empty_store
     = [(''acme/tools'', 1, ''a''), (''acme/tools'', 2, ''b'')] \<and> (0 :: 64 word) < 1"
proof -
  let ?calls = "[(sample_call, ''acme/tools'', ''a''), (sample_call, ''acme/tools'', ''b'')]"
  have run: "allocations sample_env ?calls empty_store = [(''acme/tools'', 1, ''a''), (''acme/tools'', 2, ''b'')]"
    by (simp add: sample_env_def sample_call_def empty_store_def nextSequence_def write_to_def sample_tap Let_def)
  show ?thesis
    using sequence_numbers_identify_sources [of 0 1 sample_env ?calls empty_store "''acme/tools''" 1 "''a''" 2 "''b''"]
    unfolding run by simp
qed

text \<open>
  C28: A publication that succeeds has signed a payload for exactly the generated taps, in order, and
  each of its references is true: the referenced document is stored under its digest with the size
  and the bytes of that catalog, stamped with the publication time and the number recorded for its
  source. Operations, requests and the documents stored before are untouched.
\<close>

theorem publication_references_stored_documents:
  assumes "publishGenerated E C io request generated st = (Inr result, st')"
  shows "\<exists>g payload. generated = Some g \<and> validateGeneratedSet E request g
     \<and> ev_Sign E payload = Some (cr_JWS result)
     \<and> map kr_Tap (ps_Catalogs payload) = map tc_Tap (sort_key (\<lambda>c. ts_ID (tc_Tap c)) (gs_Catalogs g))
     \<and> ps_ExpiresAt payload = ps_GeneratedAt payload + cf_catalogSetLifetime C
     \<and> (\<forall>k \<in> set (ps_Catalogs payload). numbered E st' k
          \<and> (\<exists>c data t. c \<in> set (gs_Catalogs g) \<and> tc_Tap c = kr_Tap k
               \<and> ev_CanonicalTapCatalog E (c\<lparr>tc_PublishedAt := ps_GeneratedAt payload, tc_Sequence := kr_Sequence k\<rparr>) = Some data
               \<and> kr_PublishedAt k = io_now io \<and> kr_URL k = cf_origin C @ CatalogDocumentPathPrefix @ sha256_of E data
               \<and> kr_SHA256 k = ''sha256:'' @ sha256_of E data \<and> kr_Size k = int (length data)
               \<and> mget (st_catalogs st') (sha256_of E data) = Some (data, t)))
     \<and> st_operations st' = st_operations st \<and> st_requests st' = st_requests st
     \<and> (\<forall>d x. mget (st_catalogs st) d = Some x \<longrightarrow> mget (st_catalogs st') d = Some x)"
proof -
  from assms obtain g encoded ss st1 where g: "generated = Some g" "validateGeneratedSet E request g"
    and stage: "stageAll E C io (sort_key (\<lambda>c. ts_ID (tc_Tap c)) (gs_Catalogs g)) st = (Inr ss, st1)"
    and persist: "persistAll E io ss st1 = (True, st')"
    and signed: "signedResult E (''sha256:'' @ encoded) (setPayload C io request (''sha256:'' @ encoded) ss (gs_Results g)) = Some result"
    by (rule publishGenerated_Inr)
  let ?cs = "sort_key (\<lambda>c. ts_ID (tc_Tap c)) (gs_Catalogs g)"
  let ?payload = "setPayload C io request (''sha256:'' @ encoded) ss (gs_Results g)"
  have "mset (map (ts_ID \<circ> tc_Tap) ?cs) = mset (map (ts_ID \<circ> tc_Tap) (gs_Catalogs g))" by simp
  with validateGeneratedSet_taps [OF g(2)] have "distinct (map (ts_ID \<circ> tc_Tap) ?cs)"
    using mset_eq_imp_distinct_iff by blast
  with stageAll_Inr [OF stage] have ss: "list_all2 (stages E C io) ?cs ss" "\<forall>s \<in> set ss. numbered E st1 (sg_reference s)"
    and st1: "st1 = st\<lparr>st_sequences := st_sequences st1\<rparr>" by blast+
  note kept = persistAll_True [OF persist]
  have st': "st_operations st' = st_operations st" "st_requests st' = st_requests st" "st_catalogs st1 = st_catalogs st"
    "st_sequences st' = st_sequences st1"
    by (subst kept(3), subst st1, simp)+ (subst st1, simp, subst kept(3), simp)
  have taps: "map kr_Tap (ps_Catalogs ?payload) = map tc_Tap ?cs"
    using ss(1) by (auto simp: setPayload_def stages_def list_all2_conv_all_nth intro: nth_equalityI)
  have refs: "numbered E st' k \<and> (\<exists>c data t. c \<in> set (gs_Catalogs g) \<and> tc_Tap c = kr_Tap k
      \<and> ev_CanonicalTapCatalog E (c\<lparr>tc_PublishedAt := io_now io, tc_Sequence := kr_Sequence k\<rparr>) = Some data
      \<and> kr_PublishedAt k = io_now io \<and> kr_URL k = cf_origin C @ CatalogDocumentPathPrefix @ sha256_of E data
      \<and> kr_SHA256 k = ''sha256:'' @ sha256_of E data \<and> kr_Size k = int (length data)
      \<and> mget (st_catalogs st') (sha256_of E data) = Some (data, t))" if "k \<in> sg_reference ` set ss" for k
  proof -
    from that obtain s where s: "s \<in> set ss" "k = sg_reference s" by blast
    from s(1) obtain i where i: "i < length ss" "s = ss ! i" by (auto simp: in_set_conv_nth)
    then have c: "?cs ! i \<in> set ?cs" "stages E C io (?cs ! i) s"
      using list_all2_lengthD [OF ss(1)] list_all2_nthD2 [OF ss(1)] by (simp_all del: set_sort length_sort)
    from kept(1) s(1) obtain t where "mget (st_catalogs st') (sha256_of E (sg_data s)) = Some (sg_data s, t)" by blast
    with c s(2) have "\<exists>c data t. c \<in> set (gs_Catalogs g) \<and> tc_Tap c = kr_Tap k
      \<and> ev_CanonicalTapCatalog E (c\<lparr>tc_PublishedAt := io_now io, tc_Sequence := kr_Sequence k\<rparr>) = Some data
      \<and> kr_PublishedAt k = io_now io \<and> kr_URL k = cf_origin C @ CatalogDocumentPathPrefix @ sha256_of E data
      \<and> kr_SHA256 k = ''sha256:'' @ sha256_of E data \<and> kr_Size k = int (length data)
      \<and> mget (st_catalogs st') (sha256_of E data) = Some (data, t)"
      by (intro exI [of _ "?cs ! i"] exI [of _ "sg_data s"] exI [of _ t]) (simp add: stages_def)
    with ss(2) s st'(4) show ?thesis by (simp add: numbered_def sequence_of_def)
  qed
  have sign: "ev_Sign E ?payload = Some (cr_JWS result)"
    using signed by (auto simp: signedResult_def Let_def split: option.splits if_splits)
  show ?thesis
    using g sign taps refs st' kept(2)
    by (intro exI [of _ g] exI [of _ ?payload] conjI) (simp_all add: setPayload_def)
qed

lemma sample_publishes:
  "\<exists>result st. publishGenerated sample_env sample_config sample_call sample_request (Some sample_generated) empty_store = (Inr result, st)"
proof -
  have env: "ev_codec sample_env = sample_codec" "gs_Catalogs sample_generated = [sample_catalog]" "io_now sample_call \<noteq> 0"
    "ev_ValidateCatalogSetPayload sample_env p" for p
    by (simp_all add: sample_env_def sample_generated_def sample_call_def)
  have sha: "js_SHA256 sample_codec d = replicate 64 CHR ''0''" for d by (simp add: sample_codec_def)
  obtain s st where stage: "stageAll sample_env sample_config sample_call [sample_catalog] empty_store = (Inr [s], st)"
    and s: "kr_SHA256 (sg_reference s) = ''sha256:'' @ replicate 64 CHR ''0''" "sg_data s = ''{}''" "st_catalogs st = []"
    by (simp add: stageOne_def nextSequence_def sourceIdentity_def sample_env_def sample_call_def sample_catalog_def
        sample_source_def sample_tap write_to_def empty_store_def sha Let_def)
  have persist: "\<exists>st'. persistAll sample_env sample_call [s] st = (True, st')"
    using s by (simp add: putCatalog_def sample_env_def sample_call_def write_to_def sha Let_def)
  have "signedResult sample_env (''sha256:'' @ replicate 64 CHR ''0'') p \<noteq> None" for p
    using sample_digest(1)
    by (simp add: signedResult_def ValidateCatalogSetResult_def sample_env_def sha MaxJWSBytes_def Let_def del: append_Cons)
  with persist stage show ?thesis
    by (auto simp: publishGenerated_def sample_generated_ok env sample_request_digest Let_def split: option.splits)
qed

theorem publication_references_stored_documents_witness:
  "\<exists>result st payload. publishGenerated sample_env sample_config sample_call sample_request (Some sample_generated) empty_store
       = (Inr result, st)
     \<and> ev_Sign sample_env payload = Some (cr_JWS result) \<and> map kr_Tap (ps_Catalogs payload) = [sample_source]"
proof -
  obtain result st where run: "publishGenerated sample_env sample_config sample_call sample_request (Some sample_generated) empty_store
       = (Inr result, st)" using sample_publishes by blast
  from publication_references_stored_documents [OF run] obtain g payload where g: "Some sample_generated = Some g"
    and payload: "ev_Sign sample_env payload = Some (cr_JWS result)"
      "map kr_Tap (ps_Catalogs payload) = map tc_Tap (sort_key (\<lambda>c. ts_ID (tc_Tap c)) (gs_Catalogs g))"
    by (elim exE conjE) (rule that)
  from g have "gs_Catalogs g = [sample_catalog]" by (auto simp: sample_generated_def)
  with payload(2) have "map kr_Tap (ps_Catalogs payload) = [sample_source]" by (simp add: sample_catalog_def)
  with run payload(1) show ?thesis by (intro exI conjI)
qed

text \<open>
  C29: The collection never makes a cached result stale: a completed operation whose stored result is
  fresh at the time at which the collection verifies it is found with the same request and result after
  the collection, and the result is still fresh at that time, since the documents its signed set
  refers to are kept.
\<close>

theorem collection_keeps_cached_results:
  assumes "gcCatalogs E C io st = (ok, st')"
    and "loadOperation E io i st = Loaded op" and "op_Status op = OperationCompleted"
    and "loadRequest E io i st = Loaded request" and "io_now io' = io_verifyNow io i"
    and "cachedResultFresh E C io' request (op_Result op) st"
  shows "loadOperation E io i st' = Loaded op \<and> loadRequest E io i st' = Loaded request
     \<and> cachedResultFresh E C io' request (op_Result op) st'"
  using assms(1)
proof (cases rule: gcCatalogs_cases)
  case (2 ids ok')
  note keeps = removeCatalogsLoop_keeps [OF 2(2)]
  from keeps have st': "st' = st\<lparr>st_catalogs := st_catalogs st'\<rparr>" by blast
  have files: "st_operations st' = st_operations st" "st_requests st' = st_requests st"
    by (subst st', simp)+
  have "mget (st_catalogs st') n = mget (st_catalogs st) n" if "n \<in> set (referencedBy E io st i)" for n
  proof -
    from listed_operation [OF assms(2) 2(1)] that have "n \<in> set (concat (map (referencedBy E io st) ids))" by auto
    with keeps [of n] show ?thesis by (simp only: collectable_def) blast
  qed
  from cachedResultFresh_cong [OF assms(2-4) this assms(5,6)] show ?thesis
    using assms(2,4) files by (simp only: loadOperation_def loadRequest_def)
qed (use assms in simp)

definition sample_reference :: CatalogReference where
  "sample_reference = \<lparr>kr_Tap = sample_source, kr_PublishedAt = 7, kr_Sequence = 1, kr_URL = ''u'', kr_Size = 2,
     kr_SHA256 = ''sha256:'' @ replicate 64 CHR ''0''\<rparr>"

definition sample_payload :: "unit CatalogSetPayload" where
  "sample_payload = setPayload sample_config sample_call sample_request (''sha256:'' @ replicate 64 CHR ''0'')
     [\<lparr>sg_data = ''{}'', sg_reference = sample_reference\<rparr>] (gs_Results sample_generated)"

definition verifying_env :: "unit environment" where
  "verifying_env = sample_env\<lparr>ev_Verify := (\<lambda>_ _ _ _. Some sample_payload)\<rparr>"

definition sample_result :: CatalogSetResult where
  "sample_result = \<lparr>cr_SchemaVersion = ResultSchemaVersion, cr_RequestDigest = ''sha256:'' @ replicate 64 CHR ''0'',
     cr_PayloadDigest = ''sha256:'' @ replicate 64 CHR ''0'', cr_JWS = ''{}''\<rparr>"

definition sample_id :: string where
  "sample_id = ''op-'' @ replicate 64 CHR ''0''"

definition sample_operation :: Operation where
  "sample_operation = \<lparr>op_SchemaVersion = OperationSchemaVersion, op_ID = sample_id, op_Status = OperationCompleted,
     op_RetryAfterSeconds = 0, op_Result = Some sample_result, op_Failure = None\<rparr>"

definition sample_store :: store where
  "sample_store = \<lparr>st_operations = [(sample_id, (sample_operation, 7))], st_requests = [(sample_id, ''{}'')],
     st_catalogs = [(replicate 64 CHR ''0'', (''{}'', 7)), (replicate 64 CHR ''1'', (''old'', - 200))], st_sequences = []\<rparr>"

lemma sample_stored:
  "loadOperation verifying_env sample_call sample_id sample_store = Loaded sample_operation"
  "loadRequest verifying_env sample_call sample_id sample_store = Loaded (canonicalizeRequest sample_request)"
  "CanonicalRequest sample_codec (canonicalizeRequest sample_request) = Some ''{}''"
proof -
  have canonical: "CanonicalRequest sample_codec sample_request = Some ''{}''"
    by (simp add: CanonicalRequest_Some sample_valid) (simp add: sample_codec_def MaxRequestBytes_def)
  note decode = DecodeRequest_canonical [OF sample_faithful canonical]
  then show "CanonicalRequest sample_codec (canonicalizeRequest sample_request) = Some ''{}''" by simp
  have env: "ev_unicode verifying_env = ascii_tables" "ev_codec verifying_env = sample_codec" "ev_JWSShape verifying_env j" for j
    by (simp_all add: verifying_env_def sample_env_def)
  have valid: "validOperationID ascii_tables sample_id"
    using sample_digest(2) by (simp add: validOperationID_def sample_id_def trim_prefix_def)
  have "validateOperationID sample_id"
    by (simp add: validateOperationID_def sample_id_def MaxOperationIDBytes_def list_all_iff isLowerAlphaNumeric_def less_eq_char_def)
  then have op: "ValidateOperation verifying_env sample_operation"
    using sample_digest(1)
    by (simp add: ValidateOperation_def sample_operation_def ValidateCatalogSetResult_def sample_result_def env MaxJWSBytes_def
        del: append_Cons)
  show "loadOperation verifying_env sample_call sample_id sample_store = Loaded sample_operation"
    using valid op by (simp add: loadOperation_def env sample_call_def sample_store_def, simp add: sample_operation_def)
  show "loadRequest verifying_env sample_call sample_id sample_store = Loaded (canonicalizeRequest sample_request)"
    using valid decode by (simp add: loadRequest_def env sample_call_def sample_store_def)
qed

lemma sample_fresh:
  "cachedResultFresh verifying_env sample_config sample_call (canonicalizeRequest sample_request) (Some sample_result) sample_store"
proof -
  let ?zeros = "replicate 64 CHR ''0''"
  have sha: "js_SHA256 sample_codec d = ?zeros" for d by (simp add: sample_codec_def)
  have env: "ev_codec verifying_env = sample_codec" "ev_unicode verifying_env = ascii_tables" "ev_JWSShape verifying_env j"
    "ev_Verify verifying_env j a b t = Some sample_payload" "ev_CanonicalPayload verifying_env p = Some ''{}''"
    "ev_ReferenceOrigin verifying_env k" "ev_ValidateCatalogReference verifying_env k"
    "ev_CanonicalTapCatalog verifying_env c = Some ''{}''" "ev_CanonicalPlatformResult verifying_env q = Some ''{}''"
    "ev_DecodeTapCatalog verifying_env d = Some (sample_catalog\<lparr>tc_PublishedAt := 7, tc_Sequence := 1\<rparr>)"
    for j a b t p k c q d
    by (simp_all add: verifying_env_def sample_env_def)
  have digest: "RequestDigest sample_codec (canonicalizeRequest sample_request) = Some ?zeros"
    by (simp add: RequestDigest_def sample_stored(3) sha)
  have result: "ValidateCatalogSetResult verifying_env sample_result"
    using sample_digest(1) by (simp add: ValidateCatalogSetResult_def sample_result_def env MaxJWSBytes_def del: append_Cons)
  have "trim_prefix ''sha256:'' (''sha256:'' @ ?zeros) = ?zeros" by (simp add: trim_prefix_def)
  then have load: "loadReferenced verifying_env sample_call sample_store [sample_reference]
      = Some [sample_catalog\<lparr>tc_PublishedAt := 7, tc_Sequence := 1\<rparr>]"
    using sample_digest(2)
    by (simp add: loadCatalog_def env sample_reference_def sample_store_def sample_call_def sha DecodeReferencedTapCatalog_def
        VerifyCatalogReference_def sample_catalog_def del: append_Cons)
  have "NormalizedTargets (canonicalizeRequest sample_request) = NormalizedTargets sample_request"
    by (simp add: NormalizedTargets_def ValidateRequest_canonicalize sample_valid normalized_canonical
        split: sum.split) (auto simp: sample_request_def normalizedRequestTargets_def)
  then have "validateGeneratedSet verifying_env (canonicalizeRequest sample_request)
      \<lparr>gs_Catalogs = [sample_catalog\<lparr>tc_PublishedAt := 7, tc_Sequence := 1\<rparr>], gs_Results = gs_Results sample_generated\<rparr>"
    by (rule sample_set_ok) (simp_all add: sample_catalog_def verifying_env_def sample_env_def)
  moreover have "ps_Catalogs sample_payload = [sample_reference]" "ps_Results sample_payload = gs_Results sample_generated"
    "ps_CatalogService sample_payload = cf_catalogService sample_config" "ps_Extractor sample_payload = cf_extractor sample_config"
    "io_refreshNow sample_call < ps_GeneratedAt sample_payload + cf_catalogRefresh sample_config"
    "cr_RequestDigest sample_result = ''sha256:'' @ ?zeros" "cr_PayloadDigest sample_result = ''sha256:'' @ ?zeros"
    by (simp_all add: sample_payload_def setPayload_def sample_config_def sample_result_def sample_call_def)
  ultimately show ?thesis
    by (simp add: cachedResultFresh_def result env digest sha load del: loadReferenced.simps)
qed

theorem collection_keeps_cached_results_witness:
  "\<exists>ok st. gcCatalogs verifying_env sample_config sample_call sample_store = (ok, st)
     \<and> cachedResultFresh verifying_env sample_config sample_call (canonicalizeRequest sample_request) (Some sample_result) st"
proof -
  obtain ok st where run: "gcCatalogs verifying_env sample_config sample_call sample_store = (ok, st)" by fastforce
  have op: "op_Status sample_operation = OperationCompleted" "op_Result sample_operation = Some sample_result"
    by (simp_all add: sample_operation_def)
  have "io_now sample_call = io_verifyNow sample_call sample_id" by (simp add: sample_call_def)
  from collection_keeps_cached_results [OF run sample_stored(1) op(1) sample_stored(2) this] sample_fresh op(2) run
  show ?thesis by auto
qed

text \<open>
  C30: The collection of catalog documents changes nothing but documents. It removes a document only when
  the document is at least as old as the lifetime of a catalog set, and no set that is live, that is
  the stored and verifying set of a completed operation, refers to it, unless the collector
  could not read the files of that operation. Where listing and removing work, it does remove every
  such document that no live set refers to.
\<close>

theorem collection_removes_only_unused:
  assumes "gcCatalogs E C io st = (ok, st')"
  shows "st' = st\<lparr>st_catalogs := st_catalogs st'\<rparr>
     \<and> (\<forall>n data t. mget (st_catalogs st) n = Some (data, t) \<longrightarrow>
          mget (st_catalogs st') n = Some (data, t)
          \<or> mget (st_catalogs st') n = None \<and> \<not> (0 < cf_catalogSetLifetime C \<and> io_removeNow io < t + cf_catalogSetLifetime C)
            \<and> (\<forall>i payload. live_set E (io_verifyNow io i) st i payload \<longrightarrow> refers_to payload n \<longrightarrow>
                 loadOperation E io i st = LoadError \<or> loadRequest E io i st = LoadError))
     \<and> (\<forall>n data t. mget (st_catalogs st) n = Some (data, t) \<longrightarrow> validSHA256Hex (ev_unicode E) n \<longrightarrow>
          cf_catalogSetLifetime C \<le> io_removeNow io - t \<longrightarrow> listOperations E io st \<noteq> None \<longrightarrow> io_listCatalogs io \<longrightarrow>
          (\<forall>m. io_catalogInfo io m \<and> io_removeCatalog io m) \<longrightarrow> gomap_ok (st_catalogs st) \<longrightarrow>
          (\<forall>i payload. live_set E (io_verifyNow io i) st i payload \<longrightarrow> \<not> refers_to payload n) \<longrightarrow> mget (st_catalogs st') n = None)"
proof (cases "listOperations E io st = None \<or> \<not> io_listCatalogs io")
  case True
  with assms have "st' = st" by (auto simp: gcCatalogs_def removeCatalogsExcept_def split: option.splits if_splits)
  with True show ?thesis by auto
next
  case False
  then obtain ids where ids: "listOperations E io st = Some ids" by auto
  let ?refs = "concat (map (referencedBy E io st) ids)" and ?names = "sort (mkeys (st_catalogs st))"
  have loop: "removeCatalogsLoop E io ?refs (cf_catalogSetLifetime C) ?names st = (ok, st')"
    using assms ids False by (simp add: gcCatalogs_def removeCatalogsExcept_def)
  have listed: "n \<notin> set (referencedBy E io st i)" if "n \<notin> set ?refs" for n i
  proof (cases "loadOperation E io i st")
    case (Loaded op)
    from listed_operation [OF this ids] that show ?thesis by auto
  qed (simp_all add: referencedBy_def)
  note keeps = removeCatalogsLoop_keeps [OF loop]
  have removed: "mget (st_catalogs st') n = Some (data, t) \<or> mget (st_catalogs st') n = None
      \<and> \<not> (0 < cf_catalogSetLifetime C \<and> io_removeNow io < t + cf_catalogSetLifetime C)
      \<and> (\<forall>i payload. live_set E (io_verifyNow io i) st i payload \<longrightarrow> refers_to payload n \<longrightarrow>
           loadOperation E io i st = LoadError \<or> loadRequest E io i st = LoadError)"
    if stored: "mget (st_catalogs st) n = Some (data, t)" for n data t
  proof (cases "mget (st_catalogs st') n = mget (st_catalogs st) n")
    case False
    with keeps [of n] have gone: "mget (st_catalogs st') n = None"
      and "collectable E io ?refs (cf_catalogSetLifetime C) st n" by blast+
    with stored have refs: "n \<notin> set ?refs" and age: "\<not> (0 < cf_catalogSetLifetime C \<and> io_removeNow io - t < cf_catalogSetLifetime C)"
      by (simp_all only: collectable_def option.case prod.case simp_thms)
    from age have "\<not> (0 < cf_catalogSetLifetime C \<and> io_removeNow io < t + cf_catalogSetLifetime C)" by auto
    with gone live_set_referencedBy listed [OF refs] show ?thesis by blast
  qed (use stored in simp)
  have complete: "mget (st_catalogs st') n = None"
    if n: "mget (st_catalogs st) n = Some (data, t)" "validSHA256Hex (ev_unicode E) n" "cf_catalogSetLifetime C \<le> io_removeNow io - t"
      and io: "\<forall>m. io_catalogInfo io m \<and> io_removeCatalog io m" and ok: "gomap_ok (st_catalogs st)"
      and unused: "\<forall>i payload. live_set E (io_verifyNow io i) st i payload \<longrightarrow> \<not> refers_to payload n" for n data t
  proof -
    have "n \<notin> set ?refs" using unused referencedBy_live_set by fastforce
    with n have "collectable E io ?refs (cf_catalogSetLifetime C) st n" by (simp add: collectable_def)
    moreover have "n \<in> set ?names" using mget_Some_in_keys [OF n(1)] by simp
    ultimately show ?thesis using removeCatalogsLoop_complete [OF loop io] ok by (simp add: gomap_ok_def)
  qed
  show ?thesis
    using keeps removed complete by (intro conjI allI impI) blast+
qed

theorem collection_removes_only_unused_witness:
  "\<exists>ok st. gcCatalogs verifying_env sample_config sample_call sample_store = (ok, st)
     \<and> live_set verifying_env 7 sample_store sample_id sample_payload
     \<and> refers_to sample_payload (replicate 64 CHR ''0'')
     \<and> mget (st_catalogs st) (replicate 64 CHR ''0'') = Some (''{}'', 7) \<and> mget (st_catalogs st) (replicate 64 CHR ''1'') = None"
proof -
  let ?live = "replicate 64 CHR ''0''" and ?old = "replicate 64 CHR ''1''"
  obtain ok st where run: "gcCatalogs verifying_env sample_config sample_call sample_store = (ok, st)" by fastforce
  have env: "ev_codec verifying_env = sample_codec" "ev_unicode verifying_env = ascii_tables"
    "ev_Verify verifying_env j a b t = Some sample_payload" for j a b t
    by (simp_all add: verifying_env_def sample_env_def)
  have refs: "refers_to sample_payload n \<longleftrightarrow> n = ?live" for n
    by (auto simp: refers_to_def sample_payload_def setPayload_def sample_reference_def trim_prefix_def)
  have "DecodeRequest sample_codec ''{}'' = Some (canonicalizeRequest sample_request)"
    using sample_stored(2) by (auto simp: loadRequest_def env sample_store_def split: if_splits option.splits)
  moreover have "RequestDigest sample_codec (canonicalizeRequest sample_request) = Some ?live"
    by (simp add: RequestDigest_def sample_stored(3)) (simp add: sample_codec_def)
  ultimately have live: "live_set verifying_env 7 sample_store sample_id sample_payload"
    unfolding live_set_def by (simp add: env sample_store_def sample_operation_def)
  have stored: "mget (st_catalogs sample_store) ?live = Some (''{}'', 7)" "mget (st_catalogs sample_store) ?old = Some (''old'', - 200)"
    "gomap_ok (st_catalogs sample_store)"
    by (simp_all add: sample_store_def gomap_ok_def)
  have io: "io_verifyNow sample_call i = 7" "io_removeNow sample_call = 7" "cf_catalogSetLifetime sample_config = 100" "io_listCatalogs sample_call"
    "\<forall>m. io_catalogInfo sample_call m \<and> io_removeCatalog sample_call m" for i
    by (simp_all add: sample_call_def sample_config_def)
  have "validOperationID ascii_tables sample_id"
    using sample_digest(2) by (simp add: validOperationID_def sample_id_def trim_prefix_def)
  then have list: "listOperations verifying_env sample_call sample_store \<noteq> None"
    by (simp add: listOperations_def env sample_store_def sample_call_def)
  have "to_lower ascii_tables ?old = ?old" by (rule to_lower_id(1)) (simp_all add: ascii_conform_def)
  then have old: "validSHA256Hex ascii_tables ?old"
    by (simp add: validSHA256Hex_def hex_ok_def list_all_iff hex_char_def ascii_digit_def less_eq_char_def)
  note collected = collection_removes_only_unused [OF run, THEN conjunct2]
  have unused: "\<forall>i payload. live_set verifying_env (io_verifyNow sample_call i) sample_store i payload \<longrightarrow> \<not> refers_to payload ?old"
    by (auto simp: live_set_def env refs)
  have kept: "mget (st_catalogs st) ?live = Some (''{}'', 7)" using collected [THEN conjunct1] stored(1) io(1-3) by fastforce
  have "validSHA256Hex (ev_unicode verifying_env) ?old" "cf_catalogSetLifetime sample_config \<le> io_removeNow sample_call - (- 200)"
    using old io(1-3) by (simp_all add: env)
  with collected [THEN conjunct2] stored(2,3) list io(4,5) unused have gone: "mget (st_catalogs st) ?old = None" by blast
  from run live refs kept gone show ?thesis by blast
qed

end
