(* ===== verification/CatalogService.thy ===== *)
theory CatalogService
  imports CatalogPublish
begin

text \<open>
  The job queue of the catalog service, \<open>internal/catalogservice/service.go\<close>: requests are admitted,
  persisted, generated by a bounded number of workers and published, and their operations are kept
  until they are evicted.

  \<^item> The state is the record \<open>service\<close>: the fields of \<open>Service\<close> guarded by its mutex, the files of the
    store, and the handlers and worker goroutines that have not ended. Each section under the mutex
    is one definition, publication under its own mutex is another, and the interleavings of
    handlers and workers are the steps of \<open>service_step\<close>.
  \<^item> A buffered channel is the number of tokens in it; a send that would block has the value \<open>None\<close>.
  \<^item> Close cancels the context of the service and then waits; the steps of the workers and handlers it
    waits for are the ones after \<open>closing\<close>.
\<close>

section \<open>The service\<close>

text \<open>
  A worker goroutine runs the generator and publishes what it returned, then stores the operation, and
  then runs \<open>generationDone\<close>.
\<close>

datatype worker = Generating Request | Finishing Operation | Leaving

record service =
  sv_closed :: bool
  sv_slots :: nat
  sv_active :: "(string, unit) gomap"
  sv_queued :: "(string, Request) gomap"
  sv_queue :: "string list"
  sv_terminalErrors :: "(string, unit) gomap"
  sv_store :: "store"
  sv_handlers :: nat
  sv_workers :: "(string, worker) gomap"

definition pendingOperation :: "config \<Rightarrow> string \<Rightarrow> Operation" where
  "pendingOperation C i = \<lparr>op_SchemaVersion = OperationSchemaVersion, op_ID = i, op_Status = OperationPending,
     op_RetryAfterSeconds = cf_retryAfterSeconds C, op_Result = None, op_Failure = None\<rparr>"

definition cloneRequest :: "'x environment \<Rightarrow> Request \<Rightarrow> Request option" where
  "cloneRequest E request = Option.bind (CanonicalRequest (ev_codec E) request) (DecodeRequest (ev_codec E))"

definition generationCapacityAvailable :: "config \<Rightarrow> service \<Rightarrow> string \<Rightarrow> bool" where
  "generationCapacityAvailable C s i =
     (if mhas (sv_active s) i then True
      else if mhas (sv_queued s) i then True
      else length (sv_active s) + length (sv_queued s) < cf_maxPending C)"

definition launchGeneration :: "string \<Rightarrow> Request \<Rightarrow> service \<Rightarrow> service" where
  "launchGeneration i request s =
     s\<lparr>sv_active := mput i () (sv_active s), sv_workers := mput i (Generating request) (sv_workers s)\<rparr>"

definition startLocked ::
  "'x environment \<Rightarrow> config \<Rightarrow> string \<Rightarrow> Request \<Rightarrow> service \<Rightarrow> service" where
  "startLocked E C i request s =
     (if sv_closed s \<or> mhas (sv_terminalErrors s) i then s
      else if mhas (sv_active s) i then s
      else if mhas (sv_queued s) i then s
      else if \<not> generationCapacityAvailable C s i then s
      else case cloneRequest E request of
          None \<Rightarrow> s\<lparr>sv_terminalErrors := mput i () (sv_terminalErrors s)\<rparr>
        | Some cloned \<Rightarrow>
            if sv_slots s < cf_slots C
            then launchGeneration i cloned (s\<lparr>sv_slots := sv_slots s + 1\<rparr>)
            else s\<lparr>sv_queued := mput i cloned (sv_queued s), sv_queue := sv_queue s @ [i]\<rparr>)"

text \<open>The loop of \<open>generationDone\<close> over the queue.\<close>

fun launchNext :: "config \<Rightarrow> string list \<Rightarrow> service \<Rightarrow> service option" where
  "launchNext C [] s = Some (s\<lparr>sv_queue := []\<rparr>)"
| "launchNext C (next # rest) s =
     (let request = mget (sv_queued s) next;
          s' = s\<lparr>sv_queue := rest, sv_queued := mdel next (sv_queued s)\<rparr>
      in case request of
           None \<Rightarrow> launchNext C rest s'
         | Some r \<Rightarrow>
             if mhas (sv_terminalErrors s') next then launchNext C rest s'
             else if sv_slots s' < cf_slots C
             then Some (launchGeneration next r (s'\<lparr>sv_slots := sv_slots s' + 1\<rparr>))
             else None)"

definition generationDone :: "config \<Rightarrow> string \<Rightarrow> service \<Rightarrow> service option" where
  "generationDone C i s =
     (if sv_slots s = 0 then None
      else let s' = s\<lparr>sv_active := mdel i (sv_active s), sv_slots := sv_slots s - 1,
                       sv_workers := mdel i (sv_workers s)\<rparr>
           in if sv_closed s' then Some s' else launchNext C (sv_queue s') s')"

text \<open>
  The answers of the generator: the service context was cancelled, the deadline passed, it failed (by
  its own deadline, or with a failure for the client), or it returned.
\<close>

datatype 'x generation =
    Cancelled
  | DeadlinePassed
  | GeneratorError bool "Failure option"
  | Generated "'x GeneratedSet option"

definition failureForError :: "bool \<Rightarrow> Failure option \<Rightarrow> Failure" where
  "failureForError deadline selected =
     (if deadline then \<lparr>fl_Code = FailureTimeout, fl_Message = ''catalog generation timed out''\<rparr>
      else case selected of
          Some f \<Rightarrow> if ValidateFailure f then f
            else \<lparr>fl_Code = FailureUnavailable, fl_Message = ''catalog generation is unavailable''\<rparr>
        | None \<Rightarrow> \<lparr>fl_Code = FailureUnavailable, fl_Message = ''catalog generation is unavailable''\<rparr>)"

definition failedOperation :: "string \<Rightarrow> Failure \<Rightarrow> Operation" where
  "failedOperation i failure = \<lparr>op_SchemaVersion = OperationSchemaVersion, op_ID = i, op_Status = OperationFailed,
     op_RetryAfterSeconds = 0, op_Result = None,
     op_Failure = Some (if ValidateFailure failure then failure
        else \<lparr>fl_Code = FailureUnavailable, fl_Message = ''catalog generation failed''\<rparr>)\<rparr>"

definition completedOperation :: "string \<Rightarrow> CatalogSetResult \<Rightarrow> Operation" where
  "completedOperation i r = \<lparr>op_SchemaVersion = OperationSchemaVersion, op_ID = i, op_Status = OperationCompleted,
     op_RetryAfterSeconds = 0, op_Result = Some r, op_Failure = None\<rparr>"

text \<open>\<open>runGeneration\<close> up to \<open>finishOperation\<close>: the operation it is going to store, if any.\<close>

definition generationResult ::
  "'x environment \<Rightarrow> config \<Rightarrow> call \<Rightarrow> string \<Rightarrow> Request \<Rightarrow> 'x generation \<Rightarrow> store \<Rightarrow> Operation option \<times> store" where
  "generationResult E C io i request g st =
     (case cloneRequest E request of
        None \<Rightarrow> (Some (failedOperation i \<lparr>fl_Code = FailurePolicy, fl_Message = ''persisted catalog request is invalid''\<rparr>), st)
      | Some generatorRequest \<Rightarrow>
          (case g of
             Cancelled \<Rightarrow> (None, st)
           | DeadlinePassed \<Rightarrow>
               (Some (failedOperation i \<lparr>fl_Code = FailureTimeout, fl_Message = ''catalog generation timed out''\<rparr>), st)
           | GeneratorError deadline f \<Rightarrow> (Some (failedOperation i (failureForError deadline f)), st)
           | Generated generated \<Rightarrow>
               (case publishGenerated E C io request generated st of
                  (Inl InvalidGeneration, st') \<Rightarrow> (Some (failedOperation i
                    \<lparr>fl_Code = FailurePolicy, fl_Message = ''generator returned invalid catalog data''\<rparr>), st')
                | (Inl PublishFailed, st') \<Rightarrow> (Some (failedOperation i
                    \<lparr>fl_Code = FailureUnavailable, fl_Message = ''catalog service could not publish generated data''\<rparr>), st')
                | (Inr r, st') \<Rightarrow> (Some (completedOperation i r), st'))))"

definition runGeneration ::
  "'x environment \<Rightarrow> config \<Rightarrow> call \<Rightarrow> string \<Rightarrow> Request \<Rightarrow> 'x generation \<Rightarrow> service \<Rightarrow> service" where
  "runGeneration E C io i request g s =
     (case generationResult E C io i request g (sv_store s) of
        (op, st) \<Rightarrow> s\<lparr>sv_store := st, sv_workers := mput i (case op of None \<Rightarrow> Leaving | Some op \<Rightarrow> Finishing op) (sv_workers s)\<rparr>)"

text \<open>The error of the collection is dropped.\<close>

definition finishOperation :: "'x environment \<Rightarrow> config \<Rightarrow> call \<Rightarrow> Operation \<Rightarrow> service \<Rightarrow> service" where
  "finishOperation E C io op s =
     (case saveOperation E io op (sv_store s) of
        (False, st) \<Rightarrow> s\<lparr>sv_store := st, sv_terminalErrors := mput (op_ID op) () (sv_terminalErrors s)\<rparr>
      | (True, st) \<Rightarrow>
          let st' = (if op_Status op = OperationCompleted then snd (gcCatalogs E C io st) else st)
          in s\<lparr>sv_store := st', sv_terminalErrors := mdel (op_ID op) (sv_terminalErrors s)\<rparr>)"

definition finishGeneration :: "'x environment \<Rightarrow> config \<Rightarrow> call \<Rightarrow> string \<Rightarrow> Operation \<Rightarrow> service \<Rightarrow> service" where
  "finishGeneration E C io i op s =
     (let s' = finishOperation E C io op s in s'\<lparr>sv_workers := mput i Leaving (sv_workers s')\<rparr>)"

section \<open>Eviction\<close>

fun evictLoop ::
  "'x environment \<Rightarrow> call \<Rightarrow> nat \<Rightarrow> (string \<times> int) list \<Rightarrow> nat \<Rightarrow> service
     \<Rightarrow> bool \<times> service" where
  "evictLoop E io limit [] remaining s = (True, s)"
| "evictLoop E io limit ((i, t) # infos) remaining s =
     (if remaining \<le> limit then (True, s)
      else if mhas (sv_active s) i then evictLoop E io limit infos remaining s
      else case loadOperation E io i (sv_store s) of
          Loaded op \<Rightarrow>
            if op_Status op = OperationPending \<and> \<not> mhas (sv_terminalErrors s) i
            then evictLoop E io limit infos remaining s
            else (case removeOperation E io i (sv_store s) of
                (False, st) \<Rightarrow> (False, s\<lparr>sv_store := st\<rparr>)
              | (True, st) \<Rightarrow> evictLoop E io limit infos (remaining - 1)
                  (s\<lparr>sv_store := st, sv_terminalErrors := mdel i (sv_terminalErrors s)\<rparr>))
        | _ \<Rightarrow> evictLoop E io limit infos remaining s)"

definition evictOperations ::
  "'x environment \<Rightarrow> call \<Rightarrow> nat \<Rightarrow> service \<Rightarrow> bool \<times> service" where
  "evictOperations E io limit s =
     (case operationInfos E io (sv_store s) of
        None \<Rightarrow> (False, s)
      | Some infos \<Rightarrow>
          if length infos \<le> limit then (True, s)
          else evictLoop E io limit (io_sort io infos) (length infos) s)"

section \<open>Handlers\<close>

record http_post =
  hp_RawQuery :: string
  hp_ContentEncoding :: string
  hp_ContentType :: string
  hp_ContentLength :: int
  hp_Body :: "string option"

datatype reply =
    FailureReply nat Failure
  | PendingReply nat Operation
  | ResultReply "CatalogSetResult option"
  | OperationReply Operation
  | DocumentReply string

definition writeHTTPFailure :: "nat \<Rightarrow> string \<Rightarrow> string \<Rightarrow> reply" where
  "writeHTTPFailure status code message =
     FailureReply status
       (if ValidateFailure \<lparr>fl_Code = code, fl_Message = message\<rparr> then \<lparr>fl_Code = code, fl_Message = message\<rparr>
        else \<lparr>fl_Code = FailureUnavailable, fl_Message = ''catalog service failure''\<rparr>)"

abbreviation unavailable :: "nat \<Rightarrow> string \<Rightarrow> reply" where
  "unavailable status message \<equiv> writeHTTPFailure status FailureUnavailable message"

abbreviation rejected :: "nat \<Rightarrow> string \<Rightarrow> reply" where
  "rejected status message \<equiv> writeHTTPFailure status FailurePolicy message"

text \<open>The checks of a content type: \<open>application/json\<close>, with no parameter but the charset UTF-8.\<close>

definition jsonContentType :: "'x environment \<Rightarrow> string \<Rightarrow> bool" where
  "jsonContentType E contentType =
     (case ev_ParseMediaType E contentType of
        None \<Rightarrow> False
      | Some (mediaType, parameters) \<Rightarrow>
          let charset = (case mget parameters ''charset'' of None \<Rightarrow> [] | Some c \<Rightarrow> c);
              invalidParameters = (1 < length parameters \<or> length parameters = 1 \<and> \<not> mhas parameters ''charset'')
          in \<not> (mediaType \<noteq> ''application/json'' \<or> invalidParameters
                \<or> charset \<noteq> [] \<and> \<not> equal_fold charset ''utf-8''))"

text \<open>The part of \<open>handleCatalogSet\<close> under the mutex, from the persisted request on.\<close>

definition admitLoaded ::
  "'x environment \<Rightarrow> config \<Rightarrow> call \<Rightarrow> string \<Rightarrow> Request \<Rightarrow> Operation loaded \<Rightarrow> service
     \<Rightarrow> reply \<times> service" where
  "admitLoaded E C io i decoded loaded s =
     (case loaded of
        NotExist \<Rightarrow>
          (case saveOperation E io (pendingOperation C i) (sv_store s) of
             (False, st) \<Rightarrow> (unavailable 500 ''catalog service storage is unavailable'', s\<lparr>sv_store := st\<rparr>)
           | (True, st) \<Rightarrow>
               (PendingReply 202 (pendingOperation C i), startLocked E C i decoded (s\<lparr>sv_store := st\<rparr>)))
      | LoadError \<Rightarrow> (unavailable 500 ''catalog operation state is unavailable'', s)
      | Loaded op \<Rightarrow>
          if op_Status op = OperationCompleted \<and> cachedResultFresh E C io decoded (op_Result op) (sv_store s)
          then (ResultReply (op_Result op), s)
          else if \<not> generationCapacityAvailable C s i
          then (unavailable 503 ''catalog generation capacity is exhausted'', s)
          else if op_Status op = OperationPending
          then (PendingReply 202 op, startLocked E C i decoded s)
          else (case saveOperation E io (pendingOperation C i) (sv_store s) of
             (False, st) \<Rightarrow> (unavailable 500 ''catalog service storage is unavailable'', s\<lparr>sv_store := st\<rparr>)
           | (True, st) \<Rightarrow>
               (PendingReply 202 (pendingOperation C i), startLocked E C i decoded (s\<lparr>sv_store := st\<rparr>))))"

definition persistAndAdmit ::
  "'x environment \<Rightarrow> config \<Rightarrow> call \<Rightarrow> string \<Rightarrow> Request \<Rightarrow> string \<Rightarrow> Operation loaded
     \<Rightarrow> service \<Rightarrow> reply \<times> service" where
  "persistAndAdmit E C io i decoded canonical loaded s =
     (case putRequest E io i canonical (sv_store s) of
        (False, st) \<Rightarrow> (unavailable 500 ''catalog service storage is unavailable'', s\<lparr>sv_store := st\<rparr>)
      | (True, st) \<Rightarrow> admitLoaded E C io i decoded loaded (s\<lparr>sv_store := st\<rparr>))"

definition admitRequest ::
  "'x environment \<Rightarrow> config \<Rightarrow> call \<Rightarrow> string \<Rightarrow> Request \<Rightarrow> string \<Rightarrow> service
     \<Rightarrow> reply \<times> service" where
  "admitRequest E C io i decoded canonical s =
     (if mhas (sv_terminalErrors s) i then (unavailable 500 ''catalog operation could not be persisted'', s)
      else case loadOperation E io i (sv_store s) of
          NotExist \<Rightarrow>
            if \<not> generationCapacityAvailable C s i
            then (unavailable 503 ''catalog generation capacity is exhausted'', s)
            else (case evictOperations E io (cf_maxStoredOperations C - 1) s of
                (False, s') \<Rightarrow> (unavailable 500 ''catalog operation storage is unavailable'', s')
              | (True, s') \<Rightarrow>
                  (case listOperations E io (sv_store s') of
                     None \<Rightarrow> (unavailable 500 ''catalog operation storage is unavailable'', s')
                   | Some ids \<Rightarrow>
                       if cf_maxStoredOperations C \<le> length ids
                       then (unavailable 503 ''catalog operation quota is exhausted'', s')
                       else persistAndAdmit E C io i decoded canonical NotExist s'))
        | loaded \<Rightarrow> persistAndAdmit E C io i decoded canonical loaded s)"

definition handleCatalogSet ::
  "'x environment \<Rightarrow> config \<Rightarrow> call \<Rightarrow> http_post \<Rightarrow> service
     \<Rightarrow> reply \<times> service" where
  "handleCatalogSet E C io post s =
     (if hp_RawQuery post \<noteq> [] then (rejected 400 ''queries are not supported'', s)
      else if hp_ContentEncoding post \<noteq> [] \<and> \<not> equal_fold (hp_ContentEncoding post) ''identity''
      then (rejected 415 ''content encoding is not supported'', s)
      else if \<not> jsonContentType E (hp_ContentType post)
      then (rejected 415 ''content type must be application/json'', s)
      else if MaxRequestBytes < hp_ContentLength post then (rejected 413 ''catalog request exceeds size limit'', s)
      else case hp_Body post of
          None \<Rightarrow> (rejected 413 ''catalog request exceeds size limit'', s)
        | Some data \<Rightarrow>
            if MaxRequestBytes < int (length data) then (rejected 413 ''catalog request exceeds size limit'', s)
            else (case DecodeRequest (ev_codec E) data of
                None \<Rightarrow> (rejected 400 ''invalid catalog request'', s)
              | Some decoded \<Rightarrow>
                  (case CanonicalRequest (ev_codec E) decoded of
                     None \<Rightarrow> (rejected 400 ''invalid catalog request'', s)
                   | Some canonical \<Rightarrow>
                       (case RequestDigest (ev_codec E) decoded of
                          None \<Rightarrow> (rejected 400 ''invalid catalog request'', s)
                        | Some digest \<Rightarrow>
                            admitRequest E C io (operationIDFromDigest digest) decoded canonical s))))"

text \<open>\<open>handleOperation\<close>; \<open>query\<close> is the query of the request and \<open>path\<close> its path.\<close>

definition pollLoaded ::
  "'x environment \<Rightarrow> config \<Rightarrow> call \<Rightarrow> string \<Rightarrow> Request \<Rightarrow> Operation \<Rightarrow> service
     \<Rightarrow> reply \<times> service" where
  "pollLoaded E C io i decoded op s =
     (if op_Status op = OperationPending
      then if \<not> generationCapacityAvailable C s i
           then (unavailable 503 ''catalog generation capacity is exhausted'', s)
           else (OperationReply op, startLocked E C i decoded s)
      else (OperationReply op, s))"

definition handleOperation ::
  "'x environment \<Rightarrow> config \<Rightarrow> call \<Rightarrow> string \<Rightarrow> string \<Rightarrow> service
     \<Rightarrow> reply \<times> service" where
  "handleOperation E C io query path s =
     (let i = trim_prefix ''/v1/operations/'' path
      in if query \<noteq> [] then (rejected 400 ''queries are not supported'', s)
         else if \<not> validOperationID (ev_unicode E) i \<or> CHR ''/'' \<in> set i then (unavailable 404 ''operation not found'', s)
         else if mhas (sv_terminalErrors s) i then (unavailable 500 ''catalog operation could not be persisted'', s)
         else case loadOperation E io i (sv_store s) of
             NotExist \<Rightarrow> (unavailable 404 ''operation not found'', s)
           | LoadError \<Rightarrow> (unavailable 500 ''catalog operation state is unavailable'', s)
           | Loaded op \<Rightarrow>
               (case loadRequest E io i (sv_store s) of
                  Loaded decoded \<Rightarrow>
                    if OperationID E decoded \<noteq> Some i
                    then (unavailable 500 ''catalog operation request is invalid'', s)
                    else if op_Status op = OperationCompleted \<and> \<not> cachedResultFresh E C io decoded (op_Result op) (sv_store s)
                    then if \<not> generationCapacityAvailable C s i
                         then (unavailable 503 ''catalog generation capacity is exhausted'', s)
                         else (case saveOperation E io (pendingOperation C i) (sv_store s) of
                             (False, st) \<Rightarrow> (unavailable 500 ''catalog service storage is unavailable'', s\<lparr>sv_store := st\<rparr>)
                           | (True, st) \<Rightarrow> pollLoaded E C io i decoded (pendingOperation C i) (s\<lparr>sv_store := st\<rparr>))
                    else pollLoaded E C io i decoded op s
                | _ \<Rightarrow> (unavailable 500 ''catalog operation request is unavailable'', s)))"

text \<open>\<open>handleCatalog\<close> runs without the mutex.\<close>

definition handleCatalog :: "'x environment \<Rightarrow> call \<Rightarrow> string \<Rightarrow> string \<Rightarrow> store \<Rightarrow> reply" where
  "handleCatalog E io query path st =
     (let encoded = trim_prefix CatalogDocumentPathPrefix path
      in if query \<noteq> [] then rejected 400 ''queries are not supported''
         else if \<not> validSHA256Hex (ev_unicode E) encoded \<or> CHR ''/'' \<in> set encoded
         then unavailable 404 ''catalog not found''
         else case loadCatalog E io encoded st of
             NotExist \<Rightarrow> unavailable 404 ''catalog not found''
           | LoadError \<Rightarrow> unavailable 500 ''catalog storage is unavailable''
           | Loaded data \<Rightarrow> DocumentReply data)"

section \<open>Routes\<close>

datatype route = CatalogSetRoute | OperationRoute | ArtifactRoute | CatalogRoute

definition HTTPPathPrefix :: string where
  "HTTPPathPrefix = ''/v1/artifacts/sha256/''"

text \<open>The handler \<open>ServeHTTP\<close> calls for a method and a path.\<close>

definition route_of :: "string \<Rightarrow> string \<Rightarrow> (reply, route) result" where
  "route_of meth path =
     (if path = ''/v1/catalog-sets''
      then if meth \<noteq> ''POST'' then Inl (rejected 405 ''method not allowed'') else Inr CatalogSetRoute
      else if prefix ''/v1/operations/'' path
      then if meth \<noteq> ''GET'' then Inl (rejected 405 ''method not allowed'') else Inr OperationRoute
      else if prefix HTTPPathPrefix path
      then if meth \<noteq> ''GET'' \<and> meth \<noteq> ''HEAD'' then Inl (rejected 405 ''method not allowed'') else Inr ArtifactRoute
      else if prefix CatalogDocumentPathPrefix path
      then if meth \<noteq> ''GET'' then Inl (rejected 405 ''method not allowed'') else Inr CatalogRoute
      else Inl (unavailable 404 ''resource not found''))"

text \<open>
  \<open>ServeHTTP\<close> admits a request by \<open>enterHandler\<close>, under the mutex, and then serves it. The reply of the
  artifact store is \<open>artifact\<close>.
\<close>

definition enterHandler :: "service \<Rightarrow> (reply, service) result" where
  "enterHandler s =
     (if sv_closed s then Inl (unavailable 503 ''catalog service is shutting down'')
      else Inr (s\<lparr>sv_handlers := sv_handlers s + 1\<rparr>))"

record http_request = http_post +
  hr_Method :: string
  hr_Path :: string

definition serveRoute ::
  "'x environment \<Rightarrow> config \<Rightarrow> call \<Rightarrow> reply \<Rightarrow> http_request \<Rightarrow> service
     \<Rightarrow> reply \<times> service" where
  "serveRoute E C io artifact request s =
     (case route_of (hr_Method request) (hr_Path request) of
        Inl failure \<Rightarrow> (failure, s)
      | Inr CatalogSetRoute \<Rightarrow> handleCatalogSet E C io (http_post.truncate request) s
      | Inr OperationRoute \<Rightarrow> handleOperation E C io (hp_RawQuery request) (hr_Path request) s
      | Inr ArtifactRoute \<Rightarrow> (artifact, s)
      | Inr CatalogRoute \<Rightarrow> (handleCatalog E io (hp_RawQuery request) (hr_Path request) (sv_store s), s))"

section \<open>Start\<close>

text \<open>The numeric settings of \<open>New\<close>; durations are in nanoseconds, and zero selects the default.\<close>

record settings =
  se_CatalogSetLifetime :: int
  se_GenerationTimeout :: int
  se_RetryAfter :: int
  se_CatalogRefresh :: int
  se_MaxConcurrentGenerations :: int
  se_MaxPendingGenerations :: int
  se_MaxStoredOperations :: int

abbreviation seconds :: "int \<Rightarrow> int" where
  "seconds n \<equiv> n * 1000000000"

definition MaxCatalogSetLifetime :: int where
  "MaxCatalogSetLifetime = seconds (24 * 3600)"

definition defaulted :: "int \<Rightarrow> int \<Rightarrow> int" where
  "defaulted d v = (if v = 0 then d else v)"

definition configOf ::
  "string \<Rightarrow> ComponentIdentity \<Rightarrow> ComponentIdentity \<Rightarrow> settings \<Rightarrow> (string, config) result" where
  "configOf origin catalogService extractor g =
     (let lifetime = defaulted MaxCatalogSetLifetime (se_CatalogSetLifetime g);
          generationTimeout = defaulted (seconds (30 * 60)) (se_GenerationTimeout g);
          retryAfter = defaulted (seconds 2) (se_RetryAfter g);
          catalogRefresh = defaulted (seconds 3600) (se_CatalogRefresh g);
          maxConcurrent = defaulted 4 (se_MaxConcurrentGenerations g);
          maxPending = defaulted 64 (se_MaxPendingGenerations g);
          maxStoredOperations = defaulted 4096 (se_MaxStoredOperations g)
      in if lifetime \<le> 0 \<or> MaxCatalogSetLifetime < lifetime then Inl ''catalog-set lifetime is out of range''
         else if generationTimeout \<le> 0 \<or> seconds (30 * 60) < generationTimeout
         then Inl ''generation timeout is out of range''
         else if retryAfter < seconds 1 \<or> seconds 3600 < retryAfter \<or> retryAfter mod seconds 1 \<noteq> 0
         then Inl ''retry-after must be a whole number of seconds in 1..3600''
         else if catalogRefresh \<le> 0 \<or> MaxCatalogSetLifetime < catalogRefresh then Inl ''catalog refresh is out of range''
         else if maxConcurrent < 1 \<or> 64 < maxConcurrent then Inl ''max concurrent generations must be in 1..64''
         else if maxPending < 1 \<or> 4096 < maxPending then Inl ''max pending generations must be in 1..4096''
         else if maxStoredOperations < 1 \<or> 100000 < maxStoredOperations
         then Inl ''max stored operations must be in 1..100000''
         else Inr \<lparr>cf_slots = nat maxConcurrent, cf_maxPending = nat maxPending,
                cf_maxStoredOperations = nat maxStoredOperations,
                cf_retryAfterSeconds = retryAfter div seconds 1, cf_catalogSetLifetime = lifetime,
                cf_catalogRefresh = catalogRefresh, cf_origin = origin, cf_catalogService = catalogService,
                cf_extractor = extractor\<rparr>)"

datatype resume_error = ResumeStorage | ResumeMismatch string | ResumeTooMany nat

definition resumeOne ::
  "'x environment \<Rightarrow> call \<Rightarrow> store \<Rightarrow> string \<Rightarrow> (string \<times> Request) list
     \<Rightarrow> (resume_error, (string \<times> Request) list) result" where
  "resumeOne E io st i pending =
     (case loadOperation E io i st of
        Loaded op \<Rightarrow>
          (case loadRequest E io i st of
             Loaded request \<Rightarrow>
               if OperationID E request \<noteq> Some i then Inl (ResumeMismatch i)
               else Inr (if op_Status op = OperationPending then pending @ [(i, request)] else pending)
           | _ \<Rightarrow> Inl ResumeStorage)
      | _ \<Rightarrow> Inl ResumeStorage)"

definition resumePending ::
  "'x environment \<Rightarrow> config \<Rightarrow> call \<Rightarrow> service \<Rightarrow> (resume_error, service) result" where
  "resumePending E C io s =
     (case listOperations E io (sv_store s) of
        None \<Rightarrow> Inl ResumeStorage
      | Some ids \<Rightarrow>
     (case for_result (resumeOne E io (sv_store s)) ids [] of
        Inl e \<Rightarrow> Inl e
      | Inr pending \<Rightarrow>
          if cf_maxPending C < length pending then Inl (ResumeTooMany (length pending))
          else Inr (foldl (\<lambda>s (i, request). startLocked E C i request s) s pending)))"

definition emptyService :: "store \<Rightarrow> service" where
  "emptyService st = \<lparr>sv_closed = False, sv_slots = 0, sv_active = [], sv_queued = [], sv_queue = [],
     sv_terminalErrors = [], sv_store = st, sv_handlers = 0, sv_workers = []\<rparr>"

text \<open>The state \<open>New\<close> returns over the files of an earlier process.\<close>

definition startService ::
  "'x environment \<Rightarrow> config \<Rightarrow> call \<Rightarrow> store \<Rightarrow> (resume_error, service) result" where
  "startService E C io st = resumePending E C io (emptyService st)"

section \<open>Interleavings\<close>

text \<open>
  A handler enters, runs its one section under the mutex and returns; a worker runs the generator and
  publishes, stores its operation and leaves; \<open>Close\<close> can come at any time, and only then can the
  generator be cancelled.
\<close>

inductive service_step ::
  "'x environment \<Rightarrow> config \<Rightarrow> service \<Rightarrow> service \<Rightarrow> bool" for E C where
  entered: "enterHandler s = Inr s' \<Longrightarrow> service_step E C s s'"
| answered: "0 < sv_handlers s \<Longrightarrow> serveRoute E C io artifact request s = (reply, s')
    \<Longrightarrow> service_step E C s (s'\<lparr>sv_handlers := sv_handlers s' - 1\<rparr>)"
| generated: "mget (sv_workers s) i = Some (Generating r) \<Longrightarrow> (g = Cancelled \<longrightarrow> sv_closed s)
    \<Longrightarrow> service_step E C s (runGeneration E C io i r g s)"
| finished: "mget (sv_workers s) i = Some (Finishing op) \<Longrightarrow> service_step E C s (finishGeneration E C io i op s)"
| left: "mget (sv_workers s) i = Some Leaving \<Longrightarrow> generationDone C i s = Some s' \<Longrightarrow> service_step E C s s'"
| closing: "service_step E C s (s\<lparr>sv_closed := True\<rparr>)"

inductive reachable ::
  "'x environment \<Rightarrow> config \<Rightarrow> store \<Rightarrow> service \<Rightarrow> bool" for E C st where
  started: "startService E C io st = Inr s \<Longrightarrow> reachable E C st s"
| stepped: "reachable E C st s \<Longrightarrow> service_step E C s s' \<Longrightarrow> reachable E C st s'"

inductive_cases service_stepE: "service_step E C s s'"

end
