(* ===== verification/CatalogServiceInv.thy ===== *)
theory CatalogServiceInv
  imports CatalogService
begin

text \<open>
  Invariants of the catalog service. The locale \<open>service_invariant\<close> asks that a property survives the
  elementary changes of the state (a write or removal of files, the start of a job, the end of a
  generation) under the conditions in which the code makes them, and shows once that it then holds
  in every reachable state, through all handlers, workers and the shutdown. It is interpreted with
  the state of the scheduler, with the files that back each job, and with the number of stored
  operations.
\<close>

section \<open>The store, operation by operation\<close>

lemma putRequest_operations:
  "putRequest E io i d st = (ok, st') \<Longrightarrow> st_operations st' = st_operations st"
  by (auto simp: putRequest_def split: if_splits option.splits dest!: write_to_cases)

lemma putRequest_keeps:
  "putRequest E io i d st = (ok, st') \<Longrightarrow> mget (st_requests st) j = Some b \<Longrightarrow> mget (st_requests st') j = Some b"
  by (auto simp: putRequest_def split: if_splits option.splits dest!: write_to_cases)

lemma putRequest_stores:
  "putRequest E io i d st = (True, st') \<Longrightarrow> mget (st_requests st') i = Some d \<and> validOperationID (ev_unicode E) i"
  by (auto simp: putRequest_def split: if_splits option.splits dest!: write_to_cases)

lemma saveOperation_cases:
  assumes "saveOperation E io op st = (ok, st')"
  obtains "st' = st" and "\<not> ok"
  | "ValidateOperation E op" and "st' = st\<lparr>st_operations := mput (op_ID op) (op, io_time io) (st_operations st)\<rparr>"
  using assms by (auto simp: saveOperation_def split: if_splits dest!: write_to_cases)

lemma saveOperation_True:
  "saveOperation E io op st = (True, st') \<Longrightarrow>
     ValidateOperation E op \<and> st' = st\<lparr>st_operations := mput (op_ID op) (op, io_time io) (st_operations st)\<rparr>"
  by (auto simp: saveOperation_def split: if_splits dest!: write_to_cases)

lemma loadOperation_Loaded:
  "loadOperation E io i st = Loaded op \<Longrightarrow> validOperationID (ev_unicode E) i \<and> ValidateOperation E op \<and> op_ID op = i
     \<and> (\<exists>t. mget (st_operations st) i = Some (op, t))"
  by (auto simp: loadOperation_def split: if_splits option.splits)

lemma loadOperation_NotExist:
  "loadOperation E io i st = NotExist \<Longrightarrow> validOperationID (ev_unicode E) i \<and> mget (st_operations st) i = None"
  by (auto simp: loadOperation_def split: if_splits option.splits)

lemma loadRequest_Loaded:
  "loadRequest E io i st = Loaded r \<Longrightarrow> validOperationID (ev_unicode E) i
     \<and> (\<exists>b. mget (st_requests st) i = Some b \<and> DecodeRequest (ev_codec E) b = Some r \<and> CanonicalRequest (ev_codec E) r = Some b)"
  by (auto simp: loadRequest_def split: if_splits option.splits)

lemma removeOperation_cases:
  assumes "removeOperation E io i st = (ok, st')"
  shows "st' = st \<or> st' = st\<lparr>st_operations := mdel i (st_operations st)\<rparr>
     \<or> st' = st\<lparr>st_operations := mdel i (st_operations st), st_requests := mdel i (st_requests st)\<rparr>"
  using assms by (auto simp: removeOperation_def Let_def split: if_splits removal.splits)

lemma length_mdel:
  "gomap_ok m \<Longrightarrow> k \<in> fst ` set m \<Longrightarrow> length (mdel k m) + 1 = length m"
proof (induction m)
  case (Cons a m)
  obtain k' v where [simp]: "a = (k', v)" by (cases a)
  show ?case
  proof (cases "k = k'")
    case True
    with Cons.prems have "k \<notin> fst ` set m" by (auto simp: gomap_ok_def)
    then show ?thesis using True by (simp add: delete_idem)
  next
    case False
    with Cons show ?thesis by (auto simp: gomap_ok_def)
  qed
qed simp

lemma length_mput:
  "gomap_ok m \<Longrightarrow> length (mput k v m) = (if mhas m k then length m else length m + 1)"
proof (induction m)
  case (Cons a m)
  then show ?case by (cases a) (auto simp: gomap_ok_def mhas_def)
qed (simp add: mhas_def)

section \<open>Jobs and the files behind them\<close>

definition pending_at :: "'x environment \<Rightarrow> store \<Rightarrow> string \<Rightarrow> bool" where
  "pending_at E st i \<longleftrightarrow> validOperationID (ev_unicode E) i
     \<and> (case mget (st_operations st) i of None \<Rightarrow> False
        | Some (op, t) \<Rightarrow> op_Status op = OperationPending \<and> op_ID op = i \<and> ValidateOperation E op)"

definition request_at :: "'x environment \<Rightarrow> store \<Rightarrow> string \<Rightarrow> string \<Rightarrow> bool" where
  "request_at E st i data \<longleftrightarrow> mget (st_requests st) i = Some data
     \<and> i = operationIDFromDigest (js_SHA256 (ev_codec E) data)"

text \<open>The job \<open>i\<close> of request \<open>r\<close> can be found again in the files.\<close>

definition stored_job :: "'x environment \<Rightarrow> store \<Rightarrow> string \<Rightarrow> Request \<Rightarrow> bool" where
  "stored_job E st i r \<longleftrightarrow> pending_at E st i \<and> (case CanonicalRequest (ev_codec E) r of None \<Rightarrow> False
     | Some data \<Rightarrow> request_at E st i data)"

lemma OperationID_Some:
  "OperationID E r = Some i \<longleftrightarrow> (\<exists>b. CanonicalRequest (ev_codec E) r = Some b
     \<and> i = operationIDFromDigest (js_SHA256 (ev_codec E) b))"
  by (auto simp: OperationID_def RequestDigest_def)

lemma stored_job_loaded:
  assumes "loadOperation E io i st = Loaded op" and "op_Status op = OperationPending"
    and "loadRequest E io i st = Loaded r" and "OperationID E r = Some i"
  shows "stored_job E st i r"
  using loadOperation_Loaded [OF assms(1)] loadRequest_Loaded [OF assms(3)] assms(2,4)
  by (auto simp: stored_job_def pending_at_def request_at_def OperationID_Some)

lemma stored_job_saved:
  assumes "saveOperation E io (pendingOperation C i) st = (True, st')" and "CanonicalRequest (ev_codec E) r = Some b"
    and "request_at E st i b" and "validOperationID (ev_unicode E) i"
  shows "stored_job E st' i r"
  using saveOperation_True [OF assms(1)] assms(2-)
  by (auto simp: stored_job_def pending_at_def request_at_def pendingOperation_def)

section \<open>Properties that every step keeps\<close>

definition room :: "config \<Rightarrow> store \<Rightarrow> string \<Rightarrow> bool" where
  "room C st i \<longleftrightarrow> mhas (st_operations st) i \<or> length (st_operations st) < cf_maxStoredOperations C"

definition evictable :: "'x environment \<Rightarrow> service \<Rightarrow> string \<Rightarrow> bool" where
  "evictable E s i \<longleftrightarrow> \<not> mhas (sv_active s) i \<and> validOperationID (ev_unicode E) i
     \<and> (case mget (st_operations (sv_store s)) i of None \<Rightarrow> False
        | Some (op, t) \<Rightarrow> op_Status op = OperationPending \<longrightarrow> mhas (sv_terminalErrors s) i)"

locale service_invariant =
  fixes E :: "'x environment" and C :: config and I :: "service \<Rightarrow> bool"
  assumes put: "I s \<Longrightarrow> putRequest E io i data (sv_store s) = (ok, st) \<Longrightarrow> I (s\<lparr>sv_store := st\<rparr>)"
    and accept: "I s \<Longrightarrow> room C (sv_store s) i \<Longrightarrow> validOperationID (ev_unicode E) i
      \<Longrightarrow> CanonicalRequest (ev_codec E) r = Some b \<Longrightarrow> request_at E (sv_store s) i b
      \<Longrightarrow> saveOperation E io (pendingOperation C i) (sv_store s) = (ok, st) \<Longrightarrow> I (s\<lparr>sv_store := st\<rparr>)"
    and start: "I s \<Longrightarrow> stored_job E (sv_store s) i r \<Longrightarrow> I (startLocked E C i r s)"
    and evict: "I s \<Longrightarrow> evictable E s i \<Longrightarrow> removeOperation E io i (sv_store s) = (True, st)
      \<Longrightarrow> I (s\<lparr>sv_store := st, sv_terminalErrors := mdel i (sv_terminalErrors s)\<rparr>)"
    and evict_failed: "I s \<Longrightarrow> evictable E s i \<Longrightarrow> removeOperation E io i (sv_store s) = (False, st)
      \<Longrightarrow> I (s\<lparr>sv_store := st\<rparr>)"
    and generate: "I s \<Longrightarrow> mget (sv_workers s) i = Some (Generating r) \<Longrightarrow> (g = Cancelled \<longrightarrow> sv_closed s)
      \<Longrightarrow> I (runGeneration E C io i r g s)"
    and finish: "I s \<Longrightarrow> mget (sv_workers s) i = Some (Finishing op) \<Longrightarrow> I (finishGeneration E C io i op s)"
    and leave: "I s \<Longrightarrow> mget (sv_workers s) i = Some Leaving \<Longrightarrow> generationDone C i s = Some s' \<Longrightarrow> I s'"
    and handlers: "I s \<Longrightarrow> I (s\<lparr>sv_handlers := n\<rparr>)"
    and close: "I s \<Longrightarrow> I (s\<lparr>sv_closed := True\<rparr>)"
begin

lemma evictable_loaded:
  assumes "\<not> mhas (sv_active s) i" and "loadOperation E io i (sv_store s) = Loaded op"
    and "\<not> (op_Status op = OperationPending \<and> \<not> mhas (sv_terminalErrors s) i)"
  shows "evictable E s i"
  using loadOperation_Loaded [OF assms(2)] assms(1,3) by (auto simp: evictable_def)

lemma evictLoop_keeps:
  "evictLoop E io limit infos remaining s = (ok, s') \<Longrightarrow> I s \<Longrightarrow> I s'"
proof (induction infos arbitrary: remaining s)
  case (Cons info infos)
  obtain i t where [simp]: "info = (i, t)" by (cases info)
  note IH = Cons.IH
  from Cons.prems show ?case
    by (auto split: if_splits loaded.splits prod.splits bool.splits dest: IH
        intro: evict_failed [OF _ evictable_loaded] IH [OF _ evict [OF _ evictable_loaded]])
qed simp

lemma evictOperations_keeps:
  "evictOperations E io limit s = (ok, s') \<Longrightarrow> I s \<Longrightarrow> I s'"
  by (auto simp: evictOperations_def split: option.splits if_splits intro: evictLoop_keeps)

lemma accepted_keeps:
  assumes "I s" and "room C (sv_store s) i" and "validOperationID (ev_unicode E) i"
    and "CanonicalRequest (ev_codec E) r = Some b" and "request_at E (sv_store s) i b"
    and "saveOperation E io (pendingOperation C i) (sv_store s) = (True, st)"
  shows "I (startLocked E C i r (s\<lparr>sv_store := st\<rparr>))"
  using start [OF accept [OF assms(1-6)]] stored_job_saved [OF assms(6,4,5,3)] by simp

lemma admitLoaded_keeps:
  assumes "admitLoaded E C io i r loaded s = (reply, s')" and I: "I s"
    and valid: "validOperationID (ev_unicode E) i" "CanonicalRequest (ev_codec E) r = Some b" "request_at E (sv_store s) i b"
    and new: "loaded = NotExist \<Longrightarrow> room C (sv_store s) i"
    and old: "\<And>op. loaded = Loaded op \<Longrightarrow> ValidateOperation E op \<and> op_ID op = i \<and> (\<exists>t. mget (st_operations (sv_store s)) i = Some (op, t))"
  shows "I s'"
proof (cases loaded)
  case NotExist
  with assms(1) show ?thesis
    by (auto simp: admitLoaded_def split: prod.splits bool.splits intro: accept [OF I new valid] accepted_keeps [OF I new valid])
next
  case (Loaded op)
  with old have op: "ValidateOperation E op" "op_ID op = i" and stored: "\<exists>t. mget (st_operations (sv_store s)) i = Some (op, t)"
    by auto
  then have room: "room C (sv_store s) i" by (auto simp: room_def mhas_def)
  have "stored_job E (sv_store s) i r" if "op_Status op = OperationPending"
    using that op stored valid by (auto simp: stored_job_def pending_at_def)
  with assms(1) Loaded I show ?thesis
    by (auto simp: admitLoaded_def split: if_splits prod.splits bool.splits
        intro: start [OF I] accept [OF I room valid] accepted_keeps [OF I room valid])
next
  case LoadError
  with assms(1) I show ?thesis by (simp add: admitLoaded_def)
qed

lemma persistAndAdmit_keeps:
  assumes "persistAndAdmit E C io i r b loaded s = (reply, s')" and I: "I s"
    and valid: "CanonicalRequest (ev_codec E) r = Some b" "i = operationIDFromDigest (js_SHA256 (ev_codec E) b)"
    and new: "loaded = NotExist \<Longrightarrow> room C (sv_store s) i"
    and old: "\<And>op. loaded = Loaded op \<Longrightarrow> ValidateOperation E op \<and> op_ID op = i \<and> (\<exists>t. mget (st_operations (sv_store s)) i = Some (op, t))"
  shows "I s'"
proof -
  obtain ok st where put': "putRequest E io i b (sv_store s) = (ok, st)" by fastforce
  note I' = put [OF I put'] and ops = putRequest_operations [OF put']
  show ?thesis
  proof (cases ok)
    case False
    with assms(1) put' I' show ?thesis by (simp add: persistAndAdmit_def)
  next
    case True
    with put' have "putRequest E io i b (sv_store s) = (True, st)" by simp
    from putRequest_stores [OF this] valid(2) have req: "request_at E st i b" "validOperationID (ev_unicode E) i"
      by (simp_all add: request_at_def)
    show ?thesis
    proof (rule admitLoaded_keeps [OF _ I' req(2) valid(1)])
      show "admitLoaded E C io i r loaded (s\<lparr>sv_store := st\<rparr>) = (reply, s')"
        using assms(1) put' True by (simp add: persistAndAdmit_def)
    qed (use req(1) new old ops in \<open>simp_all add: room_def\<close>)
  qed
qed

lemma admitRequest_keeps:
  assumes "admitRequest E C io i r b s = (reply, s')" and I: "I s"
    and valid: "CanonicalRequest (ev_codec E) r = Some b" "i = operationIDFromDigest (js_SHA256 (ev_codec E) b)"
  shows "I s'"
proof (cases "loadOperation E io i (sv_store s)")
  case NotExist
  obtain ok s1 where ev: "evictOperations E io (cf_maxStoredOperations C - 1) s = (ok, s1)" by fastforce
  note I1 = evictOperations_keeps [OF ev I]
  have "room C (sv_store s1) i" if "listOperations E io (sv_store s1) = Some ids" "length ids < cf_maxStoredOperations C" for ids
    using that by (auto simp: room_def listOperations_def split: if_splits)
  with assms(1) NotExist ev I I1 show ?thesis
    by (auto simp: admitRequest_def not_le split: if_splits option.splits bool.splits intro: persistAndAdmit_keeps [OF _ I1 valid])
next
  case (Loaded op)
  with assms(1) I show ?thesis
    by (auto simp: admitRequest_def split: if_splits dest: loadOperation_Loaded intro: persistAndAdmit_keeps [OF _ I valid])
next
  case LoadError
  with assms(1) I show ?thesis
    by (auto simp: admitRequest_def split: if_splits intro: persistAndAdmit_keeps [OF _ I valid])
qed

lemma handleCatalogSet_keeps:
  "handleCatalogSet E C io post s = (reply, s') \<Longrightarrow> I s \<Longrightarrow> I s'"
  by (auto simp: handleCatalogSet_def RequestDigest_def split: if_splits option.splits intro: admitRequest_keeps)

lemma pollLoaded_keeps:
  assumes "pollLoaded E C io i r op s = (reply, s')" and "I s"
    and "op_Status op = OperationPending \<Longrightarrow> stored_job E (sv_store s) i r"
  shows "I s'"
  using assms by (auto simp: pollLoaded_def split: if_splits intro: start)

lemma handleOperation_keeps:
  assumes "handleOperation E C io query path s = (reply, s')" and I: "I s"
  shows "I s'"
proof -
  define i where "i = trim_prefix ''/v1/operations/'' path"
  show ?thesis
  proof (cases "loadOperation E io i (sv_store s)")
    case (Loaded op)
    note op = loadOperation_Loaded [OF Loaded]
    then have room: "room C (sv_store s) i" by (auto simp: room_def mhas_def)
    show ?thesis
    proof (cases "loadRequest E io i (sv_store s)")
      case req: (Loaded r)
      obtain ok st where save: "saveOperation E io (pendingOperation C i) (sv_store s) = (ok, st)" by fastforce
      have canonical: "\<exists>b. CanonicalRequest (ev_codec E) r = Some b \<and> request_at E (sv_store s) i b" if "OperationID E r = Some i"
        using that loadRequest_Loaded [OF req] by (auto simp: OperationID_Some request_at_def)
      have I': "I (s\<lparr>sv_store := st\<rparr>)" if "OperationID E r = Some i"
        using canonical [OF that] accept [OF I room _ _ _ save] op by blast
      have job: "stored_job E (sv_store s) i r" if "op_Status op = OperationPending" "OperationID E r = Some i"
        using stored_job_loaded [OF Loaded _ req] that by blast
      have job': "stored_job E st i r" if "OperationID E r = Some i" ok
        using canonical [OF that(1)] save that(2) op by (auto intro: stored_job_saved)
      show ?thesis
        using assms(1) I I' job job' save Loaded req unfolding handleOperation_def i_def [symmetric] Let_def
        by (auto split: if_splits bool.splits intro: pollLoaded_keeps [OF _ I] pollLoaded_keeps [OF _ I'])
    qed (use assms Loaded in \<open>auto simp: handleOperation_def i_def Let_def split: if_splits\<close>)
  qed (use assms in \<open>auto simp: handleOperation_def i_def Let_def split: if_splits\<close>)
qed

lemma serveRoute_keeps:
  "serveRoute E C io document request s = (reply, s') \<Longrightarrow> I s \<Longrightarrow> I s'"
  by (auto simp: serveRoute_def split: sum.splits route.splits intro: handleCatalogSet_keeps handleOperation_keeps)

lemma service_step_keeps: "service_step E C s s' \<Longrightarrow> I s \<Longrightarrow> I s'"
  by (erule service_stepE)
    (auto simp: enterHandler_def split: if_splits
      intro: handlers serveRoute_keeps [THEN handlers] generate finish leave close)

lemma startLocked_store [simp]: "sv_store (startLocked E C i r s) = sv_store s"
  by (simp add: startLocked_def launchGeneration_def split: option.split)

lemma starts_keep:
  "(\<forall>(i, r) \<in> set jobs. stored_job E (sv_store s) i r) \<Longrightarrow> I s
     \<Longrightarrow> I (foldl (\<lambda>s (i, r). startLocked E C i r s) s jobs)"
proof (induction jobs arbitrary: s)
  case (Cons job jobs)
  then show ?case by (cases job) (auto intro!: Cons.IH start)
qed simp

lemma resumed_jobs:
  assumes "for_result (resumeOne E io st) ids jobs = Inr jobs'" and "\<forall>(i, r) \<in> set jobs. stored_job E st i r"
  shows "\<forall>(i, r) \<in> set jobs'. stored_job E st i r"
  using assms
  by (rule for_result_invariant)
    (auto simp: resumeOne_def split: loaded.splits if_splits intro: stored_job_loaded)

lemma startService_establishes:
  assumes "startService E C io st = Inr s" and "I (emptyService st)"
  shows "I s"
  using assms unfolding startService_def resumePending_def
  by (auto split: option.splits sum.splits if_splits dest!: resumed_jobs intro!: starts_keep simp: emptyService_def)

theorem reachable_keeps:
  assumes "reachable E C st s" and "I (emptyService st)"
  shows "I s"
  using assms by induction (auto intro: startService_establishes service_step_keeps)

end

section \<open>The scheduler\<close>

definition running :: "service \<Rightarrow> string set" where
  "running s = fst ` set (sv_active s)"

definition waiting :: "service \<Rightarrow> string set" where
  "waiting s = fst ` set (sv_queued s)"

definition tables_ok :: "service \<Rightarrow> bool" where
  "tables_ok s \<longleftrightarrow> gomap_ok (sv_active s) \<and> gomap_ok (sv_queued s) \<and> gomap_ok (sv_workers s)
     \<and> fst ` set (sv_workers s) = running s"

definition queue_ok :: "service \<Rightarrow> bool" where
  "queue_ok s \<longleftrightarrow> distinct (sv_queue s) \<and> set (sv_queue s) = waiting s \<and> running s \<inter> waiting s = {}
     \<and> waiting s \<inter> fst ` set (sv_terminalErrors s) = {}"

definition slots_ok :: "config \<Rightarrow> service \<Rightarrow> bool" where
  "slots_ok C s \<longleftrightarrow> sv_slots s = length (sv_active s) \<and> sv_slots s \<le> cf_slots C
     \<and> length (sv_active s) + length (sv_queued s) \<le> cf_maxPending C
     \<and> (sv_closed s \<or> sv_queue s = [] \<or> sv_slots s = cf_slots C)"

definition finishing_ok :: "service \<Rightarrow> bool" where
  "finishing_ok s \<longleftrightarrow> (\<forall>i op. mget (sv_workers s) i = Some (Finishing op) \<longrightarrow> op_ID op = i)"

definition scheduler_ok :: "config \<Rightarrow> service \<Rightarrow> bool" where
  "scheduler_ok C s \<longleftrightarrow> tables_ok s \<and> queue_ok s \<and> slots_ok C s \<and> finishing_ok s"

lemmas scheduler_parts = scheduler_ok_def tables_ok_def queue_ok_def slots_ok_def finishing_ok_def running_def waiting_def

lemma mhas_keys: "mhas m k \<longleftrightarrow> k \<in> fst ` set m"
  by (simp add: mhas_iff)

lemma length_mput_fresh: "k \<notin> fst ` set m \<Longrightarrow> length (mput k v m) = length m + 1"
  by (simp add: mput_fresh)

lemma running_simps [simp]:
  "running (s\<lparr>sv_store := st\<rparr>) = running s" "waiting (s\<lparr>sv_store := st\<rparr>) = waiting s"
  "running (s\<lparr>sv_terminalErrors := te\<rparr>) = running s" "waiting (s\<lparr>sv_terminalErrors := te\<rparr>) = waiting s"
  "running (s\<lparr>sv_workers := w\<rparr>) = running s" "waiting (s\<lparr>sv_workers := w\<rparr>) = waiting s"
  "running (s\<lparr>sv_handlers := n\<rparr>) = running s" "waiting (s\<lparr>sv_handlers := n\<rparr>) = waiting s"
  "running (s\<lparr>sv_closed := b\<rparr>) = running s" "waiting (s\<lparr>sv_closed := b\<rparr>) = waiting s"
  by (simp_all add: running_def waiting_def)

lemma store_last:
  "s\<lparr>sv_store := st, sv_terminalErrors := te\<rparr> = s\<lparr>sv_terminalErrors := te\<rparr>\<lparr>sv_store := st\<rparr>"
  "s\<lparr>sv_store := st, sv_workers := w\<rparr> = s\<lparr>sv_workers := w\<rparr>\<lparr>sv_store := st\<rparr>"
  by simp_all

lemma scheduler_frame:
  "scheduler_ok C (s\<lparr>sv_store := st\<rparr>) = scheduler_ok C s"
  "scheduler_ok C (s\<lparr>sv_handlers := n\<rparr>) = scheduler_ok C s"
  by (simp_all add: scheduler_ok_def tables_ok_def queue_ok_def slots_ok_def finishing_ok_def)

lemma scheduler_close: "scheduler_ok C s \<Longrightarrow> scheduler_ok C (s\<lparr>sv_closed := True\<rparr>)"
  by (simp add: scheduler_ok_def tables_ok_def queue_ok_def slots_ok_def finishing_ok_def)

lemma scheduler_errors:
  assumes "scheduler_ok C s" and "fst ` set te \<subseteq> fst ` set (sv_terminalErrors s) \<union> - waiting s"
  shows "scheduler_ok C (s\<lparr>sv_terminalErrors := te\<rparr>)"
proof -
  from assms have "waiting s \<inter> fst ` set te = {}" unfolding scheduler_ok_def queue_ok_def by blast
  with assms(1) show ?thesis
    by (simp add: scheduler_ok_def tables_ok_def queue_ok_def slots_ok_def finishing_ok_def) auto
qed

lemma scheduler_worker:
  assumes "scheduler_ok C s" and "i \<in> running s" and "\<And>op. w = Finishing op \<Longrightarrow> op_ID op = i"
  shows "scheduler_ok C (s\<lparr>sv_workers := mput i w (sv_workers s)\<rparr>)"
proof -
  from assms(1) have parts: "tables_ok s" "queue_ok s" "slots_ok C s" "finishing_ok s" by (simp_all add: scheduler_ok_def)
  from parts(1) assms(2) have "tables_ok (s\<lparr>sv_workers := mput i w (sv_workers s)\<rparr>)"
    by (auto simp: tables_ok_def)
  moreover from parts(4) assms(3) have "finishing_ok (s\<lparr>sv_workers := mput i w (sv_workers s)\<rparr>)"
    by (auto simp: finishing_ok_def)
  ultimately show ?thesis using parts(2,3) by (auto simp: scheduler_ok_def queue_ok_def slots_ok_def)
qed

lemma keys_mdel_subset: "fst ` set (mdel k m) \<subseteq> fst ` set m"
  by (auto simp: keys_mdel)

text \<open>A job that is neither running nor waiting is started, in a free slot or at the end of the queue.\<close>

lemma launch_ok:
  assumes "scheduler_ok C s" and "i \<notin> running s" "i \<notin> waiting s" and "sv_slots s < cf_slots C"
    and "length (sv_active s) + length (sv_queued s) < cf_maxPending C" and "sv_closed s \<or> sv_queue s = []"
  shows "scheduler_ok C (launchGeneration i r (s\<lparr>sv_slots := sv_slots s + 1\<rparr>))"
proof -
  from assms(1) have parts: "tables_ok s" "queue_ok s" "slots_ok C s" "finishing_ok s" by (simp_all add: scheduler_ok_def)
  let ?s = "launchGeneration i r (s\<lparr>sv_slots := sv_slots s + 1\<rparr>)"
  have run: "running ?s = insert i (running s)" "waiting ?s = waiting s"
    by (simp_all add: running_def waiting_def launchGeneration_def)
  have "tables_ok ?s" using parts(1) run by (simp add: tables_ok_def launchGeneration_def)
  moreover have "queue_ok ?s" using parts(2) run assms(3) by (simp add: queue_ok_def launchGeneration_def)
  moreover have "slots_ok C ?s"
    using parts(3) assms(2,4-6) by (auto simp: slots_ok_def launchGeneration_def length_mput_fresh running_def)
  moreover have "finishing_ok ?s" using parts(4) by (auto simp: finishing_ok_def launchGeneration_def)
  ultimately show ?thesis by (simp add: scheduler_ok_def)
qed

lemma enqueue_ok:
  assumes "scheduler_ok C s" and "i \<notin> running s" "i \<notin> waiting s" "\<not> mhas (sv_terminalErrors s) i"
    and "sv_slots s = cf_slots C" and "length (sv_active s) + length (sv_queued s) < cf_maxPending C"
  shows "scheduler_ok C (s\<lparr>sv_queued := mput i r (sv_queued s), sv_queue := sv_queue s @ [i]\<rparr>)"
proof -
  from assms(1) have parts: "tables_ok s" "queue_ok s" "slots_ok C s" "finishing_ok s" by (simp_all add: scheduler_ok_def)
  let ?s = "s\<lparr>sv_queued := mput i r (sv_queued s), sv_queue := sv_queue s @ [i]\<rparr>"
  have run: "running ?s = running s" "waiting ?s = insert i (waiting s)" by (simp_all add: running_def waiting_def)
  have "tables_ok ?s" using parts(1) run by (simp add: tables_ok_def)
  moreover have "queue_ok ?s" using parts(2) run assms(2-4) by (auto simp: queue_ok_def mhas_keys)
  moreover have "slots_ok C ?s"
    using parts(3) assms(3,5,6) by (auto simp: slots_ok_def length_mput_fresh waiting_def)
  moreover have "finishing_ok ?s" using parts(4) by (simp add: finishing_ok_def)
  ultimately show ?thesis by (simp add: scheduler_ok_def)
qed

lemma startLocked_scheduler:
  assumes ok: "scheduler_ok C s"
  shows "scheduler_ok C (startLocked E C i r s)"
proof (cases "sv_closed s \<or> mhas (sv_terminalErrors s) i \<or> mhas (sv_active s) i \<or> mhas (sv_queued s) i
    \<or> \<not> generationCapacityAvailable C s i")
  case True
  with ok show ?thesis by (auto simp: startLocked_def)
next
  case False
  then have new: "i \<notin> running s" "i \<notin> waiting s" and room: "length (sv_active s) + length (sv_queued s) < cf_maxPending C"
    by (auto simp: running_def waiting_def mhas_keys generationCapacityAvailable_def split: if_splits)
  show ?thesis
  proof (cases "cloneRequest E r")
    case None
    have "scheduler_ok C (s\<lparr>sv_terminalErrors := mput i () (sv_terminalErrors s)\<rparr>)"
      using ok new(2) by (intro scheduler_errors) auto
    with False None show ?thesis by (simp add: startLocked_def)
  next
    case (Some cloned)
    show ?thesis
    proof (cases "sv_slots s < cf_slots C")
      case True
      with ok False have "sv_queue s = []" by (auto simp: scheduler_ok_def slots_ok_def)
      then have "sv_closed s \<or> sv_queue s = []" ..
      from launch_ok [OF ok new True room this] True Some False show ?thesis by (simp add: startLocked_def)
    next
      case slots: False
      with ok have "sv_slots s = cf_slots C" by (simp add: scheduler_ok_def slots_ok_def)
      from enqueue_ok [OF ok new _ this room] slots Some False show ?thesis by (simp add: startLocked_def)
    qed
  qed
qed

text \<open>When a worker leaves, its slot goes to the job at the head of the queue.\<close>

definition departed :: "string \<Rightarrow> service \<Rightarrow> service" where
  "departed i s = s\<lparr>sv_active := mdel i (sv_active s), sv_slots := sv_slots s - 1, sv_workers := mdel i (sv_workers s)\<rparr>"

lemma departed_fields [simp]:
  "sv_queue (departed i s) = sv_queue s" "sv_queued (departed i s) = sv_queued s" "sv_closed (departed i s) = sv_closed s"
  "sv_terminalErrors (departed i s) = sv_terminalErrors s" "sv_store (departed i s) = sv_store s"
  "sv_workers (departed i s) = mdel i (sv_workers s)" "running (departed i s) = running s - {i}" "waiting (departed i s) = waiting s"
  by (simp_all add: departed_def running_def waiting_def keys_mdel)

lemma departed_length:
  "gomap_ok (sv_active s) \<Longrightarrow> i \<in> running s \<Longrightarrow> length (sv_active (departed i s)) + 1 = length (sv_active s)"
  unfolding running_def departed_def using length_mdel [of "sv_active s" i] by simp

lemma generationDone_cases:
  assumes ok: "scheduler_ok C s" and i: "i \<in> running s"
  obtains "sv_closed s \<or> sv_queue s = []" and "generationDone C i s = Some (departed i s)"
  | j r rest where "\<not> sv_closed s" and "sv_queue s = j # rest" and "mget (sv_queued s) j = Some r"
      and "generationDone C i s = Some (launchGeneration j r ((departed i s)\<lparr>sv_queue := rest,
             sv_queued := mdel j (sv_queued s), sv_slots := sv_slots (departed i s) + 1\<rparr>))"
proof -
  from ok have parts: "tables_ok s" "queue_ok s" "slots_ok C s" by (simp_all add: scheduler_ok_def)
  from i have "sv_active s \<noteq> []" by (auto simp: running_def)
  with parts(3) have slots: "0 < sv_slots s" "sv_slots s - 1 < cf_slots C"
    by (cases "sv_active s"; auto simp: slots_ok_def)+
  show ?thesis
  proof (cases "sv_closed s \<or> sv_queue s = []")
    case True
    with slots have "generationDone C i s = Some (departed i s)"
      by (auto simp: generationDone_def departed_def Let_def)
    with True show ?thesis by (rule that(1))
  next
    case False
    then obtain j rest where q: "sv_queue s = j # rest" by (cases "sv_queue s") auto
    with parts(2) have j: "j \<in> fst ` set (sv_queued s)" "j \<notin> fst ` set (sv_terminalErrors s)"
      by (auto simp: queue_ok_def waiting_def)
    then obtain r where r: "mget (sv_queued s) j = Some r" using in_keys_mget [of j "sv_queued s"] by auto
    have "generationDone C i s = Some (launchGeneration j r ((departed i s)\<lparr>sv_queue := rest,
             sv_queued := mdel j (sv_queued s), sv_slots := sv_slots (departed i s) + 1\<rparr>))"
      using False slots q r j(2) by (simp add: generationDone_def departed_def Let_def mhas_keys)
    with False q r show ?thesis by (intro that(2)) auto
  qed
qed

lemma generationDone_scheduler:
  assumes ok: "scheduler_ok C s" and i: "i \<in> running s" and run: "generationDone C i s = Some s'"
  shows "scheduler_ok C s'"
  using ok i
proof (cases rule: generationDone_cases)
  case 1
  have parts: "tables_ok s" "queue_ok s" "slots_ok C s" "finishing_ok s" using ok by (simp_all add: scheduler_ok_def)
  note len = departed_length [OF _ i]
  have "tables_ok (departed i s)" using parts(1) by (simp add: tables_ok_def keys_mdel) (simp add: departed_def)
  moreover have "queue_ok (departed i s)" using parts(2) by (auto simp: queue_ok_def)
  moreover have "slots_ok C (departed i s)"
    using parts(1,3) len 1(1) by (auto simp: slots_ok_def tables_ok_def) (auto simp: departed_def)
  moreover have "finishing_ok (departed i s)" using parts(4) by (simp add: finishing_ok_def)
  ultimately show ?thesis using 1(2) run by (simp add: scheduler_ok_def)
next
  case (2 j r rest)
  have parts: "tables_ok s" "queue_ok s" "slots_ok C s" "finishing_ok s" using ok by (simp_all add: scheduler_ok_def)
  let ?t = "(departed i s)\<lparr>sv_queue := rest, sv_queued := mdel j (sv_queued s)\<rparr>"
  have len: "length (sv_active (departed i s)) + 1 = length (sv_active s)" "length (mdel j (sv_queued s)) + 1 = length (sv_queued s)"
    using departed_length [OF _ i] length_mdel [of "sv_queued s" j] mget_Some_in_keys [OF 2(3)] parts(1)
    by (simp_all add: tables_ok_def)
  have sets: "running ?t = running s - {i}" "waiting ?t = waiting s - {j}"
    by (simp_all add: running_def waiting_def keys_mdel departed_def)
  have slots: "sv_slots ?t = sv_slots s - 1" by (simp add: departed_def)
  let ?s = "launchGeneration j r (?t\<lparr>sv_slots := sv_slots ?t + 1\<rparr>)"
  have j: "j \<in> waiting s" using parts(2) 2(2) by (auto simp: queue_ok_def)
  have run': "running ?s = insert j (running s - {i})" "waiting ?s = waiting s - {j}"
    using sets by (simp_all add: running_def waiting_def launchGeneration_def)
  have "tables_ok ?s" using parts(1) run'
    by (simp add: tables_ok_def launchGeneration_def keys_mdel) (simp add: departed_def)
  moreover have "queue_ok ?s"
  proof -
    have "distinct (j # rest)" "set (j # rest) = waiting s" "running s \<inter> waiting s = {}"
      "waiting s \<inter> fst ` set (sv_terminalErrors s) = {}" using parts(2) 2(2) by (simp_all add: queue_ok_def)
    moreover have "sv_queue ?s = rest" "sv_terminalErrors ?s = sv_terminalErrors s" by (simp_all add: launchGeneration_def)
    ultimately show ?thesis unfolding queue_ok_def run' by auto
  qed
  moreover have "slots_ok C ?s"
  proof -
    have "j \<notin> fst ` set (sv_active (departed i s))" using sets parts(2) j by (auto simp: queue_ok_def running_def departed_def keys_mdel)
    then have "length (sv_active ?s) = length (sv_active s)" using len by (simp add: launchGeneration_def length_mput_fresh)
    moreover have "sv_slots ?s = sv_slots s" using slots parts(3) len(1) by (simp add: launchGeneration_def slots_ok_def)
    moreover have "sv_queued ?s = mdel j (sv_queued s)" by (simp add: launchGeneration_def)
    ultimately show ?thesis using parts(3) len 2(1,2) by (auto simp: slots_ok_def)
  qed
  moreover have "finishing_ok ?s" using parts(4) by (auto simp: finishing_ok_def launchGeneration_def)
  ultimately show ?thesis using 2(4) run by (simp add: scheduler_ok_def)
qed

lemma worker_running: "scheduler_ok C s \<Longrightarrow> mget (sv_workers s) i = Some w \<Longrightarrow> i \<in> running s"
  by (auto simp: scheduler_ok_def tables_ok_def dest!: mget_Some_in_keys)

lemma generationDone_left:
  "scheduler_ok C s \<Longrightarrow> mget (sv_workers s) i = Some w \<Longrightarrow> generationDone C i s = Some s' \<Longrightarrow> scheduler_ok C s'"
  by (rule generationDone_scheduler [OF _ worker_running])

lemma generationResult_ID:
  "generationResult E C io i r g st = (Some op, st') \<Longrightarrow> op_ID op = i"
  by (auto simp: generationResult_def failedOperation_def completedOperation_def
      split: option.splits generation.splits prod.splits sum.splits publish_error.splits)

lemma runGeneration_scheduler:
  assumes "scheduler_ok C s" and "mget (sv_workers s) i = Some (Generating r)"
  shows "scheduler_ok C (runGeneration E C io i r g s)"
proof -
  obtain op st where run: "generationResult E C io i r g (sv_store s) = (op, st)" by fastforce
  let ?w = "case op of None \<Rightarrow> Leaving | Some op \<Rightarrow> Finishing op"
  have "scheduler_ok C (s\<lparr>sv_workers := mput i ?w (sv_workers s)\<rparr>)"
  proof (rule scheduler_worker [OF assms(1) worker_running [OF assms]])
    show "op_ID op' = i" if "?w = Finishing op'" for op'
      using that run generationResult_ID [of E C io i r g "sv_store s" op' st] by (simp split: option.splits)
  qed
  then show ?thesis unfolding runGeneration_def run prod.case store_last scheduler_frame .
qed

lemma finishOperation_frame:
  "sv_active (finishOperation E C io op s) = sv_active s" "sv_workers (finishOperation E C io op s) = sv_workers s"
  "sv_queued (finishOperation E C io op s) = sv_queued s" "sv_queue (finishOperation E C io op s) = sv_queue s"
  "sv_closed (finishOperation E C io op s) = sv_closed s" "sv_slots (finishOperation E C io op s) = sv_slots s"
  by (simp_all add: finishOperation_def Let_def split: prod.split bool.split)

lemma finishOperation_scheduler:
  assumes "scheduler_ok C s" and "op_ID op \<in> running s"
  shows "scheduler_ok C (finishOperation E C io op s)"
proof -
  obtain te st where fin: "finishOperation E C io op s = s\<lparr>sv_store := st, sv_terminalErrors := te\<rparr>"
    and te: "te = mput (op_ID op) () (sv_terminalErrors s) \<or> te = mdel (op_ID op) (sv_terminalErrors s)"
  proof (cases "saveOperation E io op (sv_store s)")
    case (Pair ok b)
    then show ?thesis
      using that [of "mput (op_ID op) () (sv_terminalErrors s)" b] that [of "mdel (op_ID op) (sv_terminalErrors s)"]
      by (cases ok) (simp_all add: finishOperation_def Let_def)
  qed
  have "op_ID op \<notin> waiting s" using assms by (auto simp: scheduler_ok_def queue_ok_def)
  then have "fst ` set te \<subseteq> fst ` set (sv_terminalErrors s) \<union> - waiting s"
    using te by (elim disjE) (simp_all add: keys_mdel subset_insertI2 le_supI1 Diff_subset)
  from scheduler_errors [OF assms(1) this] show ?thesis unfolding fin store_last scheduler_frame .
qed

lemma finishGeneration_scheduler:
  assumes "scheduler_ok C s" and "mget (sv_workers s) i = Some (Finishing op)"
  shows "scheduler_ok C (finishGeneration E C io i op s)"
proof -
  have i: "i \<in> running s" "op_ID op = i"
    using worker_running [OF assms] assms by (auto simp: scheduler_ok_def finishing_ok_def)
  have "i \<in> running (finishOperation E C io op s)" using i(1) by (simp add: running_def finishOperation_frame)
  moreover have "scheduler_ok C (finishOperation E C io op s)"
    by (rule finishOperation_scheduler [OF assms(1)]) (simp add: i)
  ultimately show ?thesis unfolding finishGeneration_def Let_def
    by (intro scheduler_worker) simp_all
qed

interpretation scheduler: service_invariant E C "scheduler_ok C" for E :: "'x environment" and C
proof
  fix s :: service and i op io st
  show "scheduler_ok C (s\<lparr>sv_store := st, sv_terminalErrors := mdel i (sv_terminalErrors s)\<rparr>)" if "scheduler_ok C s"
    unfolding store_last scheduler_frame by (rule scheduler_errors [OF that]) (simp add: keys_mdel_subset le_supI1)
qed (unfold scheduler_frame, (assumption | erule startLocked_scheduler runGeneration_scheduler finishGeneration_scheduler
      scheduler_close generationDone_left)+)

end
