(* ===== verification/CatalogJobs.thy ===== *)
theory CatalogJobs
  imports CatalogServiceInv
begin

text \<open>
  The jobs of the catalog service and their files: every waiting or running job is backed by a stored
  pending operation and a stored canonical request, so that a restart finds it again, and the number of
  stored operations stays within the quota.
\<close>

section \<open>The files behind the jobs\<close>

definition pending_ok :: "'x environment \<Rightarrow> service \<Rightarrow> bool" where
  "pending_ok E s \<longleftrightarrow> (\<forall>i \<in> waiting s. pending_at E (sv_store s) i)
     \<and> (\<forall>i w. mget (sv_workers s) i = Some w \<longrightarrow> w = Leaving \<or> pending_at E (sv_store s) i)"

definition request_ok :: "'x environment \<Rightarrow> store \<Rightarrow> string \<Rightarrow> Request \<Rightarrow> bool" where
  "request_ok E st i r \<longleftrightarrow> (\<exists>data. CanonicalRequest (ev_codec E) r = Some data \<and> request_at E st i data)"

definition requests_ok :: "'x environment \<Rightarrow> service \<Rightarrow> bool" where
  "requests_ok E s \<longleftrightarrow> (\<forall>i r. mget (sv_queued s) i = Some r \<longrightarrow> request_ok E (sv_store s) i r)
     \<and> (\<forall>i r. mget (sv_workers s) i = Some (Generating r) \<longrightarrow> request_ok E (sv_store s) i r)"

definition bounded_by :: "nat \<Rightarrow> store \<Rightarrow> bool" where
  "bounded_by n st \<longleftrightarrow> gomap_ok (st_operations st) \<and> length (st_operations st) \<le> n"

definition service_ok :: "'x environment \<Rightarrow> config \<Rightarrow> nat \<Rightarrow> service \<Rightarrow> bool" where
  "service_ok E C n s \<longleftrightarrow> scheduler_ok C s \<and> pending_ok E s \<and> (json_faithful (ev_codec E) \<longrightarrow> requests_ok E s)
     \<and> bounded_by (max n (cf_maxStoredOperations C)) (sv_store s)"

lemma stored_job_iff: "stored_job E st i r \<longleftrightarrow> pending_at E st i \<and> request_ok E st i r"
  by (auto simp: stored_job_def request_ok_def split: option.splits)

text \<open>A change of files that keeps what the jobs other than \<open>i\<close> rely on.\<close>

definition keeps_files :: "'x environment \<Rightarrow> string set \<Rightarrow> store \<Rightarrow> store \<Rightarrow> bool" where
  "keeps_files E X st st' \<longleftrightarrow> (\<forall>j. j \<notin> X \<longrightarrow> pending_at E st j \<longrightarrow> pending_at E st' j)
     \<and> (\<forall>j data. j \<notin> X \<longrightarrow> request_at E st j data \<longrightarrow> request_at E st' j data)"

lemma keeps_files_same:
  "st_operations st' = st_operations st \<Longrightarrow> st_requests st' = st_requests st \<Longrightarrow> keeps_files E X st st'"
  by (auto simp: keeps_files_def pending_at_def request_at_def)

lemma keeps_files_cong:
  assumes "st_operations st'' = st_operations st'" and "st_requests st'' = st_requests st'" and "keeps_files E X st st'"
  shows "keeps_files E X st st''"
proof -
  have "pending_at E st'' j = pending_at E st' j" "request_at E st'' j d = request_at E st' j d" for j d
    using assms(1,2) by (simp_all add: pending_at_def request_at_def)
  with assms(3) show ?thesis by (simp add: keeps_files_def)
qed

lemma keeps_files_put: "putRequest E io i d st = (ok, st') \<Longrightarrow> keeps_files E {} st st'"
  using putRequest_operations putRequest_keeps by (fastforce simp: keeps_files_def pending_at_def request_at_def)

lemma keeps_files_accept:
  assumes "saveOperation E io (pendingOperation C i) st = (ok, st')"
  shows "keeps_files E {} st st'"
  using assms
  by (cases rule: saveOperation_cases)
    (auto simp: keeps_files_def pending_at_def request_at_def pendingOperation_def)

lemma keeps_files_save:
  assumes "saveOperation E io op st = (ok, st')"
  shows "keeps_files E {op_ID op} st st'"
  using assms by (cases rule: saveOperation_cases) (auto simp: keeps_files_def pending_at_def request_at_def)

lemma keeps_files_remove: "removeOperation E io i st = (ok, st') \<Longrightarrow> keeps_files E {i} st st'"
  by (auto simp: keeps_files_def pending_at_def request_at_def dest!: removeOperation_cases)

lemma pending_ok_files:
  assumes "pending_ok E s" and "keeps_files E X (sv_store s) st"
    and "X \<inter> waiting s = {}" and "\<And>i. i \<in> X \<Longrightarrow> mget (sv_workers s) i = None \<or> mget (sv_workers s) i = Some Leaving"
  shows "pending_ok E (s\<lparr>sv_store := st\<rparr>)"
  using assms by (fastforce simp: pending_ok_def keeps_files_def)

lemma requests_ok_files:
  assumes "requests_ok E s" and "keeps_files E X (sv_store s) st"
    and "X \<inter> waiting s = {}" and "\<And>i. i \<in> X \<Longrightarrow> mget (sv_workers s) i = None \<or> mget (sv_workers s) i = Some Leaving"
  shows "requests_ok E (s\<lparr>sv_store := st\<rparr>)"
proof -
  have "request_ok E st i r" if "request_ok E (sv_store s) i r" "i \<notin> X" for i r
    using that assms(2) by (auto simp: request_ok_def keeps_files_def)
  moreover have "i \<notin> X" if "mget (sv_queued s) i = Some r" for i r
    using that assms(3) mget_Some_in_keys [OF that] by (auto simp: waiting_def)
  moreover have "i \<notin> X" if "mget (sv_workers s) i = Some (Generating r)" for i r
    using that assms(4) by fastforce
  ultimately show ?thesis using assms(1) by (simp add: requests_ok_def)
qed

lemma service_ok_files:
  assumes "service_ok E C n s" and "keeps_files E X (sv_store s) st" and "bounded_by (max n (cf_maxStoredOperations C)) st"
    and "X \<inter> waiting s = {}" and "\<And>i. i \<in> X \<Longrightarrow> mget (sv_workers s) i = None \<or> mget (sv_workers s) i = Some Leaving"
  shows "service_ok E C n (s\<lparr>sv_store := st\<rparr>)"
  using assms pending_ok_files [OF _ assms(2,4,5)] requests_ok_files [OF _ assms(2,4,5)]
  by (simp add: service_ok_def scheduler_frame)

lemma startLocked_outcome:
  "startLocked E C i r s = s
   \<or> startLocked E C i r s = s\<lparr>sv_terminalErrors := mput i () (sv_terminalErrors s)\<rparr> \<and> cloneRequest E r = None
   \<or> (\<exists>c. cloneRequest E r = Some c \<and> startLocked E C i r s = launchGeneration i c (s\<lparr>sv_slots := sv_slots s + 1\<rparr>))
   \<or> (\<exists>c. cloneRequest E r = Some c
        \<and> startLocked E C i r s = s\<lparr>sv_queued := mput i c (sv_queued s), sv_queue := sv_queue s @ [i]\<rparr>)"
  by (cases "cloneRequest E r") (simp_all add: startLocked_def)

lemma startLocked_cases:
  obtains "startLocked E C i r s = s"
  | "startLocked E C i r s = s\<lparr>sv_terminalErrors := mput i () (sv_terminalErrors s)\<rparr>" and "cloneRequest E r = None"
  | c where "cloneRequest E r = Some c" and "startLocked E C i r s = launchGeneration i c (s\<lparr>sv_slots := sv_slots s + 1\<rparr>)"
  | c where "cloneRequest E r = Some c"
      and "startLocked E C i r s = s\<lparr>sv_queued := mput i c (sv_queued s), sv_queue := sv_queue s @ [i]\<rparr>"
  using startLocked_outcome [of E C i r s] by (elim disjE conjE exE) (assumption | erule (1) that)+

lemma cloneRequest_ok:
  assumes "json_faithful (ev_codec E)" and "request_ok E st i r" and "cloneRequest E r = Some c"
  shows "request_ok E st i c"
proof -
  from assms(2) obtain b where b: "CanonicalRequest (ev_codec E) r = Some b" "request_at E st i b" by (auto simp: request_ok_def)
  from assms(3) b(1) DecodeRequest_canonical [OF assms(1) b(1)] show ?thesis
    using b(2) by (auto simp: cloneRequest_def request_ok_def)
qed

lemma cloneRequest_total:
  assumes "json_faithful (ev_codec E)" and "CanonicalRequest (ev_codec E) r = Some b"
  shows "cloneRequest E r \<noteq> None"
  using DecodeRequest_canonical [OF assms] assms(2) by (simp add: cloneRequest_def)

lemma pending_ok_job:
  assumes "pending_ok E s" and "pending_at E (sv_store s) i"
  shows "pending_ok E (launchGeneration i c (s\<lparr>sv_slots := k\<rparr>))"
    and "pending_ok E (s\<lparr>sv_queued := mput i c (sv_queued s), sv_queue := q\<rparr>)"
  using assms by (auto simp: pending_ok_def launchGeneration_def waiting_def)

lemma requests_ok_job:
  assumes "requests_ok E s" and "request_ok E (sv_store s) i c"
  shows "requests_ok E (launchGeneration i c (s\<lparr>sv_slots := k\<rparr>))"
    and "requests_ok E (s\<lparr>sv_queued := mput i c (sv_queued s), sv_queue := q\<rparr>)"
  using assms by (auto simp: requests_ok_def launchGeneration_def)

lemma startLocked_service:
  assumes ok: "service_ok E C n s" and job: "stored_job E (sv_store s) i r"
  shows "service_ok E C n (startLocked E C i r s)"
proof -
  from ok have parts: "scheduler_ok C s" "pending_ok E s" "json_faithful (ev_codec E) \<Longrightarrow> requests_ok E s"
    "bounded_by (max n (cf_maxStoredOperations C)) (sv_store s)" by (simp_all add: service_ok_def)
  from job have at: "pending_at E (sv_store s) i" "request_ok E (sv_store s) i r" by (simp_all add: stored_job_iff)
  note sched = startLocked_scheduler [OF parts(1), of E i r]
  show ?thesis
  proof (cases rule: startLocked_cases [of E C i r s])
    case 1
    with ok show ?thesis by simp
  next
    case 2
    with sched parts show ?thesis by (simp add: service_ok_def pending_ok_def requests_ok_def)
  next
    case (3 c)
    have "requests_ok E (startLocked E C i r s)" if "json_faithful (ev_codec E)"
      unfolding 3(2) by (rule requests_ok_job(1) [OF parts(3) [OF that] cloneRequest_ok [OF that at(2) 3(1)]])
    moreover have "pending_ok E (startLocked E C i r s)" unfolding 3(2) by (rule pending_ok_job(1) [OF parts(2) at(1)])
    moreover have "sv_store (startLocked E C i r s) = sv_store s" unfolding 3(2) by (simp add: launchGeneration_def)
    ultimately show ?thesis using sched parts(4) by (simp add: service_ok_def)
  next
    case (4 c)
    have "requests_ok E (startLocked E C i r s)" if "json_faithful (ev_codec E)"
      unfolding 4(2) by (rule requests_ok_job(2) [OF parts(3) [OF that] cloneRequest_ok [OF that at(2) 4(1)]])
    moreover have "pending_ok E (startLocked E C i r s)" unfolding 4(2) by (rule pending_ok_job(2) [OF parts(2) at(1)])
    moreover have "sv_store (startLocked E C i r s) = sv_store s" unfolding 4(2) by simp
    ultimately show ?thesis using sched parts(4) by (simp add: service_ok_def)
  qed
qed

lemma bounded_by_save:
  assumes "bounded_by m st" and "saveOperation E io op st = (ok, st')"
    and "mhas (st_operations st) (op_ID op) \<or> length (st_operations st) < m"
  shows "bounded_by m st'"
  using assms(2)
proof (cases rule: saveOperation_cases)
  case 2
  have "gomap_ok (st_operations st)" using assms(1) by (simp add: bounded_by_def)
  with assms(1,3) 2 show ?thesis by (auto simp: bounded_by_def length_mput)
qed (use assms in simp)

lemma bounded_by_room: "bounded_by m st \<Longrightarrow> cf_maxStoredOperations C \<le> m \<Longrightarrow> room C st i
    \<Longrightarrow> mhas (st_operations st) i \<or> length (st_operations st) < m"
  by (auto simp: room_def)

lemma bounded_by_remove:
  assumes "bounded_by m st" and "removeOperation E io i st = (ok, st')"
  shows "bounded_by m st'"
proof -
  have "length (mdel i (st_operations st)) \<le> length (st_operations st)" by (rule length_delete_le)
  with assms(1) removeOperation_cases [OF assms(2)] show ?thesis by (auto simp: bounded_by_def)
qed

lemma evictable_free:
  assumes "service_ok E C n s" and "evictable E s i"
  shows "i \<notin> waiting s" and "mget (sv_workers s) i = None"
proof -
  from assms(1) have parts: "tables_ok s" "queue_ok s" "pending_ok E s" by (simp_all add: service_ok_def scheduler_ok_def)
  from assms(2) have "i \<notin> running s" by (simp add: evictable_def mhas_keys running_def)
  with parts(1) show "mget (sv_workers s) i = None" by (auto simp: tables_ok_def map_of_eq_None_iff)
  show "i \<notin> waiting s"
  proof
    assume i: "i \<in> waiting s"
    with parts(3) have "pending_at E (sv_store s) i" by (simp add: pending_ok_def)
    with assms(2) have "mhas (sv_terminalErrors s) i"
      by (auto simp: pending_at_def evictable_def split: option.splits)
    with i parts(2) show False by (auto simp: queue_ok_def mhas_keys)
  qed
qed

lemma service_ok_errors:
  assumes "service_ok E C n s" and "scheduler_ok C (s\<lparr>sv_terminalErrors := te\<rparr>)"
  shows "service_ok E C n (s\<lparr>sv_terminalErrors := te\<rparr>)"
  using assms by (simp add: service_ok_def pending_ok_def requests_ok_def)

lemma evict_files_service:
  assumes ok: "service_ok E C n s" and ev: "evictable E s i" and rem: "removeOperation E io i (sv_store s) = (b, st)"
  shows "service_ok E C n (s\<lparr>sv_store := st\<rparr>)"
proof (rule service_ok_files [OF ok keeps_files_remove [OF rem]])
  show "bounded_by (max n (cf_maxStoredOperations C)) st"
    using ok bounded_by_remove [OF _ rem] by (simp add: service_ok_def)
qed (use evictable_free [OF ok ev] in auto)

lemma evict_service:
  assumes ok: "service_ok E C n s" and ev: "evictable E s i" and rem: "removeOperation E io i (sv_store s) = (b, st)"
  shows "service_ok E C n (s\<lparr>sv_store := st, sv_terminalErrors := mdel i (sv_terminalErrors s)\<rparr>)"
proof -
  note ok' = evict_files_service [OF assms]
  then have "scheduler_ok C (s\<lparr>sv_store := st\<rparr>)" by (simp add: service_ok_def)
  from service_ok_errors [OF ok' scheduler_errors [OF this]] show ?thesis by (simp add: keys_mdel_subset le_supI1)
qed

lemma put_service:
  assumes ok: "service_ok E C n s" and put: "putRequest E io i d (sv_store s) = (b, st)"
  shows "service_ok E C n (s\<lparr>sv_store := st\<rparr>)"
proof (rule service_ok_files [OF ok keeps_files_put [OF put]])
  show "bounded_by (max n (cf_maxStoredOperations C)) st"
    using ok putRequest_operations [OF put] by (simp add: service_ok_def bounded_by_def)
qed simp_all

lemma accept_service:
  assumes ok: "service_ok E C n s" and room: "room C (sv_store s) i"
    and save: "saveOperation E io (pendingOperation C i) (sv_store s) = (b, st)"
  shows "service_ok E C n (s\<lparr>sv_store := st\<rparr>)"
proof (rule service_ok_files [OF ok keeps_files_accept [OF save]])
  have bound: "bounded_by (max n (cf_maxStoredOperations C)) (sv_store s)" using ok by (simp add: service_ok_def)
  show "bounded_by (max n (cf_maxStoredOperations C)) st"
    by (rule bounded_by_save [OF bound save]) (use bounded_by_room [OF bound _ room] in \<open>simp add: pendingOperation_def\<close>)
qed simp_all

text \<open>A worker that goes on keeps the files of its job.\<close>

lemma pending_ok_worker:
  assumes "pending_ok E s" and "w = Leaving \<or> pending_at E (sv_store s) i"
  shows "pending_ok E (s\<lparr>sv_workers := mput i w (sv_workers s)\<rparr>)"
  using assms by (auto simp: pending_ok_def)

lemma requests_ok_worker:
  assumes "requests_ok E s" and "\<And>r. w \<noteq> Generating r"
  shows "requests_ok E (s\<lparr>sv_workers := mput i w (sv_workers s)\<rparr>)"
  using assms by (auto simp: requests_ok_def)

lemma service_ok_worker:
  assumes "service_ok E C n s" and "i \<in> running s" and "\<And>op. w = Finishing op \<Longrightarrow> op_ID op = i"
    and "w = Leaving \<or> pending_at E (sv_store s) i" and "\<And>r. w \<noteq> Generating r"
  shows "service_ok E C n (s\<lparr>sv_workers := mput i w (sv_workers s)\<rparr>)"
proof -
  from assms(1) have parts: "scheduler_ok C s" "pending_ok E s" "json_faithful (ev_codec E) \<Longrightarrow> requests_ok E s"
    "bounded_by (max n (cf_maxStoredOperations C)) (sv_store s)" by (simp_all add: service_ok_def)
  show ?thesis
    using scheduler_worker [OF parts(1) assms(2,3)] pending_ok_worker [OF parts(2) assms(4)]
      requests_ok_worker [OF parts(3) assms(5)] parts(4) by (simp add: service_ok_def)
qed

lemma stageOne_files:
  assumes "stageOne E C io c st = (r, st')"
  shows "st_operations st' = st_operations st" and "st_requests st' = st_requests st"
proof -
  have "st' = st\<lparr>st_sequences := st_sequences st'\<rparr>"
    using assms nextSequence_state(4)
    by (auto simp: stageOne_def Let_def split: option.splits prod.splits) (simp_all add: nextSequence_state(4))
  then show "st_operations st' = st_operations st" "st_requests st' = st_requests st"
    by (metis store.select_convs(1,2) store.surjective store.update_convs(4))+
qed

lemma stageAll_files:
  "stageAll E C io cs st = (r, st') \<Longrightarrow> st_operations st' = st_operations st \<and> st_requests st' = st_requests st"
proof (induction cs arbitrary: st r)
  case (Cons c cs)
  obtain x st1 where one: "stageOne E C io c st = (x, st1)" by fastforce
  from Cons.prems one show ?case
    using stageOne_files [OF one] Cons.IH [of st1] by (auto split: sum.splits prod.splits)
qed simp

lemma persistAll_files:
  "persistAll E io ss st = (r, st') \<Longrightarrow> st_operations st' = st_operations st \<and> st_requests st' = st_requests st"
proof (induction ss arbitrary: st)
  case (Cons s ss)
  obtain x st1 where one: "putCatalog E io (sg_data s) st = (x, st1)" by fastforce
  from putCatalog_keeps(2) [OF one] have "st_operations st1 = st_operations st" "st_requests st1 = st_requests st"
    by (metis store.select_convs(1,2) store.surjective store.update_convs(3))+
  with Cons.prems one show ?case using Cons.IH [of st1] by (auto split: option.splits if_splits)
qed simp

lemma publishGenerated_files:
  assumes "publishGenerated E C io request g st = (r, st')"
  shows "st_operations st' = st_operations st \<and> st_requests st' = st_requests st"
  using assms
  by (auto simp: publishGenerated_def Let_def split: option.splits if_splits prod.splits sum.splits bool.splits
      dest!: stageAll_files persistAll_files)

lemma generationResult_files:
  assumes "generationResult E C io i request g st = (r, st')"
  shows "st_operations st' = st_operations st \<and> st_requests st' = st_requests st"
  using assms
  by (auto simp: generationResult_def split: option.splits generation.splits prod.splits sum.splits publish_error.splits
      dest!: publishGenerated_files)

lemma gcCatalogs_files:
  assumes "gcCatalogs E C io st = (ok, st')"
  shows "st_operations st' = st_operations st \<and> st_requests st' = st_requests st"
  using assms
proof (cases rule: gcCatalogs_cases)
  case (2 ids ok')
  from removeCatalogsLoop_keeps [OF 2(2)] have "st' = st\<lparr>st_catalogs := st_catalogs st'\<rparr>" by blast
  then show ?thesis by (metis store.select_convs(1,2) store.surjective store.update_convs(3))
qed simp

lemma generate_service:
  assumes ok: "service_ok E C n s" and w: "mget (sv_workers s) i = Some (Generating r)"
  shows "service_ok E C n (runGeneration E C io i r g s)"
proof -
  obtain op st where run: "generationResult E C io i r g (sv_store s) = (op, st)" by fastforce
  let ?w = "case op of None \<Rightarrow> Leaving | Some op \<Rightarrow> Finishing op"
  have sched: "scheduler_ok C s" and pending: "pending_at E (sv_store s) i"
    using ok w by (auto simp: service_ok_def pending_ok_def)
  note files = generationResult_files [OF run]
  have "service_ok E C n (s\<lparr>sv_workers := mput i ?w (sv_workers s)\<rparr>)"
  proof (rule service_ok_worker [OF ok worker_running [OF sched w]])
    show "op_ID op' = i" if "?w = Finishing op'" for op'
      using that run generationResult_ID [of E C io i r g "sv_store s" op' st] by (simp split: option.splits)
  qed (use pending in \<open>simp_all split: option.split\<close>)
  then have "service_ok E C n (s\<lparr>sv_workers := mput i ?w (sv_workers s)\<rparr>\<lparr>sv_store := st\<rparr>)"
  proof (rule service_ok_files [where X = "{}"])
    show "keeps_files E {} (sv_store (s\<lparr>sv_workers := mput i ?w (sv_workers s)\<rparr>)) st"
      using files by (simp add: keeps_files_same)
    show "bounded_by (max n (cf_maxStoredOperations C)) st"
      using ok files by (simp add: service_ok_def bounded_by_def)
  qed simp_all
  then show ?thesis unfolding runGeneration_def run prod.case store_last .
qed

lemma finishOperation_store:
  obtains ok st where "saveOperation E io op (sv_store s) = (ok, st)"
    and "st_operations (sv_store (finishOperation E C io op s)) = st_operations st"
    and "st_requests (sv_store (finishOperation E C io op s)) = st_requests st"
proof -
  obtain ok st where save: "saveOperation E io op (sv_store s) = (ok, st)" by fastforce
  obtain b st' where gc: "gcCatalogs E C io st = (b, st')" by fastforce
  show ?thesis
    using that [OF save] gcCatalogs_files [OF gc] gc save
    by (cases ok) (simp_all add: finishOperation_def Let_def split: if_splits)
qed

lemma finish_service:
  assumes ok: "service_ok E C n s" and w: "mget (sv_workers s) i = Some (Finishing op)"
  shows "service_ok E C n (finishGeneration E C io i op s)"
proof -
  from ok have parts: "scheduler_ok C s" "pending_ok E s" "json_faithful (ev_codec E) \<Longrightarrow> requests_ok E s"
    "bounded_by (max n (cf_maxStoredOperations C)) (sv_store s)" by (simp_all add: service_ok_def)
  have i: "op_ID op = i" "i \<in> running s" "pending_at E (sv_store s) i"
    using parts w worker_running [OF parts(1) w] by (auto simp: scheduler_ok_def finishing_ok_def pending_ok_def)
  then have new: "i \<notin> waiting s" using parts(1) by (auto simp: scheduler_ok_def queue_ok_def)
  obtain b st where save: "saveOperation E io op (sv_store s) = (b, st)"
    and files: "st_operations (sv_store (finishOperation E C io op s)) = st_operations st"
      "st_requests (sv_store (finishOperation E C io op s)) = st_requests st" by (rule finishOperation_store)
  let ?f = "finishOperation E C io op s"
  have keeps: "keeps_files E {i} (sv_store s) (sv_store ?f)"
    using keeps_files_cong [OF files keeps_files_save [OF save]] i(1) by simp
  have "mhas (st_operations (sv_store s)) (op_ID op)" using i by (auto simp: pending_at_def mhas_def split: option.splits)
  with bounded_by_save [OF parts(4) save] files have bound: "bounded_by (max n (cf_maxStoredOperations C)) (sv_store ?f)"
    by (simp add: bounded_by_def)
  let ?s = "s\<lparr>sv_workers := mput i Leaving (sv_workers s)\<rparr>"
  have "service_ok E C n ?s" using ok i(2) by (intro service_ok_worker) simp_all
  then have "service_ok E C n (?s\<lparr>sv_store := sv_store ?f\<rparr>)"
    by (rule service_ok_files [where X = "{i}"]) (use keeps bound new in simp_all)
  then have jobs: "pending_ok E (?s\<lparr>sv_store := sv_store ?f\<rparr>)" "json_faithful (ev_codec E) \<Longrightarrow> requests_ok E (?s\<lparr>sv_store := sv_store ?f\<rparr>)"
    by (simp_all only: service_ok_def)
  have same: "waiting (finishGeneration E C io i op s) = waiting s" "sv_queued (finishGeneration E C io i op s) = sv_queued s"
    "sv_workers (finishGeneration E C io i op s) = mput i Leaving (sv_workers s)"
    "sv_store (finishGeneration E C io i op s) = sv_store ?f"
    by (simp_all add: finishGeneration_def Let_def waiting_def finishOperation_frame)
  show ?thesis
    using finishGeneration_scheduler [OF parts(1) w] jobs bound same by (simp add: service_ok_def pending_ok_def requests_ok_def)
qed

lemma leave_service:
  assumes ok: "service_ok E C n s" and w: "mget (sv_workers s) i = Some Leaving" and run: "generationDone C i s = Some s'"
  shows "service_ok E C n s'"
proof -
  from ok have parts: "scheduler_ok C s" "pending_ok E s" "json_faithful (ev_codec E) \<Longrightarrow> requests_ok E s"
    "bounded_by (max n (cf_maxStoredOperations C)) (sv_store s)" by (simp_all add: service_ok_def)
  note sched = generationDone_left [OF parts(1) w run]
  have gone: "pending_ok E (departed i s)" "json_faithful (ev_codec E) \<Longrightarrow> requests_ok E (departed i s)"
    using parts(2,3) by (auto simp: pending_ok_def requests_ok_def split: if_splits)
  show ?thesis
    using parts(1) worker_running [OF parts(1) w]
  proof (cases rule: generationDone_cases)
    case 1
    then have "s' = departed i s" using run by simp
    with sched gone parts(4) show ?thesis by (simp add: service_ok_def)
  next
    case (2 j r rest)
    let ?t = "(departed i s)\<lparr>sv_queue := rest, sv_queued := mdel j (sv_queued s)\<rparr>"
    have s': "s' = launchGeneration j r (?t\<lparr>sv_slots := sv_slots (departed i s) + 1\<rparr>)"
      using 2(4) run by simp
    have t: "sv_store ?t = sv_store s" "waiting ?t \<subseteq> waiting s" "sv_workers ?t = mdel i (sv_workers s)"
      by (auto simp: waiting_def keys_mdel)
    have j: "j \<in> waiting s" using mget_Some_in_keys [OF 2(3)] by (simp add: waiting_def)
    have "pending_ok E ?t" using gone(1) t(2) by (auto simp: pending_ok_def)
    moreover have "pending_at E (sv_store ?t) j" using parts(2) j by (simp add: pending_ok_def)
    ultimately have "pending_ok E s'" unfolding s' by (rule pending_ok_job(1))
    moreover have "requests_ok E s'" if json: "json_faithful (ev_codec E)"
    proof -
      have "requests_ok E ?t" using gone(2) [OF json] by (auto simp: requests_ok_def split: if_splits)
      moreover have "request_ok E (sv_store ?t) j r" using parts(3) [OF json] 2(3) by (simp add: requests_ok_def)
      ultimately show ?thesis unfolding s' by (rule requests_ok_job(1))
    qed
    moreover have "sv_store s' = sv_store s" unfolding s' by (simp add: launchGeneration_def)
    ultimately show ?thesis using sched parts(4) by (simp add: service_ok_def)
  qed
qed

lemma service_ok_frame:
  "service_ok E C n (s\<lparr>sv_handlers := k\<rparr>) = service_ok E C n s"
  "service_ok E C n s \<Longrightarrow> service_ok E C n (s\<lparr>sv_closed := True\<rparr>)"
  by (simp_all add: service_ok_def pending_ok_def requests_ok_def scheduler_frame scheduler_close)

interpretation jobs: service_invariant E C "service_ok E C n" for E :: "'x environment" and C n
  by unfold_locales
    (unfold service_ok_frame(1), (assumption | erule put_service accept_service startLocked_service evict_service
        evict_files_service generate_service finish_service leave_service service_ok_frame(2))+)

section \<open>Every operation has its request\<close>

text \<open>What \<open>resumePending\<close> asks of each operation file.\<close>

definition recoverable :: "'x environment \<Rightarrow> store \<Rightarrow> string \<Rightarrow> Operation \<Rightarrow> bool" where
  "recoverable E st i op \<longleftrightarrow> validOperationID (ev_unicode E) i \<and> ValidateOperation E op \<and> op_ID op = i
     \<and> (\<exists>r. request_ok E st i r \<and> DecodeRequest (ev_codec E) (the (mget (st_requests st) i)) = Some r)"

definition files_ok :: "'x environment \<Rightarrow> store \<Rightarrow> bool" where
  "files_ok E st \<longleftrightarrow> (\<forall>i op t. mget (st_operations st) i = Some (op, t) \<longrightarrow> recoverable E st i op)"

lemma recoverable_cong:
  "mget (st_requests st') i = mget (st_requests st) i \<Longrightarrow> recoverable E st' i op = recoverable E st i op"
  by (simp add: recoverable_def request_ok_def request_at_def)

lemma files_put:
  assumes "files_ok E st" and "putRequest E io i d st = (ok, st')"
  shows "files_ok E st'"
proof -
  have "recoverable E st' j op" if "recoverable E st j op" for j op
  proof -
    from that obtain b where "mget (st_requests st) j = Some b"
      by (auto simp: recoverable_def request_ok_def request_at_def)
    with putRequest_keeps [OF assms(2) this] that show ?thesis using recoverable_cong [of st' j st E op] by simp
  qed
  with assms(1) putRequest_operations [OF assms(2)] show ?thesis by (auto simp: files_ok_def)
qed

lemma files_save:
  assumes "files_ok E st" and "saveOperation E io op st = (ok, st')"
    and "ValidateOperation E op \<Longrightarrow> recoverable E st (op_ID op) op"
  shows "files_ok E st'"
  using assms(2)
proof (cases rule: saveOperation_cases)
  case 1
  with assms(1) show ?thesis by simp
next
  case 2
  have "recoverable E st' i o' = recoverable E st i o'" for i o' by (rule recoverable_cong) (simp add: 2(2))
  with 2 assms(1,3) show ?thesis by (auto simp: files_ok_def split: if_splits)
qed

lemma files_remove:
  assumes "files_ok E st" and "removeOperation E io i st = (ok, st')"
  shows "files_ok E st'"
proof -
  have "recoverable E st' j op" if "j \<noteq> i" "recoverable E st j op" for j op
    using that removeOperation_cases [OF assms(2)] recoverable_cong [of st' j st E op] by auto
  with assms(1) removeOperation_cases [OF assms(2)] show ?thesis by (auto simp: files_ok_def split: if_splits)
qed

lemma files_cong:
  "st_operations st' = st_operations st \<Longrightarrow> st_requests st' = st_requests st \<Longrightarrow> files_ok E st \<Longrightarrow> files_ok E st'"
  using recoverable_cong [of st' _ st E] by (simp add: files_ok_def)

lemma recoverable_request:
  assumes "json_faithful (ev_codec E)" and "CanonicalRequest (ev_codec E) r = Some b" and "request_at E st i b"
    and "validOperationID (ev_unicode E) i" and "ValidateOperation E op" "op_ID op = i"
  shows "recoverable E st i op"
proof -
  from DecodeRequest_canonical [OF assms(1,2)] obtain r' where "DecodeRequest (ev_codec E) b = Some r'" "CanonicalRequest (ev_codec E) r' = Some b"
    using assms(2) by auto
  with assms(3-) show ?thesis by (auto simp: recoverable_def request_ok_def request_at_def)
qed

lemma files_accept:
  assumes "json_faithful (ev_codec E)" and "files_ok E st" and "CanonicalRequest (ev_codec E) r = Some b"
    and "request_at E st i b" and "validOperationID (ev_unicode E) i" and "saveOperation E io (pendingOperation C i) st = (ok, st')"
  shows "files_ok E st'"
proof (rule files_save [OF assms(2,6)])
  have "op_ID (pendingOperation C i) = i" by (simp add: pendingOperation_def)
  then show "recoverable E st (op_ID (pendingOperation C i)) (pendingOperation C i)" if "ValidateOperation E (pendingOperation C i)"
    using recoverable_request [OF assms(1,3-5) that] by simp
qed

lemma recoverable_other:
  "recoverable E st i op \<Longrightarrow> ValidateOperation E op' \<Longrightarrow> op_ID op' = i \<Longrightarrow> recoverable E st i op'"
  by (simp add: recoverable_def)

definition recovery_ok :: "'x environment \<Rightarrow> config \<Rightarrow> nat \<Rightarrow> service \<Rightarrow> bool" where
  "recovery_ok E C n s \<longleftrightarrow> service_ok E C n s \<and> (json_faithful (ev_codec E) \<longrightarrow> files_ok E (sv_store s))"

lemma recovery_step:
  assumes "recovery_ok E C n s" and "service_ok E C n s'"
    and "json_faithful (ev_codec E) \<Longrightarrow> files_ok E (sv_store s) \<Longrightarrow> files_ok E (sv_store s')"
  shows "recovery_ok E C n s'"
  using assms by (simp add: recovery_ok_def)

lemma files_finish:
  assumes "service_ok E C n s" and w: "mget (sv_workers s) i = Some (Finishing op)" and "files_ok E (sv_store s)"
  shows "files_ok E (sv_store (finishGeneration E C io i op s))"
proof -
  from assms(1) w have i: "op_ID op = i" "pending_at E (sv_store s) i"
    by (auto simp: service_ok_def scheduler_ok_def finishing_ok_def pending_ok_def)
  then obtain op' t where "mget (st_operations (sv_store s)) i = Some (op', t)"
    by (auto simp: pending_at_def split: option.splits)
  with assms(3) have stored: "recoverable E (sv_store s) i op'" by (auto simp: files_ok_def)
  obtain b st where save: "saveOperation E io op (sv_store s) = (b, st)"
    and files: "st_operations (sv_store (finishOperation E C io op s)) = st_operations st"
      "st_requests (sv_store (finishOperation E C io op s)) = st_requests st" by (rule finishOperation_store)
  have "files_ok E st" by (rule files_save [OF assms(3) save]) (simp add: i(1) recoverable_other [OF stored])
  with files_cong [OF files] show ?thesis by (simp add: finishGeneration_def Let_def)
qed

lemma generationDone_store:
  assumes "service_ok E C n s" and "mget (sv_workers s) i = Some w" and "generationDone C i s = Some s'"
  shows "sv_store s' = sv_store s"
proof -
  have ok: "scheduler_ok C s" using assms(1) by (simp add: service_ok_def)
  from ok worker_running [OF ok assms(2)] show ?thesis
    by (cases rule: generationDone_cases) (use assms(3) in \<open>auto simp: launchGeneration_def\<close>)
qed

interpretation recovery: service_invariant E C "recovery_ok E C n" for E :: "'x environment" and C n
proof
  fix s io i data ok st
  assume I: "recovery_ok E C n s"
  note ok = I [unfolded recovery_ok_def, THEN conjunct1]
  show "recovery_ok E C n (s\<lparr>sv_store := st\<rparr>)" if "putRequest E io i data (sv_store s) = (ok, st)"
    by (rule recovery_step [OF I jobs.put [OF ok that]]) (simp add: files_put [OF _ that])
  show "recovery_ok E C n (s\<lparr>sv_store := st\<rparr>)"
    if "room C (sv_store s) i" "validOperationID (ev_unicode E) i" "CanonicalRequest (ev_codec E) r = Some b"
      "request_at E (sv_store s) i b" "saveOperation E io (pendingOperation C i) (sv_store s) = (ok, st)" for r b
    by (rule recovery_step [OF I jobs.accept [OF ok that]])
      (simp add: files_accept [OF _ _ that(3,4,2,5)])
  show "recovery_ok E C n (startLocked E C i r s)" if "stored_job E (sv_store s) i r" for r
    by (rule recovery_step [OF I jobs.start [OF ok that]]) simp
  show "recovery_ok E C n (s\<lparr>sv_store := st, sv_terminalErrors := mdel i (sv_terminalErrors s)\<rparr>)"
    if "evictable E s i" "removeOperation E io i (sv_store s) = (True, st)"
    by (rule recovery_step [OF I jobs.evict [OF ok that]]) (simp add: files_remove [OF _ that(2)])
  show "recovery_ok E C n (s\<lparr>sv_store := st\<rparr>)"
    if "evictable E s i" "removeOperation E io i (sv_store s) = (False, st)"
    by (rule recovery_step [OF I jobs.evict_failed [OF ok that]]) (simp add: files_remove [OF _ that(2)])
  show "recovery_ok E C n (runGeneration E C io i r g s)"
    if "mget (sv_workers s) i = Some (Generating r)" "g = Cancelled \<longrightarrow> sv_closed s" for r g
  proof (rule recovery_step [OF I jobs.generate [OF ok that]])
    assume "files_ok E (sv_store s)"
    obtain op st' where run: "generationResult E C io i r g (sv_store s) = (op, st')" by fastforce
    from generationResult_files [OF run] files_cong [of st' "sv_store s" E] \<open>files_ok E (sv_store s)\<close>
    show "files_ok E (sv_store (runGeneration E C io i r g s))" by (simp add: runGeneration_def run)
  qed
  show "recovery_ok E C n (finishGeneration E C io i op s)" if "mget (sv_workers s) i = Some (Finishing op)" for op
    by (rule recovery_step [OF I jobs.finish [OF ok that]]) (rule files_finish [OF ok that])
  show "recovery_ok E C n s'" if "mget (sv_workers s) i = Some Leaving" "generationDone C i s = Some s'" for s'
    by (rule recovery_step [OF I jobs.leave [OF ok that]]) (simp add: generationDone_store [OF ok that])
  show "recovery_ok E C n (s\<lparr>sv_handlers := k\<rparr>)" for k
    by (rule recovery_step [OF I jobs.handlers [OF ok]]) simp
  show "recovery_ok E C n (s\<lparr>sv_closed := True\<rparr>)"
    by (rule recovery_step [OF I jobs.close [OF ok]]) simp
qed

lemma service_ok_initial:
  assumes "gomap_ok (st_operations st)"
  shows "service_ok E C (length (st_operations st)) (emptyService st)"
  using assms
  by (simp add: service_ok_def scheduler_ok_def tables_ok_def queue_ok_def slots_ok_def finishing_ok_def pending_ok_def
      requests_ok_def bounded_by_def running_def waiting_def emptyService_def)

lemma reachable_service_ok:
  "reachable E C st s \<Longrightarrow> gomap_ok (st_operations st) \<Longrightarrow> service_ok E C (length (st_operations st)) s"
  by (erule jobs.reachable_keeps, rule service_ok_initial)

lemma reachable_scheduler_ok: "reachable E C st s \<Longrightarrow> scheduler_ok C s"
  by (rule scheduler.reachable_keeps)
    (simp_all add: scheduler_ok_def tables_ok_def queue_ok_def slots_ok_def finishing_ok_def running_def waiting_def emptyService_def)

end
