(* ===== verification/CatalogAdmission.thy ===== *)
theory CatalogAdmission
  imports CatalogJobs
begin

text \<open>
  Admission to the catalog service: what the handler of \<open>POST /v1/catalog-sets\<close> has done when it answers
  202, and when it gives that answer. The last section is a run of the service with two requests.
\<close>

section \<open>The start of a job\<close>

lemma startLocked_starts:
  assumes "\<not> sv_closed s" and "\<not> mhas (sv_terminalErrors s) i" and "generationCapacityAvailable C s i" and "cloneRequest E r \<noteq> None"
  shows "i \<in> running (startLocked E C i r s) \<union> waiting (startLocked E C i r s)"
  using assms by (auto simp: startLocked_def running_def waiting_def launchGeneration_def mhas_keys split: if_splits)

lemma startLocked_closed: "sv_closed s \<Longrightarrow> startLocked E C i r s = s"
  by (simp add: startLocked_def)

lemma evictLoop_frame:
  "evictLoop E io limit infos remaining s = (ok, s') \<Longrightarrow> sv_active s' = sv_active s \<and> sv_queued s' = sv_queued s
     \<and> sv_closed s' = sv_closed s \<and> (\<forall>j. mhas (sv_terminalErrors s') j \<longrightarrow> mhas (sv_terminalErrors s) j)"
proof (induction infos arbitrary: remaining s)
  case (Cons info infos)
  obtain i t where [simp]: "info = (i, t)" by (cases info)
  from Cons.prems show ?case
    by (auto split: if_splits loaded.splits prod.splits bool.splits dest!: Cons.IH simp: mhas_def)
qed simp

lemma evictOperations_frame:
  "evictOperations E io limit s = (ok, s') \<Longrightarrow> sv_active s' = sv_active s \<and> sv_queued s' = sv_queued s
     \<and> sv_closed s' = sv_closed s \<and> (\<forall>j. mhas (sv_terminalErrors s') j \<longrightarrow> mhas (sv_terminalErrors s) j)"
  by (auto simp: evictOperations_def split: option.splits if_splits dest!: evictLoop_frame)

section \<open>The answer 202\<close>

definition accepted :: "'x environment \<Rightarrow> string \<Rightarrow> Request \<Rightarrow> bool \<Rightarrow> Operation \<Rightarrow> service \<Rightarrow> bool" where
  "accepted E i r closed op s \<longleftrightarrow> op_ID op = i \<and> op_Status op = OperationPending \<and> stored_job E (sv_store s) i r
     \<and> (closed \<or> i \<in> running s \<union> waiting s)"

lemma accepted_start:
  assumes "op_ID op = i" and "op_Status op = OperationPending" and "stored_job E (sv_store s) i r"
    and "\<not> mhas (sv_terminalErrors s) i" and "generationCapacityAvailable C s i" and "json_faithful (ev_codec E)"
  shows "accepted E i r (sv_closed s) op (startLocked E C i r s)"
proof -
  have "cloneRequest E r \<noteq> None"
    using assms(3) cloneRequest_total [OF assms(6)] by (auto simp: stored_job_def split: option.splits)
  with startLocked_starts [OF _ assms(4,5) this] assms(1-3) show ?thesis by (auto simp: accepted_def)
qed

lemma accepted_saved:
  assumes "saveOperation E io (pendingOperation C i) (sv_store s) = (True, st)"
    and "CanonicalRequest (ev_codec E) r = Some b" and "request_at E (sv_store s) i b" and "validOperationID (ev_unicode E) i"
    and "\<not> mhas (sv_terminalErrors s) i" and "generationCapacityAvailable C s i" and "json_faithful (ev_codec E)"
  shows "accepted E i r (sv_closed s) (pendingOperation C i) (startLocked E C i r (s\<lparr>sv_store := st\<rparr>))"
proof -
  have "accepted E i r (sv_closed (s\<lparr>sv_store := st\<rparr>)) (pendingOperation C i) (startLocked E C i r (s\<lparr>sv_store := st\<rparr>))"
    by (rule accepted_start)
      (use assms stored_job_saved [OF assms(1-4)] in \<open>simp_all add: pendingOperation_def generationCapacityAvailable_def\<close>)
  then show ?thesis by simp
qed

lemma admitLoaded_accepted:
  assumes run: "admitLoaded E C io i r loaded s = (PendingReply n op, s')" and json: "json_faithful (ev_codec E)"
    and valid: "CanonicalRequest (ev_codec E) r = Some b" "request_at E (sv_store s) i b" "validOperationID (ev_unicode E) i"
    and free: "\<not> mhas (sv_terminalErrors s) i"
    and new: "loaded = NotExist \<Longrightarrow> generationCapacityAvailable C s i"
    and old: "\<And>op. loaded = Loaded op \<Longrightarrow> pending_at E (sv_store s) i \<longleftrightarrow> op_Status op = OperationPending"
      "\<And>op. loaded = Loaded op \<Longrightarrow> op_ID op = i"
  shows "n = 202 \<and> accepted E i r (sv_closed s) op s'"
proof (cases loaded)
  case NotExist
  with run accepted_saved [OF _ valid free new json] show ?thesis
    by (auto simp: admitLoaded_def writeHTTPFailure_def split: prod.splits bool.splits)
next
  case (Loaded op')
  have "accepted E i r (sv_closed s) op' (startLocked E C i r s)"
    if "op_Status op' = OperationPending" "generationCapacityAvailable C s i"
    by (rule accepted_start) (use that old Loaded valid free json in \<open>auto simp: stored_job_def\<close>)
  with run Loaded accepted_saved [OF _ valid free _ json] show ?thesis
    by (auto simp: admitLoaded_def writeHTTPFailure_def split: prod.splits bool.splits if_splits)
qed (use run in \<open>simp add: admitLoaded_def writeHTTPFailure_def\<close>)

lemma persistAndAdmit_accepted:
  assumes run: "persistAndAdmit E C io i r b loaded s = (PendingReply n op, s')" and json: "json_faithful (ev_codec E)"
    and valid: "CanonicalRequest (ev_codec E) r = Some b" "i = operationIDFromDigest (js_SHA256 (ev_codec E) b)"
    and free: "\<not> mhas (sv_terminalErrors s) i"
    and new: "loaded = NotExist \<Longrightarrow> generationCapacityAvailable C s i"
    and old: "\<And>op. loaded = Loaded op \<Longrightarrow> loadOperation E io i (sv_store s) = Loaded op"
  shows "n = 202 \<and> accepted E i r (sv_closed s) op s'"
proof -
  obtain ok st where put: "putRequest E io i b (sv_store s) = (ok, st)" by fastforce
  with run have ok: "ok" by (cases ok) (auto simp: persistAndAdmit_def writeHTTPFailure_def)
  with put have put': "putRequest E io i b (sv_store s) = (True, st)" by simp
  let ?s = "s\<lparr>sv_store := st\<rparr>"
  have req: "request_at E (sv_store ?s) i b" "validOperationID (ev_unicode E) i"
    using putRequest_stores [OF put'] valid(2) by (simp_all add: request_at_def)
  have "n = 202 \<and> accepted E i r (sv_closed ?s) op s'"
  proof (rule admitLoaded_accepted [OF _ json valid(1) req])
    show "admitLoaded E C io i r loaded ?s = (PendingReply n op, s')" using run put' by (simp add: persistAndAdmit_def)
    show "pending_at E (sv_store ?s) i = (op_Status op = OperationPending)" "op_ID op = i" if "loaded = Loaded op" for op
      using loadOperation_Loaded [OF old [OF that]] putRequest_operations [OF put'] by (auto simp: pending_at_def)
  qed (use free new in \<open>simp_all add: generationCapacityAvailable_def\<close>)
  then show ?thesis by simp
qed

lemma admitRequest_accepted:
  assumes run: "admitRequest E C io i r b s = (PendingReply n op, s')" and json: "json_faithful (ev_codec E)"
    and valid: "CanonicalRequest (ev_codec E) r = Some b" "i = operationIDFromDigest (js_SHA256 (ev_codec E) b)"
  shows "n = 202 \<and> accepted E i r (sv_closed s) op s'"
proof -
  from run have free: "\<not> mhas (sv_terminalErrors s) i" by (auto simp: admitRequest_def writeHTTPFailure_def split: if_splits)
  show ?thesis
  proof (cases "loadOperation E io i (sv_store s) = NotExist")
    case True
    obtain ok s1 where ev: "evictOperations E io (cf_maxStoredOperations C - 1) s = (ok, s1)" by fastforce
    note frame = evictOperations_frame [OF ev]
    have persist: "persistAndAdmit E C io i r b NotExist s1 = (PendingReply n op, s')" and "generationCapacityAvailable C s i"
      using run True ev free by (auto simp: admitRequest_def writeHTTPFailure_def split: if_splits bool.splits option.splits)
    with frame have "generationCapacityAvailable C s1 i" by (simp add: generationCapacityAvailable_def)
    moreover have "\<not> mhas (sv_terminalErrors s1) i" using free frame by blast
    ultimately have "n = 202 \<and> accepted E i r (sv_closed s1) op s'"
      by (intro persistAndAdmit_accepted [OF persist json valid]) simp_all
    then show ?thesis using frame by simp
  next
    case False
    then have "persistAndAdmit E C io i r b (loadOperation E io i (sv_store s)) s = (PendingReply n op, s')"
      using run free by (auto simp: admitRequest_def split: loaded.splits)
    from persistAndAdmit_accepted [OF this json valid free] False show ?thesis by simp
  qed
qed

section \<open>A new request\<close>

text \<open>A post of \<open>data\<close> to the catalog sets.\<close>

definition post_of :: "string \<Rightarrow> http_request" where
  "post_of data = \<lparr>hp_RawQuery = [], hp_ContentEncoding = [], hp_ContentType = ''application/json'',
     hp_ContentLength = int (length data), hp_Body = Some data, hr_Method = ''POST'', hr_Path = ''/v1/catalog-sets''\<rparr>"

text \<open>A call in which no access to the operations and requests fails.\<close>

definition healthy :: "call \<Rightarrow> bool" where
  "healthy io \<longleftrightarrow> io_list io \<and> (\<forall>i. io_load io i \<and> io_loadRequest io i) \<and> io_infos io \<and> io_put io = Written \<and> io_save io = Written"

definition with_job :: "config \<Rightarrow> call \<Rightarrow> string \<Rightarrow> string \<Rightarrow> store \<Rightarrow> store" where
  "with_job C io i data st = st\<lparr>st_requests := mput i data (st_requests st),
     st_operations := mput i (pendingOperation C i, io_time io) (st_operations st)\<rparr>"

lemma evict_nothing:
  assumes "healthy io" and "length (st_operations (sv_store s)) \<le> limit"
  shows "evictOperations E io limit s = (True, s)"
proof -
  have "length (filter (\<lambda>(i, op, t). validOperationID (ev_unicode E) i) (st_operations (sv_store s))) \<le> limit"
    using assms(2) by (meson le_trans length_filter_le)
  then show ?thesis using assms(1) by (simp add: evictOperations_def operationInfos_def healthy_def)
qed

lemma post_new:
  assumes io: "healthy io" and media: "jsonContentType E ''application/json''" and size: "int (length data) \<le> MaxRequestBytes"
    and request: "DecodeRequest (ev_codec E) data = Some r" "CanonicalRequest (ev_codec E) r = Some data"
    and i: "i = operationIDFromDigest (js_SHA256 (ev_codec E) data)" "validOperationID (ev_unicode E) i" "validateOperationID i"
    and retry: "0 \<le> cf_retryAfterSeconds C" "cf_retryAfterSeconds C \<le> 3600"
    and new: "mget (st_operations (sv_store s)) i = None" "mget (st_requests (sv_store s)) i = None" "\<not> mhas (sv_terminalErrors s) i"
    and capacity: "generationCapacityAvailable C s i" "length (st_operations (sv_store s)) < cf_maxStoredOperations C"
    and keys: "\<forall>j \<in> fst ` set (st_operations (sv_store s)). validOperationID (ev_unicode E) j"
  shows "serveRoute E C io artifact (post_of data) s
    = (PendingReply 202 (pendingOperation C i), startLocked E C i r (s\<lparr>sv_store := with_job C io i data (sv_store s)\<rparr>))"
proof -
  have route: "route_of ''POST'' ''/v1/catalog-sets'' = Inr CatalogSetRoute" by (simp add: route_of_def)
  have op: "ValidateOperation E (pendingOperation C i)"
    using i(3) retry by (simp add: ValidateOperation_def pendingOperation_def)
  have load: "loadOperation E io i (sv_store s) = NotExist"
    using io i(2) new(1) by (simp add: loadOperation_def healthy_def)
  have evict: "evictOperations E io (cf_maxStoredOperations C - 1) s = (True, s)"
    by (rule evict_nothing [OF io]) (use capacity(2) in linarith)
  have list: "listOperations E io (sv_store s) = Some (sort (mkeys (st_operations (sv_store s))))"
    using io keys by (simp add: listOperations_def healthy_def list_ex_iff)
  have put: "putRequest E io i data (sv_store s) = (True, (sv_store s)\<lparr>st_requests := mput i data (st_requests (sv_store s))\<rparr>)"
    using io i(2) request(1) new(2) by (simp add: putRequest_def healthy_def write_to_def)
  have save: "saveOperation E io (pendingOperation C i) ((sv_store s)\<lparr>st_requests := mput i data (st_requests (sv_store s))\<rparr>)
      = (True, with_job C io i data (sv_store s))"
    using io op by (simp add: saveOperation_def healthy_def write_to_def with_job_def pendingOperation_def)
  have "admitRequest E C io i r data s
      = (PendingReply 202 (pendingOperation C i), startLocked E C i r (s\<lparr>sv_store := with_job C io i data (sv_store s)\<rparr>))"
    using load new(3) capacity evict list put save by (simp add: admitRequest_def persistAndAdmit_def admitLoaded_def)
  moreover have "RequestDigest (ev_codec E) r = Some (js_SHA256 (ev_codec E) data)"
    using request(2) by (simp add: RequestDigest_def)
  ultimately show ?thesis
    using media size request i(1)
    by (simp add: serveRoute_def post_of_def route handleCatalogSet_def http_post.truncate_def)
qed

section \<open>A run with two requests\<close>

definition other_request :: Request where
  "other_request = sample_request\<lparr>rq_HomebrewCommit := replicate 40 CHR ''b''\<rparr>"

definition pair_codec :: json_codec where
  "pair_codec = \<lparr>js_Encode = (\<lambda>r. if r = canonicalizeRequest sample_request then Some ''{}''
       else if r = canonicalizeRequest other_request then Some ''{ }'' else None),
     js_Values = (\<lambda>d. if d = ''{}'' then Some [JObject []] else if d = ''{ }'' then Some [JArray []] else None),
     js_Unmarshal = (\<lambda>v. if v = JObject [] then Some (canonicalizeRequest sample_request)
       else if v = JArray [] then Some (canonicalizeRequest other_request) else None),
     js_SHA256 = (\<lambda>d. replicate 64 (if d = ''{}'' then CHR ''0'' else CHR ''1''))\<rparr>"

definition pair_env :: "unit environment" where
  "pair_env = sample_env\<lparr>ev_codec := pair_codec\<rparr>"

definition other_id :: string where
  "other_id = ''op-'' @ replicate 64 CHR ''1''"

lemma pair_faithful: "json_faithful pair_codec"
proof -
  have "valid_utf8 ''{}''" "valid_utf8 ''{ }''" by code_simp+
  then show ?thesis by (auto simp: json_faithful_def pair_codec_def split: if_splits)
qed

lemma other_valid: "ValidateRequest other_request = []"
proof -
  have "validateCommit (replicate 40 CHR ''b'')" "validateSHA256Digest (''sha256:'' @ replicate 64 CHR ''0'')"
    by (simp_all add: validateCommit_def validateSHA256Digest_def trim_prefix_def lowerHex_def hex_ok_def
        list_all_iff lower_hex_char_def hex_char_def ascii_digit_def less_eq_char_def)
  with sample_targets show ?thesis
    by (simp add: ValidateRequest_iff other_request_def sample_request_def normalizedRequestTargets_def)
qed

lemma pair_distinct: "canonicalizeRequest other_request \<noteq> canonicalizeRequest sample_request"
proof
  assume "canonicalizeRequest other_request = canonicalizeRequest sample_request"
  then have "request_meaning other_request = request_meaning sample_request"
    by (simp add: canonicalizeRequest_eq other_valid sample_valid)
  then show False by (simp add: request_meaning_def other_request_def sample_request_def)
qed

lemma pair_canonical:
  "CanonicalRequest pair_codec sample_request = Some ''{}''" "CanonicalRequest pair_codec other_request = Some ''{ }''"
  using pair_distinct
  by (simp_all add: CanonicalRequest_Some sample_valid other_valid) (simp_all add: pair_codec_def MaxRequestBytes_def)

lemmas pair_decoded = DecodeRequest_canonical [OF pair_faithful pair_canonical(1)] DecodeRequest_canonical [OF pair_faithful pair_canonical(2)]

lemma pair_ids:
  "validOperationID ascii_tables sample_id" "validOperationID ascii_tables other_id"
  "validateOperationID sample_id" "validateOperationID other_id" "sample_id \<noteq> other_id"
proof -
  have "to_lower ascii_tables (replicate 64 CHR ''1'') = replicate 64 CHR ''1''"
    by (rule to_lower_id(1)) (simp_all add: ascii_conform_def)
  then have "validSHA256Hex ascii_tables (replicate 64 CHR ''1'')"
    by (simp add: validSHA256Hex_def hex_ok_def list_all_iff hex_char_def ascii_digit_def less_eq_char_def)
  then show "validOperationID ascii_tables sample_id" "validOperationID ascii_tables other_id"
    using sample_digest(2) by (simp_all add: validOperationID_def sample_id_def other_id_def trim_prefix_def)
  show "validateOperationID sample_id" "validateOperationID other_id" "sample_id \<noteq> other_id"
    by (simp_all add: validateOperationID_def sample_id_def other_id_def MaxOperationIDBytes_def list_all_iff
        isLowerAlphaNumeric_def less_eq_char_def)
qed

lemma pair_env_simps:
  "ev_codec pair_env = pair_codec" "ev_unicode pair_env = ascii_tables" "jsonContentType pair_env t" "healthy sample_call"
  "operationIDFromDigest (js_SHA256 pair_codec ''{}'') = sample_id" "operationIDFromDigest (js_SHA256 pair_codec ''{ }'') = other_id"
  by (simp_all add: pair_env_def sample_env_def jsonContentType_def healthy_def sample_call_def operationIDFromDigest_def
      sample_id_def other_id_def pair_codec_def)

lemma post_sample:
  assumes "st_operations (sv_store s) = []" and "st_requests (sv_store s) = []" and "sv_terminalErrors s = []"
    and "generationCapacityAvailable sample_config s sample_id"
  shows "serveRoute pair_env sample_config sample_call artifact (post_of ''{}'') s
    = (PendingReply 202 (pendingOperation sample_config sample_id), startLocked pair_env sample_config sample_id
         (canonicalizeRequest sample_request) (s\<lparr>sv_store := with_job sample_config sample_call sample_id ''{}'' (sv_store s)\<rparr>))"
  by (rule post_new)
    (use assms in \<open>simp_all add: pair_env_simps pair_decoded pair_ids MaxRequestBytes_def mhas_def\<close>, simp_all add: sample_config_def pair_env_simps)

lemma post_other:
  assumes "st_operations (sv_store s) = [(sample_id, x)]" and "st_requests (sv_store s) = [(sample_id, d)]" and "sv_terminalErrors s = []"
    and "generationCapacityAvailable sample_config s other_id"
  shows "serveRoute pair_env sample_config sample_call artifact (post_of ''{ }'') s
    = (PendingReply 202 (pendingOperation sample_config other_id), startLocked pair_env sample_config other_id
         (canonicalizeRequest other_request) (s\<lparr>sv_store := with_job sample_config sample_call other_id ''{ }'' (sv_store s)\<rparr>))"
  by (rule post_new)
    (use assms in \<open>simp_all add: pair_env_simps pair_decoded pair_ids pair_ids(5) [symmetric] MaxRequestBytes_def mhas_def\<close>, simp_all add: sample_config_def pair_env_simps)

lemma sample_started: "startService pair_env sample_config sample_call empty_store = Inr (emptyService empty_store)"
  by (simp add: startService_def resumePending_def emptyService_def empty_store_def listOperations_def sample_call_def)

lemma empty_service_simps:
  "sv_store (emptyService st) = st" "sv_terminalErrors (emptyService st) = []" "sv_closed (emptyService st) = False"
  "sv_active (emptyService st) = []" "sv_queued (emptyService st) = []" "sv_handlers (emptyService st) = 0"
  "sv_slots (emptyService st) = 0" "sv_workers (emptyService st) = []" "sv_queue (emptyService st) = []"
  "st_operations empty_store = []" "st_requests empty_store = []"
  by (simp_all add: emptyService_def empty_store_def)

lemma empty_capacity: "generationCapacityAvailable sample_config ((emptyService st)\<lparr>sv_handlers := n\<rparr>) i"
  by (simp add: generationCapacityAvailable_def empty_service_simps mhas_def sample_config_def)

text \<open>The service after the first request: its job is running.\<close>

definition busy_store :: store where
  "busy_store = with_job sample_config sample_call sample_id ''{}'' empty_store"

definition busy_service :: service where
  "busy_service = \<lparr>sv_closed = False, sv_slots = 1, sv_active = [(sample_id, ())], sv_queued = [], sv_queue = [],
     sv_terminalErrors = [], sv_store = busy_store, sv_handlers = 0,
     sv_workers = [(sample_id, Generating (canonicalizeRequest sample_request))]\<rparr>"

lemma busy_started:
  "startLocked pair_env sample_config sample_id (canonicalizeRequest sample_request) ((emptyService busy_store)\<lparr>sv_handlers := n\<rparr>)
     = busy_service\<lparr>sv_handlers := n\<rparr>"
proof -
  have clone: "cloneRequest pair_env (canonicalizeRequest sample_request) = Some (canonicalizeRequest sample_request)"
    by (simp add: cloneRequest_def pair_env_simps pair_decoded)
  show ?thesis
    by (simp add: startLocked_def clone launchGeneration_def busy_service_def emptyService_def mhas_def
        generationCapacityAvailable_def) (simp add: sample_config_def)
qed

lemma sample_entered: "reachable pair_env sample_config empty_store ((emptyService empty_store)\<lparr>sv_handlers := n\<rparr>)"
proof (induction n)
  case 0
  have "(emptyService empty_store)\<lparr>sv_handlers := 0\<rparr> = emptyService empty_store" by (simp add: emptyService_def)
  with reachable.started [OF sample_started] show ?case by simp
next
  case (Suc n)
  have "enterHandler ((emptyService empty_store)\<lparr>sv_handlers := n\<rparr>) = Inr ((emptyService empty_store)\<lparr>sv_handlers := Suc n\<rparr>)"
    by (simp add: enterHandler_def empty_service_simps)
  from reachable.stepped [OF Suc service_step.entered [OF this]] show ?case .
qed

lemma sample_posted:
  "serveRoute pair_env sample_config sample_call artifact (post_of ''{}'') ((emptyService empty_store)\<lparr>sv_handlers := n\<rparr>)
     = (PendingReply 202 (pendingOperation sample_config sample_id), busy_service\<lparr>sv_handlers := n\<rparr>)"
proof -
  let ?s = "(emptyService empty_store)\<lparr>sv_handlers := n\<rparr>"
  have store: "?s\<lparr>sv_store := with_job sample_config sample_call sample_id ''{}'' (sv_store ?s)\<rparr> = (emptyService busy_store)\<lparr>sv_handlers := n\<rparr>"
    by (simp add: emptyService_def busy_store_def)
  have "st_operations (sv_store ?s) = []" "st_requests (sv_store ?s) = []" "sv_terminalErrors ?s = []"
    by (simp_all add: empty_service_simps)
  from post_sample [OF this empty_capacity] show ?thesis unfolding store busy_started .
qed

lemma busy_reachable: "reachable pair_env sample_config empty_store busy_service"
proof -
  have "busy_service\<lparr>sv_handlers := 0\<rparr> = busy_service" by (simp add: busy_service_def)
  with reachable.stepped [OF sample_entered service_step.answered [OF _ sample_posted [where n = 1]]] show ?thesis by simp
qed

section \<open>Claims\<close>

text \<open>
  C24: When the service answers a post with 202, the operation it names is stored as pending and the
  canonical request is stored under the same name, and unless the service is shutting down a worker
  has the job or it is in the queue.
\<close>

theorem accepted_requests_are_kept:
  assumes "json_faithful (ev_codec E)" and "handleCatalogSet E C io post s = (PendingReply status op, s')"
  shows "status = 202 \<and> op_Status op = OperationPending
    \<and> (\<exists>data r b. hp_Body post = Some data \<and> DecodeRequest (ev_codec E) data = Some r \<and> CanonicalRequest (ev_codec E) r = Some b
         \<and> op_ID op = operationIDFromDigest (js_SHA256 (ev_codec E) b) \<and> mget (st_requests (sv_store s')) (op_ID op) = Some b)
    \<and> pending_at E (sv_store s') (op_ID op)
    \<and> (sv_closed s \<or> op_ID op \<in> fst ` set (sv_active s') \<or> op_ID op \<in> fst ` set (sv_queued s'))"
proof -
  from assms(2) obtain data r b where request: "hp_Body post = Some data" "DecodeRequest (ev_codec E) data = Some r"
      "CanonicalRequest (ev_codec E) r = Some b"
    and run: "admitRequest E C io (operationIDFromDigest (js_SHA256 (ev_codec E) b)) r b s = (PendingReply status op, s')"
    by (auto simp: handleCatalogSet_def RequestDigest_def writeHTTPFailure_def split: if_splits option.splits)
  from admitRequest_accepted [OF run assms(1) request(3) refl] request show ?thesis
    by (auto simp: accepted_def stored_job_def request_at_def running_def waiting_def)
qed

theorem accepted_requests_are_kept_witness:
  "handleCatalogSet pair_env sample_config sample_call (http_post.truncate (post_of ''{}'')) (emptyService empty_store)
     = (PendingReply 202 (pendingOperation sample_config sample_id), busy_service)
   \<and> mget (st_requests (sv_store busy_service)) sample_id = Some ''{}''"
proof -
  have "(emptyService empty_store)\<lparr>sv_handlers := 0\<rparr> = emptyService empty_store" "busy_service\<lparr>sv_handlers := 0\<rparr> = busy_service"
    by (simp_all add: emptyService_def busy_service_def)
  with sample_posted [of _ 0] have run: "handleCatalogSet pair_env sample_config sample_call (http_post.truncate (post_of ''{}''))
      (emptyService empty_store) = (PendingReply 202 (pendingOperation sample_config sample_id), busy_service)"
    by (simp add: serveRoute_def route_of_def post_of_def)
  from accepted_requests_are_kept [OF _ run] pair_faithful obtain data r b where
    "hp_Body (http_post.truncate (post_of ''{}'')) = Some data" "DecodeRequest pair_codec data = Some r" "CanonicalRequest pair_codec r = Some b"
    "mget (st_requests (sv_store busy_service)) (op_ID (pendingOperation sample_config sample_id)) = Some b"
    by (auto simp: pair_env_simps)
  then have "mget (st_requests (sv_store busy_service)) sample_id = Some ''{}''"
    using pair_decoded(1,2) by (simp add: post_of_def http_post.truncate_def pendingOperation_def)
  with run show ?thesis by (rule conjI)
qed

end
