(* ===== verification/CatalogRestart.thy ===== *)
theory CatalogRestart
  imports CatalogAdmission
begin

text \<open>
  Restarting the catalog service over the files an earlier process left: every operation a reachable
  service has stored can be read back with its request, so that \<open>resumePending\<close> either takes up all
  pending operations or refuses because there are more of them than the service admits. The last
  section shows that a service can leave more of them than it admits.
\<close>

section \<open>Reading the operations back\<close>

lemma listOperations_set: "listOperations E io st = Some ids \<Longrightarrow> set ids = fst ` set (st_operations st)"
  by (simp add: listOperations_def split: if_splits) (metis set_map set_sort)

lemma startService_files:
  assumes "startService E C io st = Inr s"
  shows "files_ok E st"
  unfolding files_ok_def
proof (intro allI impI)
  fix i op t assume op: "mget (st_operations st) i = Some (op, t)"
  from assms obtain ids jobs where ids: "listOperations E io st = Some ids" "for_result (resumeOne E io st) ids [] = Inr jobs"
    by (auto simp: startService_def resumePending_def emptyService_def split: option.splits sum.splits)
  have "i \<in> set ids" using listOperations_set [OF ids(1)] mget_Some_in_keys [OF op] by simp
  from for_result_each [OF ids(2) this] obtain a b where "resumeOne E io st i a = Inr b" by blast
  then obtain op' r where loaded: "loadOperation E io i st = Loaded op'" "loadRequest E io i st = Loaded r" "OperationID E r = Some i"
    by (auto simp: resumeOne_def split: loaded.splits if_splits)
  from loadOperation_Loaded [OF loaded(1)] loadRequest_Loaded [OF loaded(2)] loaded(3) op show "recoverable E st i op"
    by (auto simp: recoverable_def request_ok_def request_at_def OperationID_Some)
qed

lemma reachable_files:
  assumes "reachable E C st s" and "json_faithful (ev_codec E)" and "gomap_ok (st_operations st)"
  shows "files_ok E (sv_store s)"
proof -
  from assms(1) have "files_ok E st" by induction (simp_all add: startService_files)
  with service_ok_initial [OF assms(3)] have "recovery_ok E C (length (st_operations st)) (emptyService st)"
    by (simp add: recovery_ok_def emptyService_def)
  from recovery.reachable_keeps [OF assms(1) this] assms(2) show ?thesis by (simp add: recovery_ok_def)
qed

text \<open>A call in which every read succeeds.\<close>

definition readable :: "call \<Rightarrow> bool" where
  "readable io \<longleftrightarrow> io_list io \<and> (\<forall>i. io_load io i \<and> io_loadRequest io i)"

definition pendingFile :: "store \<Rightarrow> string \<Rightarrow> bool" where
  "pendingFile st i = (case mget (st_operations st) i of None \<Rightarrow> False | Some (op, t) \<Rightarrow> op_Status op = OperationPending)"

lemma resumeOne_ok:
  assumes "files_ok E st" and "readable io" and "i \<in> fst ` set (st_operations st)"
  shows "\<exists>r. request_ok E st i r \<and> (\<forall>acc. resumeOne E io st i acc = Inr (if pendingFile st i then acc @ [(i, r)] else acc))"
proof -
  from assms(3) obtain op t where op: "mget (st_operations st) i = Some (op, t)" using in_keys_mget [of i "st_operations st"] by auto
  with assms(1) have rec: "recoverable E st i op" by (auto simp: files_ok_def)
  then obtain r b where r: "CanonicalRequest (ev_codec E) r = Some b" "request_at E st i b" "DecodeRequest (ev_codec E) b = Some r"
    by (auto simp: recoverable_def request_ok_def request_at_def)
  have "loadOperation E io i st = Loaded op" "loadRequest E io i st = Loaded r" "OperationID E r = Some i"
    using op rec r assms(2)
    by (auto simp: loadOperation_def loadRequest_def recoverable_def readable_def request_at_def OperationID_Some)
  with op r show ?thesis by (intro exI [of _ r]) (auto simp: resumeOne_def pendingFile_def request_ok_def)
qed

lemma resume_jobs:
  assumes "files_ok E st" and "readable io" and "set ids \<subseteq> fst ` set (st_operations st)"
  shows "\<exists>jobs. (\<forall>acc. for_result (resumeOne E io st) ids acc = Inr (acc @ jobs))
    \<and> map fst jobs = filter (pendingFile st) ids \<and> (\<forall>(i, r) \<in> set jobs. request_ok E st i r)"
  using assms(3)
proof (induction ids)
  case (Cons i ids)
  then obtain jobs where jobs: "\<forall>acc. for_result (resumeOne E io st) ids acc = Inr (acc @ jobs)"
    "map fst jobs = filter (pendingFile st) ids" "\<forall>(i, r) \<in> set jobs. request_ok E st i r" by auto
  from resumeOne_ok [OF assms(1,2), of i] Cons.prems obtain r
    where r: "request_ok E st i r" "\<forall>acc. resumeOne E io st i acc = Inr (if pendingFile st i then acc @ [(i, r)] else acc)" by auto
  show ?case
    by (rule exI [of _ "if pendingFile st i then (i, r) # jobs else jobs"]) (use jobs r in simp)
qed simp

section \<open>Taking the jobs up\<close>

lemma startLocked_fresh:
  assumes "\<not> sv_closed s" and "\<not> mhas (sv_terminalErrors s) i" and "i \<notin> running s \<union> waiting s"
    and "length (sv_active s) + length (sv_queued s) < cf_maxPending C" and "cloneRequest E r \<noteq> None"
  defines "s' \<equiv> startLocked E C i r s"
  shows "running s' \<union> waiting s' = insert i (running s \<union> waiting s)"
    and "length (sv_active s') + length (sv_queued s') = length (sv_active s) + length (sv_queued s) + 1"
    and "sv_terminalErrors s' = sv_terminalErrors s" and "sv_closed s' = sv_closed s"
proof -
  from assms(5) obtain c where c: "cloneRequest E r = Some c" by auto
  have new: "\<not> mhas (sv_active s) i" "\<not> mhas (sv_queued s) i"
    using assms(3) by (simp_all add: running_def waiting_def mhas_keys)
  have keys: "i \<notin> fst ` set (sv_active s)" "i \<notin> fst ` set (sv_queued s)"
    using assms(3) by (simp_all add: running_def waiting_def)
  have s': "s' = (if sv_slots s < cf_slots C then launchGeneration i c (s\<lparr>sv_slots := sv_slots s + 1\<rparr>)
      else s\<lparr>sv_queued := mput i c (sv_queued s), sv_queue := sv_queue s @ [i]\<rparr>)"
    using assms(1,2,4) new c by (simp add: s'_def startLocked_def generationCapacityAvailable_def)
  show "running s' \<union> waiting s' = insert i (running s \<union> waiting s)"
    unfolding s' by (simp add: running_def waiting_def launchGeneration_def)
  show "length (sv_active s') + length (sv_queued s') = length (sv_active s) + length (sv_queued s) + 1"
    unfolding s' using keys by (simp add: launchGeneration_def length_mput_fresh)
  show "sv_terminalErrors s' = sv_terminalErrors s" and "sv_closed s' = sv_closed s"
    unfolding s' by (simp_all add: launchGeneration_def)
qed

lemma starts_all:
  assumes "\<not> sv_closed s" and "sv_terminalErrors s = []" and "distinct (map fst jobs)"
    and "fst ` set jobs \<inter> (running s \<union> waiting s) = {}"
    and "length (sv_active s) + length (sv_queued s) + length jobs \<le> cf_maxPending C"
    and "\<forall>(i, r) \<in> set jobs. cloneRequest E r \<noteq> None"
  defines "s' \<equiv> foldl (\<lambda>s (i, r). startLocked E C i r s) s jobs"
  shows "running s' \<union> waiting s' = running s \<union> waiting s \<union> fst ` set jobs"
  using assms(1-6) unfolding s'_def
proof (induction jobs arbitrary: s)
  case (Cons job jobs)
  obtain i r where [simp]: "job = (i, r)" by (cases job)
  from Cons.prems have i: "\<not> mhas (sv_terminalErrors s) i" "i \<notin> running s \<union> waiting s"
    "length (sv_active s) + length (sv_queued s) < cf_maxPending C" "cloneRequest E r \<noteq> None"
    by (auto simp: mhas_def)
  note fresh = startLocked_fresh [OF Cons.prems(1) i]
  let ?t = "foldl (\<lambda>s (i, r). startLocked E C i r s) (startLocked E C i r s) jobs"
  have "running ?t \<union> waiting ?t = running (startLocked E C i r s) \<union> waiting (startLocked E C i r s) \<union> fst ` set jobs"
    by (rule Cons.IH) (use Cons.prems fresh in auto)
  then show ?case using fresh(1) by auto
qed simp

lemma startService_recovers:
  assumes files: "files_ok E st" and io: "readable io" and json: "json_faithful (ev_codec E)" and "gomap_ok (st_operations st)"
  defines "pending \<equiv> filter (pendingFile st) (sort (mkeys (st_operations st)))"
  shows "if cf_maxPending C < length pending then startService E C io st = Inl (ResumeTooMany (length pending))
    else \<exists>s. startService E C io st = Inr s \<and> running s \<union> waiting s = set pending"
proof -
  have valid: "validOperationID (ev_unicode E) i" if "i \<in> fst ` set (st_operations st)" for i
    using that files in_keys_mget [of i "st_operations st"] by (auto simp: files_ok_def recoverable_def)
  have "listOperations E io st \<noteq> None"
    using io valid by (auto simp: listOperations_def readable_def list_ex_iff)
  then have ids: "listOperations E io st = Some (sort (mkeys (st_operations st)))"
    by (auto simp: listOperations_def split: if_splits)
  from resume_jobs [OF files io, of "sort (mkeys (st_operations st))"] listOperations_set [OF ids]
  obtain jobs where loop: "for_result (resumeOne E io st) (sort (mkeys (st_operations st))) [] = Inr jobs"
    and jobs: "map fst jobs = pending" "\<forall>(i, r) \<in> set jobs. request_ok E st i r"
    by (auto simp: pending_def)
  have "distinct pending" using assms(4) by (simp add: pending_def gomap_ok_def)
  have len: "length jobs = length pending" using jobs(1) by (metis length_map)
  let ?s = "foldl (\<lambda>s (i, r). startLocked E C i r s) (emptyService st) jobs"
  have "running ?s \<union> waiting ?s = running (emptyService st) \<union> waiting (emptyService st) \<union> fst ` set jobs"
    if "length pending \<le> cf_maxPending C"
  proof (rule starts_all)
    show "\<forall>(i, r) \<in> set jobs. cloneRequest E r \<noteq> None"
      using jobs(2) cloneRequest_total [OF json] by (fastforce simp: request_ok_def)
  qed (use that len jobs(1) \<open>distinct pending\<close> in \<open>simp_all add: emptyService_def running_def waiting_def\<close>)
  moreover have "fst ` set jobs = set pending" using jobs(1) by (metis set_map)
  ultimately have "running ?s \<union> waiting ?s = set pending" if "length pending \<le> cf_maxPending C"
    using that by (simp add: emptyService_def running_def waiting_def)
  moreover have "startService E C io st = (if cf_maxPending C < length pending then Inl (ResumeTooMany (length pending)) else Inr ?s)"
    using ids loop len by (simp add: startService_def resumePending_def emptyService_def)
  ultimately show ?thesis by simp
qed

section \<open>Claims\<close>

lemma sample_readable: "readable sample_call"
  by (simp add: readable_def sample_call_def)

lemma busy_simps:
  "st_operations busy_store = [(sample_id, (pendingOperation sample_config sample_id, 7))]" "st_requests busy_store = [(sample_id, ''{}'')]"
  "sv_store busy_service = busy_store"
  by (simp_all add: busy_store_def busy_service_def with_job_def empty_store_def sample_call_def)

text \<open>
  C23: A service that is started over the files of a reachable state finds every operation readable. It
  takes up exactly the stored pending operations, each running or queued, or, when there are more of
  them than its admission limit, it refuses to start and says how many. The jobs that were waiting
  or not yet stored as finished are among them.
\<close>

theorem restart_takes_up_pending:
  assumes "reachable E C st s" and "json_faithful (ev_codec E)" and "gomap_ok (st_operations st)" and "readable io"
  defines "pending \<equiv> filter (pendingFile (sv_store s)) (sort (mkeys (st_operations (sv_store s))))"
  shows "fst ` set (sv_queued s) \<union> {i. \<exists>w. mget (sv_workers s) i = Some w \<and> w \<noteq> Leaving} \<subseteq> set pending
    \<and> (if cf_maxPending C' < length pending
       then startService E C' io (sv_store s) = Inl (ResumeTooMany (length pending))
       else \<exists>s'. startService E C' io (sv_store s) = Inr s'
              \<and> fst ` set (sv_active s') \<union> fst ` set (sv_queued s') = set pending)"
proof -
  from reachable_service_ok [OF assms(1,3)] have ok: "pending_ok E s" "gomap_ok (st_operations (sv_store s))"
    by (simp_all add: service_ok_def bounded_by_def)
  have "i \<in> set pending" if "pending_at E (sv_store s) i" for i
    using that mget_Some_in_keys [of "st_operations (sv_store s)" i]
    by (auto simp: pending_def pending_at_def pendingFile_def split: option.splits)
  with ok(1) have "waiting s \<union> {i. \<exists>w. mget (sv_workers s) i = Some w \<and> w \<noteq> Leaving} \<subseteq> set pending"
    by (auto simp: pending_ok_def)
  with startService_recovers [OF reachable_files [OF assms(1-3)] assms(4,2) ok(2), of C', folded pending_def]
  show ?thesis unfolding running_def waiting_def by (rule conjI [rotated])
qed

theorem restart_takes_up_pending_witness:
  "\<exists>s. startService pair_env sample_config sample_call (sv_store busy_service) = Inr s
     \<and> fst ` set (sv_active s) \<union> fst ` set (sv_queued s) = {sample_id}"
proof -
  have pending: "filter (pendingFile (sv_store busy_service)) (sort (mkeys (st_operations (sv_store busy_service)))) = [sample_id]"
    by (simp add: busy_simps pendingFile_def pendingOperation_def)
  have "\<not> cf_maxPending sample_config < length [sample_id]" by (simp add: sample_config_def)
  moreover have "json_faithful (ev_codec pair_env)" "gomap_ok (st_operations empty_store)"
    using pair_faithful by (simp_all add: pair_env_simps empty_store_def gomap_ok_def)
  ultimately show ?thesis
    using restart_takes_up_pending [OF busy_reachable _ _ sample_readable, of sample_config] by (simp add: pending)
qed

text \<open>
  C32: A service can leave files that it refuses to start over. The admission limit is checked against the
  running and queued jobs, and a request that was let in before \<open>Close\<close> and is handled after it stores a
  pending operation without starting it. So with a limit of one, two such requests leave two
  pending operations.
\<close>

theorem shutdown_can_exceed_admission:
  "\<exists>s. reachable pair_env sample_config empty_store s
     \<and> startService pair_env sample_config sample_call (sv_store s) = Inl (ResumeTooMany 2)"
proof -
  let ?E = pair_env and ?C = sample_config and ?io = sample_call
  let ?e = "(emptyService empty_store)\<lparr>sv_handlers := 2, sv_closed := True\<rparr>"
  define s1 where "s1 = ?e\<lparr>sv_store := busy_store, sv_handlers := 1\<rparr>"
  define s2 where "s2 = s1\<lparr>sv_store := with_job ?C ?io other_id ''{ }'' busy_store, sv_handlers := 0\<rparr>"
  have capacity: "generationCapacityAvailable ?C ?e i" "generationCapacityAvailable ?C s1 i" for i
    by (simp_all add: generationCapacityAvailable_def s1_def empty_service_simps mhas_def) (simp_all add: sample_config_def)
  have closed: "reachable ?E ?C empty_store ?e"
    using reachable.stepped [OF sample_entered [of 2] service_step.closing] .
  have post: "serveRoute ?E ?C ?io (ResultReply None) (post_of ''{}'') ?e
      = (PendingReply 202 (pendingOperation ?C sample_id), ?e\<lparr>sv_store := busy_store\<rparr>)"
    using post_sample [of ?e] capacity(1) by (simp add: empty_service_simps startLocked_closed busy_store_def)
  have reach1: "reachable ?E ?C empty_store s1"
    using reachable.stepped [OF closed service_step.answered [OF _ post]] by (simp add: s1_def)
  have post1: "serveRoute ?E ?C ?io (ResultReply None) (post_of ''{ }'') s1
      = (PendingReply 202 (pendingOperation ?C other_id), s1\<lparr>sv_store := with_job ?C ?io other_id ''{ }'' busy_store\<rparr>)"
    using post_other [of s1] capacity(2) by (simp add: s1_def empty_service_simps startLocked_closed busy_simps)
  have reach: "reachable ?E ?C empty_store s2"
    using reachable.stepped [OF reach1 service_step.answered [OF _ post1]] by (simp add: s2_def s1_def)
  have "files_ok ?E (sv_store s2)" "gomap_ok (st_operations (sv_store s2))"
    using reachable_files [OF reach] reachable_service_ok [OF reach] pair_faithful
    by (simp_all add: pair_env_simps empty_store_def gomap_ok_def service_ok_def bounded_by_def)
  moreover have "length (filter (pendingFile (sv_store s2)) (sort (mkeys (st_operations (sv_store s2))))) = 2"
    using pair_ids(5)
    by (simp add: s2_def with_job_def busy_simps filter_sort pendingFile_def pendingOperation_def)
  ultimately show ?thesis
    using startService_recovers [OF _ sample_readable, of ?E "sv_store s2" ?C] pair_faithful reach
    by (auto simp: pair_env_simps sample_config_def)
qed

end
