(* ===== verification/CatalogProgress.thy ===== *)
theory CatalogProgress
  imports CatalogAdmission
begin

text \<open>
  Progress of the catalog service: the workers hand their slots over in the order of the queue, every
  step of a worker brings the queue closer to its end, and some worker can always go on while there
  are any. The claims on the limits of the scheduler and of the operation files are here as well.
\<close>

section \<open>Steps of the workers\<close>

text \<open>The steps of \<open>service_step\<close> that a worker goroutine takes.\<close>

inductive worker_step ::
  "'x environment \<Rightarrow> config \<Rightarrow> service \<Rightarrow> service \<Rightarrow> bool" for E C where
  generates: "mget (sv_workers s) i = Some (Generating r) \<Longrightarrow> (g = Cancelled \<longrightarrow> sv_closed s)
    \<Longrightarrow> worker_step E C s (runGeneration E C io i r g s)"
| finishes: "mget (sv_workers s) i = Some (Finishing op) \<Longrightarrow> worker_step E C s (finishGeneration E C io i op s)"
| leaves: "mget (sv_workers s) i = Some Leaving \<Longrightarrow> generationDone C i s = Some s' \<Longrightarrow> worker_step E C s s'"

lemma worker_step_service: "worker_step E C s s' \<Longrightarrow> service_step E C s s'"
  by (induction rule: worker_step.induct) (auto intro: service_step.intros)

primrec stepsLeft :: "worker \<Rightarrow> nat" where
  "stepsLeft (Generating r) = 3"
| "stepsLeft (Finishing op) = 2"
| "stepsLeft Leaving = 1"

text \<open>The steps the workers have before them.\<close>

definition work :: "service \<Rightarrow> nat" where
  "work s = sum_list (map (stepsLeft \<circ> snd) (sv_workers s)) + 3 * length (sv_queue s)"

lemma sum_mput:
  "gomap_ok m \<Longrightarrow> mget m k = Some v \<Longrightarrow>
     sum_list (map (f \<circ> snd) (mput k w m)) + f v = sum_list (map (f \<circ> snd) m) + (f w :: nat)"
proof (induction m)
  case (Cons a m)
  then show ?case by (cases a) (auto simp: gomap_ok_def)
qed simp

lemma sum_mdel:
  "gomap_ok m \<Longrightarrow> mget m k = Some v \<Longrightarrow>
     sum_list (map (f \<circ> snd) (mdel k m)) + f v = (sum_list (map (f \<circ> snd) m) :: nat)"
proof (induction m)
  case (Cons a m)
  obtain k' v' where [simp]: "a = (k', v')" by (cases a)
  show ?case
  proof (cases "k = k'")
    case True
    with Cons.prems have "k \<notin> fst ` set m" "v' = v" by (auto simp: gomap_ok_def)
    then show ?thesis using True by (simp add: delete_idem)
  next
    case False
    with Cons show ?thesis by (auto simp: gomap_ok_def)
  qed
qed simp

lemma work_worker:
  assumes "gomap_ok (sv_workers s)" and "mget (sv_workers s) i = Some w" and "stepsLeft w' < stepsLeft w"
    and "sv_workers s' = mput i w' (sv_workers s)" and "sv_queue s' = sv_queue s"
  shows "work s' < work s"
  using sum_mput [OF assms(1,2), of stepsLeft w'] assms(3-5) by (simp add: work_def)

lemma generationDone_work:
  assumes ok: "scheduler_ok C s" and w: "mget (sv_workers s) i = Some Leaving" and run: "generationDone C i s = Some s'"
  shows "work s' < work s"
proof -
  have maps: "gomap_ok (sv_workers s)" using ok by (simp add: scheduler_ok_def tables_ok_def)
  note gone = sum_mdel [OF maps w, of stepsLeft]
  show ?thesis
    using ok worker_running [OF ok w]
  proof (cases rule: generationDone_cases)
    case 1
    with run gone show ?thesis by (auto simp: work_def)
  next
    case (2 j r rest)
    have "j \<notin> running s" using ok 2(2) by (auto simp: scheduler_ok_def queue_ok_def)
    then have "j \<notin> fst ` set (mdel i (sv_workers s))"
      using ok keys_mdel_subset [of i "sv_workers s"] by (auto simp: scheduler_ok_def tables_ok_def)
    with run 2 gone show ?thesis by (auto simp: work_def launchGeneration_def mput_fresh)
  qed
qed

lemma worker_step_work:
  assumes "scheduler_ok C s" and "worker_step E C s s'"
  shows "work s' < work s"
  using assms(2)
proof cases
  case (generates i r g io)
  obtain op st where run: "generationResult E C io i r g (sv_store s) = (op, st)" by fastforce
  show ?thesis
    by (rule work_worker [OF _ generates(2), where w' = "case op of None \<Rightarrow> Leaving | Some op \<Rightarrow> Finishing op"])
      (use assms(1) run in \<open>simp_all add: generates(1) runGeneration_def scheduler_ok_def tables_ok_def split: option.split\<close>)
next
  case (finishes i op io)
  show ?thesis
    by (rule work_worker [OF _ finishes(2), where w' = Leaving])
      (use assms(1) in \<open>simp_all add: finishes(1) finishGeneration_def Let_def finishOperation_frame scheduler_ok_def tables_ok_def\<close>)
next
  case (leaves i)
  with generationDone_work [OF assms(1)] show ?thesis by blast
qed

lemma worker_can_step:
  assumes ok: "scheduler_ok C s" and w: "mget (sv_workers s) i = Some w"
  shows "\<exists>s'. worker_step E C s s'"
proof (cases w)
  case (Generating r)
  with w have "worker_step E C s (runGeneration E C io i r DeadlinePassed s)" for io
    by (intro worker_step.generates) simp_all
  then show ?thesis by blast
next
  case (Finishing op)
  with w worker_step.finishes show ?thesis by blast
next
  case Leaving
  from ok worker_running [OF ok w] obtain s' where "generationDone C i s = Some s'"
    by (cases rule: generationDone_cases) auto
  with w Leaving worker_step.leaves show ?thesis by blast
qed

lemma idle_state:
  assumes "scheduler_ok C s" and "0 < cf_slots C" and "sv_workers s = []"
  shows "sv_active s = [] \<and> sv_slots s = 0 \<and> (sv_closed s \<or> sv_queue s = [])"
proof -
  from assms have "sv_active s = []" by (simp add: scheduler_ok_def tables_ok_def running_def)
  with assms show ?thesis by (auto simp: scheduler_ok_def slots_ok_def)
qed

lemma work_bound:
  assumes "scheduler_ok C s"
  shows "work s \<le> 3 * cf_maxPending C"
proof -
  have "sum_list (map (stepsLeft \<circ> snd) m) \<le> 3 * length m" for m :: "(string, worker) gomap"
  proof (induction m)
    case (Cons a m)
    then show ?case by (cases "snd a") simp_all
  qed simp
  then have work: "work s \<le> 3 * (length (sv_workers s) + length (sv_queue s))" by (simp add: work_def)
  have "length (sv_workers s) = length (sv_active s)"
    using assms distinct_card [of "mkeys (sv_workers s)"] distinct_card [of "mkeys (sv_active s)"]
    by (simp add: scheduler_ok_def tables_ok_def gomap_ok_def running_def)
  moreover have "length (sv_queue s) = length (sv_queued s)"
    using assms distinct_card [of "sv_queue s"] distinct_card [of "mkeys (sv_queued s)"]
    by (simp add: scheduler_ok_def tables_ok_def queue_ok_def gomap_ok_def waiting_def)
  moreover have "length (sv_active s) + length (sv_queued s) \<le> cf_maxPending C"
    using assms by (simp add: scheduler_ok_def slots_ok_def)
  ultimately show ?thesis using work by (auto intro: le_trans)
qed

lemma worker_steps:
  assumes "reachable E C st s" and "(worker_step E C ^^ n) s t"
  shows "reachable E C st t \<and> n + work t \<le> work s"
  using assms(2)
proof (induction n arbitrary: t)
  case 0
  with assms(1) show ?case by simp
next
  case (Suc n)
  from Suc.prems obtain u where u: "(worker_step E C ^^ n) s u" "worker_step E C u t" by auto
  with Suc.IH have "reachable E C st u" "n + work u \<le> work s" by blast+
  with reachable.stepped [OF _ worker_step_service [OF u(2)]] worker_step_work [OF reachable_scheduler_ok u(2)] show ?case
    by fastforce
qed

lemma configOf_limits:
  assumes "configOf origin catalogService extractor g = Inr C"
  shows "0 < cf_slots C \<and> 0 < cf_maxPending C \<and> 0 < cf_maxStoredOperations C"
  using assms by (auto simp: configOf_def Let_def split: if_splits)

lemma sample_configured:
  "configOf ''https://catalog.example'' (cf_catalogService sample_config) (cf_extractor sample_config)
     \<lparr>se_CatalogSetLifetime = 100, se_GenerationTimeout = 0, se_RetryAfter = seconds 2, se_CatalogRefresh = 10,
        se_MaxConcurrentGenerations = 1, se_MaxPendingGenerations = 1, se_MaxStoredOperations = 4\<rparr> = Inr sample_config"
  by (simp add: configOf_def defaulted_def MaxCatalogSetLifetime_def sample_config_def)

lemma busy_worker: "mget (sv_workers busy_service) sample_id = Some (Generating (canonicalizeRequest sample_request))"
  by (simp add: busy_service_def)

lemma busy_step:
  "worker_step pair_env sample_config busy_service
     (runGeneration pair_env sample_config sample_call sample_id (canonicalizeRequest sample_request) DeadlinePassed busy_service)"
  by (rule worker_step.generates [OF busy_worker]) simp

section \<open>Claims\<close>

text \<open>
  C22: In every reachable state the tokens of the generation channel count the active jobs, which stay
  within the concurrency limit, and the active and queued jobs together within the admission limit.
  The queue lists each queued job once, no job is active and queued, each active job has its worker,
  and a job waits only while all slots are taken or the service is shutting down.
\<close>

theorem scheduler_limits:
  assumes "reachable E C st s"
  shows "sv_slots s = length (sv_active s) \<and> length (sv_active s) \<le> cf_slots C
    \<and> length (sv_active s) + length (sv_queued s) \<le> cf_maxPending C
    \<and> distinct (sv_queue s) \<and> set (sv_queue s) = fst ` set (sv_queued s)
    \<and> fst ` set (sv_active s) \<inter> fst ` set (sv_queued s) = {}
    \<and> fst ` set (sv_workers s) = fst ` set (sv_active s)
    \<and> (sv_queue s = [] \<or> sv_slots s = cf_slots C \<or> sv_closed s)"
proof -
  from reachable_scheduler_ok [OF assms] have "tables_ok s" "queue_ok s" "slots_ok C s" by (simp_all add: scheduler_ok_def)
  then show ?thesis unfolding tables_ok_def queue_ok_def slots_ok_def running_def waiting_def by auto
qed

theorem scheduler_limits_witness:
  "sv_slots busy_service = length (sv_active busy_service) \<and> length (sv_active busy_service) \<le> cf_slots sample_config"
  using scheduler_limits [OF busy_reachable] by simp

text \<open>
  C25: The workers always finish. However they interleave, they take at most three steps for each job the
  service admits, and they stop only when no worker, no active job and no token is left and the
  queue is empty, unless the service is shutting down, which keeps queued jobs for the next start.
\<close>

theorem workers_drain_the_queue:
  assumes "configOf origin catalogService extractor g = Inr C" and "reachable E C st s" and "(worker_step E C ^^ n) s t"
  shows "n \<le> 3 * cf_maxPending C
    \<and> ((\<exists>u. worker_step E C t u) \<or> sv_workers t = [] \<and> sv_active t = [] \<and> sv_slots t = 0 \<and> (sv_closed t \<or> sv_queue t = []))"
proof -
  note steps = worker_steps [OF assms(2,3)]
  with work_bound [OF reachable_scheduler_ok [OF assms(2)]] have "n \<le> 3 * cf_maxPending C" by linarith
  moreover have ok: "scheduler_ok C t" using reachable_scheduler_ok steps by blast
  have "\<exists>u. worker_step E C t u" if "sv_workers t \<noteq> []"
  proof -
    from that have "fst (hd (sv_workers t)) \<in> set (mkeys (sv_workers t))" by (cases "sv_workers t") simp_all
    from in_keys_mget [OF this] obtain w where "mget (sv_workers t) (fst (hd (sv_workers t))) = Some w" ..
    from worker_can_step [OF ok this] show ?thesis .
  qed
  ultimately show ?thesis using idle_state [OF ok] configOf_limits [OF assms(1)] by (cases "sv_workers t = []") simp_all
qed

theorem workers_drain_the_queue_witness:
  "\<exists>t. worker_step pair_env sample_config busy_service t
     \<and> ((\<exists>u. worker_step pair_env sample_config t u) \<or> sv_workers t = [])"
proof -
  have "(worker_step pair_env sample_config ^^ 1) busy_service
      (runGeneration pair_env sample_config sample_call sample_id (canonicalizeRequest sample_request) DeadlinePassed busy_service)"
    using busy_step by (simp add: OO_def)
  from workers_drain_the_queue [OF sample_configured busy_reachable this] busy_step show ?thesis by blast
qed

text \<open>
  C26: A worker that leaves never blocks on the channel, and it hands its slot to the first job of the
  queue, with the request that was queued for it. It only gives the slot up when the queue is empty
  or the service is shutting down.
\<close>

theorem slot_goes_to_the_queue_head:
  assumes "reachable E C st s" and "mget (sv_workers s) i = Some Leaving"
  shows "\<exists>s'. generationDone C i s = Some s' \<and> sv_store s' = sv_store s
    \<and> (if sv_closed s \<or> sv_queue s = []
       then sv_queue s' = sv_queue s \<and> sv_slots s' = sv_slots s - 1 \<and> fst ` set (sv_active s') = fst ` set (sv_active s) - {i}
       else \<exists>r. mget (sv_queued s) (hd (sv_queue s)) = Some r \<and> sv_queue s' = tl (sv_queue s) \<and> sv_slots s' = sv_slots s
              \<and> mget (sv_workers s') (hd (sv_queue s)) = Some (Generating r)
              \<and> fst ` set (sv_active s') = insert (hd (sv_queue s)) (fst ` set (sv_active s) - {i}))"
proof -
  note ok = reachable_scheduler_ok [OF assms(1)]
  have i: "i \<in> running s" by (rule worker_running [OF ok assms(2)])
  with ok have slots: "0 < sv_slots s" by (auto simp: scheduler_ok_def slots_ok_def running_def)
  from ok i show ?thesis
  proof (cases rule: generationDone_cases)
    case 1
    then show ?thesis by (intro exI [of _ "departed i s"]) (simp, simp add: departed_def keys_mdel)
  next
    case (2 j r rest)
    then show ?thesis using slots by (simp add: launchGeneration_def) (simp add: departed_def keys_mdel)
  qed
qed

text \<open>The service when the worker of its job is about to leave.\<close>

definition leaving_service :: service where
  "leaving_service =
     (let op = failedOperation sample_id \<lparr>fl_Code = FailureTimeout, fl_Message = ''catalog generation timed out''\<rparr>
      in finishGeneration pair_env sample_config sample_call sample_id op
           (runGeneration pair_env sample_config sample_call sample_id (canonicalizeRequest sample_request) DeadlinePassed busy_service))"

lemma leaving_worker: "mget (sv_workers leaving_service) sample_id = Some Leaving"
  by (simp add: leaving_service_def finishGeneration_def Let_def)

lemma leaving_reachable: "reachable pair_env sample_config empty_store leaving_service"
proof -
  let ?s = "runGeneration pair_env sample_config sample_call sample_id (canonicalizeRequest sample_request) DeadlinePassed busy_service"
  let ?op = "failedOperation sample_id \<lparr>fl_Code = FailureTimeout, fl_Message = ''catalog generation timed out''\<rparr>"
  have clone: "cloneRequest pair_env (canonicalizeRequest sample_request) = Some (canonicalizeRequest sample_request)"
    by (simp add: cloneRequest_def pair_env_simps pair_decoded)
  have "mget (sv_workers ?s) sample_id = Some (Finishing ?op)"
    by (simp add: runGeneration_def generationResult_def clone)
  from service_step.finished [OF this] show ?thesis
    unfolding leaving_service_def Let_def
    by (rule reachable.stepped [OF reachable.stepped [OF busy_reachable worker_step_service [OF busy_step]]])
qed

theorem slot_goes_to_the_queue_head_witness:
  "\<exists>s'. generationDone sample_config sample_id leaving_service = Some s' \<and> sv_store s' = sv_store leaving_service"
  using slot_goes_to_the_queue_head [OF leaving_reachable leaving_worker] by blast

text \<open>
  C31: The number of operation files never exceeds the quota, or the number there was at the start if
  that was larger: eviction makes room before a new operation is stored, and an operation that is
  stored again keeps its file.
\<close>

theorem stored_operations_stay_within_quota:
  assumes "reachable E C st s" and "gomap_ok (st_operations st)"
  shows "length (st_operations (sv_store s)) \<le> max (length (st_operations st)) (cf_maxStoredOperations C)"
  using reachable_service_ok [OF assms] by (simp add: service_ok_def bounded_by_def)

theorem stored_operations_stay_within_quota_witness:
  "length (st_operations (sv_store busy_service)) \<le> 4"
proof -
  have "gomap_ok (st_operations empty_store)" by (simp add: empty_store_def gomap_ok_def)
  from stored_operations_stay_within_quota [OF busy_reachable this] show ?thesis
    by (simp add: empty_store_def sample_config_def)
qed

end
