(* ===== verification/Spec2Isabelle.thy ===== *)
theory Spec2Isabelle
  imports ResolverCorrect Jws CatalogRestart CatalogProgress
begin

text \<open>
  Verification library for dalec-homebrew, a BuildKit frontend that turns a list of Homebrew Formulae
  into an image of verified bottles.

  \<^bold>\<open>The program.\<close> A request names Formulae. Names are parsed into identities
  (\<open>internal/homebrew/formulaid\<close>, \<open>internal/catalog/identity.go\<close>). The signed Homebrew metadata is
  normalised and indexed (\<open>internal/homebrew/metadata\<close>); \<open>internal/resolver\<close> looks every name up there,
  asks the OCI resolver (\<open>internal/homebrew/oci\<close>) for the verified bottle of each Formula, follows the
  dependencies, checks version requirements (\<open>internal/homebrew/version\<close>), and emits a resolution
  record (\<open>internal/resolution\<close>). Formulae of public taps are resolved by the catalog service
  (\<open>internal/catalogservice\<close>) instead: it takes canonical requests (\<open>internal/catalog\<close>), runs them as
  jobs, publishes one document per tap and signs the set that refers to them.

  \<^bold>\<open>Theories.\<close>

  \<^item> \<open>Prelude\<close>: fallible results, Go maps as association lists, stable sorting, and the lemmas on lists
    that the components share. \<open>GoStd\<close>: the part of Go's standard library that the code calls.
  \<^item> \<open>Formulaid\<close> (\<open>formulaid.go\<close>, \<open>identity.go\<close>): the grammar of identities. Parsing is exact, lists of
    roots are accepted exactly when distinct, and wire identities are canonical.
  \<^item> \<open>Version\<close> (\<open>version.go\<close>): package versions, tokens, \<open>Compare\<close>, \<open>AtLeast\<close>, file names. Comparison is
    antisymmetric and agrees with the lexicographic order on release versions; it is not transitive.
  \<^item> \<open>Topo\<close>: depth-first search for a topological order, the algorithm that \<open>resolution\<close> and \<open>resolver\<close>
    use, with the theory of closed graphs and dependency-first orders; \<open>dependency_order\<close> is the contract
    of such a search.
  \<^item> \<open>Metadata\<close>, \<open>MetadataCatalog\<close>, \<open>MetadataIndex\<close> (\<open>catalog.go\<close>, \<open>types.go\<close>, \<open>jsonutil.go\<close>): the
    duplicate-member check, normalisation, the passes that build the index, migration chains and
    \<open>Lookup\<close>. A catalog that builds satisfies the index invariant, and \<open>Lookup\<close> is exact.
  \<^item> \<open>Resolution\<close> (\<open>record.go\<close>): the record, \<open>Validate\<close>, \<open>canonicalize\<close>. Validation is equivalent to a
    closed acyclic graph in dependency order, and canonicalization is a normal form.
  \<^item> \<open>OciReference\<close>, \<open>OciClient\<close>, \<open>OciResolve\<close> (\<open>reference.go\<close>, \<open>identity.go\<close>, \<open>client.go\<close>,
    \<open>resolve.go\<close>): names of repositories and tags, fetching by descriptor, and the selection of a
    bottle. What is returned is linked by digests to the bytes read and to the metadata.
  \<^item> \<open>Resolver\<close>, \<open>ResolverCorrect\<close> (\<open>resolver.go\<close>): the whole of \<open>Resolve\<close>. It returns on every built
    catalog, records exactly the closure, fails only for external reasons, and succeeds when every
    reached Formula can be resolved.
  \<^item> \<open>CatalogRequest\<close> (\<open>types.go\<close>, \<open>validate.go\<close>, \<open>canonical.go\<close>): requests, their canonical bytes and their
    meaning. \<open>CatalogStore\<close> (\<open>store.go\<close>) and \<open>CatalogPublish\<close> (\<open>service.go\<close>): files, sequence numbers,
    publication, cached results, collection of documents.
  \<^item> \<open>CatalogService\<close> (\<open>service.go\<close>): the state of the service and its steps. \<open>CatalogServiceInv\<close>: the
    locale of invariants of the steps, and \<open>CatalogJobs\<close>: its two interpretations.
    \<open>CatalogAdmission\<close>, \<open>CatalogRestart\<close>, \<open>CatalogProgress\<close>: what the reachable states promise.

  \<^bold>\<open>How the code is translated.\<close> A string is a list of bytes; runes are decoded as \<open>range\<close> does. A map is
  an association list, and what depends on the order of iteration is sorted by the code. A function
  with an error result is a sum or an option; a validator that collects errors is the list of them,
  or the question whether there are none. A struct is a record and a mutated struct a returned one.
  Integers that the code bounds are \<open>int\<close> or \<open>nat\<close>; sequence numbers are 64-bit words, and a time is the
  number of nanoseconds since the zero time. Sections under the mutex of the service are atomic steps.

  \<^bold>\<open>Termination.\<close> No function has fuel. Recursion that is not structural has a termination proof: the
  searches by the nodes not yet marked, migration chains by the names not yet on the chain, tokenizers by
  the remaining input. The closure loop of the resolver is a partial function whose value \<open>None\<close> would
  be a loop without end; it is shown to have a value on every built catalog.

  \<^bold>\<open>Parameters.\<close> \<open>encoding/json\<close> on text, SHA-256, \<open>net/url\<close>, the Unicode tables, the registry's replies,
  the answers of the file system and of the clock are arguments. What the code relies on is a named
  hypothesis of the property that needs it, and its witness gives an instance.

  \<^bold>\<open>Not modelled.\<close> Bearer tokens and the HTTP exchange of the registry client; metadata retrieval and
  caching; signature cryptography; bottle archives and their installation (\<open>internal/bottle\<close>,
  \<open>internal/materializer\<close>, \<open>internal/runtimefs\<close>), which read and write files and ELF images; the
  extractor and the generator of catalogs, which run processes; BuildKit requests
  (\<open>internal/frontend\<close>, \<open>internal/llbutil\<close>); release and policy documents; the command-line programs.
  The structural checks of catalogs and of signed sets are parameters of the catalog service.
\<close>

end
